(* ===== verification/Prelude.thy ===== *)
theory Prelude
  imports Main "HOL-Library.Word"
begin

text \<open>
  Shared vocabulary of the development: the machine integers and byte strings of the source,
  exceptions as values of a sum type, the two halves of the stream abstraction the
  serializers work on (a reader that consumes a byte list, a writer that produces one and may
  stop with an exception), and the generic lemmas on words and lists that the component
  theories share.
\<close>

unbundle bit_operations_syntax

section \<open>Types\<close>

type_synonym byte = "8 word"
type_synonym bytes = "byte list"
type_synonym u16 = "16 word"
type_synonym u32 = "32 word"
type_synonym u64 = "64 word"

text \<open>A C++ call that may throw: \<open>Inl\<close> carries the text of the exception.\<close>

type_synonym 'a res = "string + 'a"

text \<open>A reader takes what is left of the stream and returns a value and the rest.\<close>

type_synonym 'a reader = "bytes \<Rightarrow> ('a \<times> bytes) res"

text \<open>
  What a writer has put on the stream, and the exception that stopped it, if any.  The bytes
  written before an exception stay in the buffer, as they do in the source.
\<close>

type_synonym writer = "bytes \<times> string option"

named_theorems reader_simps \<open>unfolding rules for readers\<close>
named_theorems writer_simps \<open>unfolding rules for writers\<close>
named_theorems le_simps \<open>little-endian encodings\<close>

section \<open>Sequencing of readers and writers\<close>

definition rret :: "'a \<Rightarrow> 'a reader" where
  "rret x s = Inr (x, s)"

definition rfail :: "string \<Rightarrow> 'a reader" where
  "rfail e s = Inl e"

definition rbind :: "'a reader \<Rightarrow> ('a \<Rightarrow> 'b reader) \<Rightarrow> 'b reader" where
  "rbind r f s = (case r s of Inl e \<Rightarrow> Inl e | Inr (x, s') \<Rightarrow> f x s')"

definition rlift :: "'a res \<Rightarrow> 'a reader" where
  "rlift r s = (case r of Inl e \<Rightarrow> Inl e | Inr x \<Rightarrow> Inr (x, s))"

definition wout :: "bytes \<Rightarrow> writer" where
  "wout bs = (bs, None)"

definition wfail :: "string \<Rightarrow> writer" where
  "wfail e = ([], Some e)"

definition wthen :: "writer \<Rightarrow> writer \<Rightarrow> writer" where
  "wthen a b = (case a of (bs, None) \<Rightarrow> (bs @ fst b, snd b) | (bs, Some e) \<Rightarrow> (bs, Some e))"

fun wconcat :: "writer list \<Rightarrow> writer" where
  "wconcat [] = wout []"
| "wconcat (w # ws) = wthen w (wconcat ws)"

lemma rret_apply [simp, reader_simps]: "rret x s = Inr (x, s)"
  by (simp add: rret_def)

lemma rfail_apply [simp, reader_simps]: "rfail e s = Inl e"
  by (simp add: rfail_def)

lemma rbind_Inr [simp]: "r s = Inr (x, s') \<Longrightarrow> rbind r f s = f x s'"
  by (simp add: rbind_def)

lemma rbind_Inl [simp]: "r s = Inl e \<Longrightarrow> rbind r f s = Inl e"
  by (simp add: rbind_def)

lemma rbind_eq_Inr:
  "rbind r f s = Inr z \<longleftrightarrow> (\<exists>x s'. r s = Inr (x, s') \<and> f x s' = Inr z)"
  by (auto simp: rbind_def split: sum.splits)

lemma rbind_InrE:
  assumes "rbind r f s = Inr z"
  obtains x s' where "r s = Inr (x, s')" and "f x s' = Inr z"
  using assms by (auto simp: rbind_eq_Inr)

lemma wthen_out [simp, writer_simps]: "wthen (wout a) w = (a @ fst w, snd w)"
  by (simp add: wthen_def wout_def)

lemma wthen_ok_iff:
  "wthen a b = (bs, None) \<longleftrightarrow> (\<exists>x y. a = (x, None) \<and> b = (y, None) \<and> bs = x @ y)"
  by (cases a; cases b) (auto simp: wthen_def split: option.splits)

lemma wout_ok [simp]: "wout a = (bs, None) \<longleftrightarrow> bs = a"
  by (auto simp: wout_def)

lemma wfail_not_ok [simp]: "wfail e \<noteq> (bs, None)"
  by (simp add: wfail_def)

lemma wconcat_outs: "wconcat (map (\<lambda>x. wout (f x)) xs) = wout (concat (map f xs))"
  by (induction xs) (auto simp: wout_def wthen_def)

section \<open>Words and naturals\<close>

lemma unat_byte_bound [simp]: "unat (b :: byte) < 256"
  using unsigned_less [of b, where ?'a = nat] by simp

lemma unat_of_nat_byte: "n < 256 \<Longrightarrow> unat (of_nat n :: byte) = n"
  by (simp add: unat_of_nat)

lemma unat_take_bit_mod: "unat (take_bit n (w :: 'w::len word)) = unat w mod 2 ^ n"
proof -
  have "unat (take_bit n w) = take_bit n (unat w)" by (rule unsigned_take_bit_eq)
  also have "\<dots> = unat w mod 2 ^ n" by (rule take_bit_eq_mod)
  finally show ?thesis .
qed

lemma unat_drop_bit_div: "unat (drop_bit n (w :: 'w::len word)) = unat w div 2 ^ n"
proof -
  have "unat (drop_bit n w) = drop_bit n (unat w)" by (rule unat_drop_bit_eq)
  also have "\<dots> = unat w div 2 ^ n" by (rule drop_bit_eq_div)
  finally show ?thesis .
qed

lemma unat_ucast_mod: "unat (ucast (w :: 'a::len word) :: 'b::len word) = unat w mod 2 ^ LENGTH('b)"
proof -
  have "unat (ucast w :: 'b word) = take_bit LENGTH('b) (unat w)" by (rule unsigned_ucast_eq)
  also have "\<dots> = unat w mod 2 ^ LENGTH('b)" by (rule take_bit_eq_mod)
  finally show ?thesis .
qed

lemma unat_and_mask7: "unat ((b :: byte) AND 0x7f) = unat b mod 128"
proof -
  have "(0x7f :: byte) = mask 7" by (simp add: mask_eq_exp_minus_1)
  then have "b AND 0x7f = take_bit 7 b" by (simp only: take_bit_eq_mask)
  then have "unat (b AND 0x7f) = unat b mod 2 ^ 7" by (simp only: unat_take_bit_mod)
  then show ?thesis by simp
qed

lemma bit_unat_iff: "bit (unat (w :: 'w::len word)) k \<longleftrightarrow> bit w k"
  by (simp add: bit_unsigned_iff possible_bit_def)

lemma and_high_bit_zero_iff: "(b :: byte) AND 0x80 = 0 \<longleftrightarrow> unat b < 128"
proof -
  have e: "(0x80 :: byte) = 2 ^ 7" by simp
  have "b AND 0x80 = 0 \<longleftrightarrow> \<not> bit b 7"
    unfolding e by (rule and_exp_eq_0_iff_not_bit)
  also have "\<dots> \<longleftrightarrow> \<not> bit (unat b) 7" by (simp only: bit_unat_iff)
  also have "\<dots> \<longleftrightarrow> even (unat b div 2 ^ 7)" by (simp only: bit_iff_odd not_not)
  also have "\<dots> \<longleftrightarrow> unat b < 128"
  proof -
    have "unat b div 2 ^ 7 < 2" using unat_byte_bound [of b] by (simp add: div_less_iff_less_mult)
    then have "even (unat b div 2 ^ 7) \<longleftrightarrow> unat b div 2 ^ 7 = 0" by (auto simp: less_2_cases_iff)
    then show ?thesis by (simp add: div_eq_0_iff)
  qed
  finally show ?thesis .
qed

lemma unat_or_push_bit:
  fixes t :: "'w::len word"
  assumes t: "unat t < 2 ^ s" and f: "unat t + n * 2 ^ s < 2 ^ LENGTH('w)"
  shows "unat (t OR push_bit s (of_nat n)) = unat t + n * 2 ^ s"
proof -
  have "t AND push_bit s (of_nat n) = 0"
  proof (rule bit_word_eqI)
    fix k assume k: "k < LENGTH('w)"
    have "take_bit s (unat t) = unat t"
      using t by (rule take_bit_nat_eq_self)
    then have "k < s" if "bit t k"
      using that by (metis bit_take_bit_iff bit_unat_iff)
    then show "bit (t AND push_bit s (of_nat n)) k \<longleftrightarrow> bit (0 :: 'w word) k"
      by (auto simp: bit_and_iff bit_push_bit_iff)
  qed
  then have "t OR push_bit s (of_nat n) = t + push_bit s (of_nat n)"
    by (simp add: disjunctive_add_eq_or)
  also have "\<dots> = of_nat (unat t + n * 2 ^ s)"
    by (simp add: push_bit_eq_mult)
  finally have "unat (t OR push_bit s (of_nat n)) = (unat t + n * 2 ^ s) mod 2 ^ LENGTH('w)"
    by (simp only: unat_of_nat)
  then show ?thesis
    using f by simp
qed

lemma rlift_Inr_iff [simp]: "rlift r s = Inr (x, s') \<longleftrightarrow> r = Inr x \<and> s' = s"
  by (auto simp: rlift_def split: sum.split)

lemma word_add_overflow_iff:
  "(a + b < (a :: 'w::len word)) \<longleftrightarrow> 2 ^ LENGTH('w) \<le> unat a + unat b"
proof -
  have bounds: "unat a < 2 ^ LENGTH('w)" "unat b < 2 ^ LENGTH('w)" by (rule unsigned_less)+
  show ?thesis
  proof (cases "unat a + unat b < 2 ^ LENGTH('w)")
    case True
    then have "unat (a + b) = unat a + unat b" by (simp add: unat_word_ariths)
    with True show ?thesis by (simp add: word_less_nat_alt)
  next
    case False
    then have "2 ^ LENGTH('w) \<le> unat a + unat b" by simp
    then have "(unat a + unat b) mod 2 ^ LENGTH('w) = (unat a + unat b - 2 ^ LENGTH('w)) mod 2 ^ LENGTH('w)"
      by (rule le_mod_geq)
    also have "\<dots> = unat a + unat b - 2 ^ LENGTH('w)"
      using bounds by (intro mod_less) linarith
    finally have "unat (a + b) = unat a + unat b - 2 ^ LENGTH('w)"
      by (simp only: unat_word_ariths)
    then have "unat (a + b) < unat a" using bounds False by linarith
    with False show ?thesis by (simp only: word_less_nat_alt not_less)
  qed
qed

lemma unat_add_exact: "unat a + unat b < 2 ^ LENGTH('w::len) \<Longrightarrow> unat (a + b :: 'w word) = unat a + unat b"
  by (simp add: unat_word_ariths)

lemma add_with_carry:
  "unat (a + b :: 'w::len word) + (if a + b < a then 2 ^ LENGTH('w) else 0) = unat a + unat b"
proof (cases "a + b < a")
  case True
  then have ge: "2 ^ LENGTH('w) \<le> unat a + unat b" by (simp add: word_add_overflow_iff)
  have "unat a + unat b - 2 ^ LENGTH('w) < 2 ^ LENGTH('w)"
    using unsigned_less [of a, where ?'a = nat] unsigned_less [of b, where ?'a = nat] by linarith
  then have "unat (a + b) = unat a + unat b - 2 ^ LENGTH('w)"
    using ge by (simp add: unat_word_ariths le_mod_geq)
  with True ge show ?thesis by simp
next
  case False
  then show ?thesis by (simp add: unat_add_exact word_add_overflow_iff)
qed

lemma unat_mult_exact: "unat a * unat b < 2 ^ LENGTH('w::len) \<Longrightarrow> unat (a * b :: 'w word) = unat a * unat b"
  by (simp add: unat_word_ariths)

lemma len_u64: "LENGTH(64) = 64" by simp

lemma unat_of_nat_u64: "n < 2 ^ 64 \<Longrightarrow> unat (of_nat n :: u64) = n"
  by (simp add: unat_of_nat)

lemma unat_u32_u64: "unat (ucast (x :: u32) :: u64) = unat x"
  using unsigned_less [of x, where ?'a = nat] by (simp add: unat_ucast_mod)

lemma unat_of_nat_u32: "n < 2 ^ 32 \<Longrightarrow> unat (of_nat n :: u32) = n"
  by (simp add: unat_of_nat)

lemma unat_push_bit_mod: "unat (push_bit n (w :: 'w::len word)) = unat w * 2 ^ n mod 2 ^ LENGTH('w)"
proof -
  have "push_bit n w = of_nat (unat w * 2 ^ n)" by (simp add: push_bit_eq_mult)
  then show ?thesis by (simp only: unat_of_nat)
qed

section \<open>Little-endian images of machine words\<close>

text \<open>The memory image of an integer on the little-endian hosts the program runs on.\<close>

fun le_bytes :: "nat \<Rightarrow> 'w::len word \<Rightarrow> bytes" where
  "le_bytes 0 v = []"
| "le_bytes (Suc n) v = ucast v # le_bytes n (drop_bit 8 v)"

fun le_value :: "bytes \<Rightarrow> 'w::len word" where
  "le_value [] = 0"
| "le_value (b # bs) = ucast b OR push_bit 8 (le_value bs)"

lemma length_le_bytes [simp]: "length (le_bytes n v) = n"
  by (induction n arbitrary: v) simp_all

lemma le_value_le_bytes: "le_value (le_bytes n v) = take_bit (8 * n) (v :: 'w::len word)"
proof (induction n arbitrary: v)
  case (Suc n)
  show ?case
  proof (rule bit_eqI)
    fix i assume "possible_bit TYPE('w word) i"
    then have i: "i < LENGTH('w)" by simp
    show "bit (le_value (le_bytes (Suc n) v) :: 'w word) i = bit (take_bit (8 * Suc n) v) i"
    proof (cases "i < 8")
      case False
      then have "8 + (i - 8) = i" by simp
      then show ?thesis using False i
        by (auto simp: Suc.IH bit_or_iff bit_push_bit_iff bit_take_bit_iff bit_drop_bit_eq bit_unsigned_iff)
    qed (use i in \<open>auto simp: bit_or_iff bit_push_bit_iff bit_take_bit_iff bit_unsigned_iff\<close>)
  qed
qed simp

lemma le_value_le_bytes_full [simp]:
  "LENGTH('w::len) \<le> 8 * n \<Longrightarrow> le_value (le_bytes n v) = (v :: 'w word)"
  by (simp add: le_value_le_bytes take_bit_word_eq_self)

lemma bit_le_value_bound: "bit (le_value bs :: 'w::len word) i \<Longrightarrow> i < 8 * length bs"
proof (induction bs arbitrary: i)
  case (Cons b bs)
  then have "i < 8 \<or> 8 \<le> i \<and> bit (le_value bs :: 'w word) (i - 8)"
    by (auto simp: bit_or_iff bit_push_bit_iff bit_unsigned_iff dest: bit_imp_le_length)
  with Cons.IH [of "i - 8"] show ?case by auto
qed simp

lemma le_bytes_le_value [simp]:
  "8 * length bs \<le> LENGTH('w::len) \<Longrightarrow> le_bytes (length bs) (le_value bs :: 'w word) = bs"
proof (induction bs)
  case (Cons b bs)
  let ?x = "le_value bs :: 'w word"
  have "(ucast (le_value (b # bs) :: 'w word) :: byte) = b"
    by (rule bit_eqI)
      (use Cons.prems in \<open>auto simp: bit_or_iff bit_push_bit_iff bit_unsigned_iff dest: bit_imp_le_length\<close>)
  moreover have "drop_bit 8 (le_value (b # bs) :: 'w word) = ?x"
    by (rule bit_eqI)
      (use Cons.prems in \<open>auto simp: bit_or_iff bit_push_bit_iff bit_unsigned_iff bit_drop_bit_eq
         dest: bit_imp_le_length bit_le_value_bound\<close>)
  ultimately show ?case using Cons by simp
qed simp

lemma le_bytes_inject [le_simps]:
  "LENGTH('w::len) \<le> 8 * n \<Longrightarrow> le_bytes n v = le_bytes n w \<longleftrightarrow> v = (w :: 'w word)"
  using le_value_le_bytes_full by metis

end
