(* ===== verification/Streams.thy ===== *)
theory Streams
  imports Prelude
begin

text \<open>
  The byte streams of src/src/Common: \<open>MemoryInputStream::readSome\<close> and the \<open>read\<close> loop of
  StreamTools.cpp, the canonical variable-length integers (\<open>readVarint\<close>, \<open>writeVarint\<close>), and the
  iterator-based varints of Varint.h.  The main results are that the StreamTools codec is a
  bijection between the integers of a width and their canonical encodings, and that the
  iterator-based reader agrees with it wherever it accepts.
\<close>

section \<open>Reading from a memory stream\<close>

definition readSome :: "bytes \<Rightarrow> nat \<Rightarrow> bytes \<times> bytes" where
  "readSome s sz = (take sz s, drop sz s)"

function read_loop :: "bytes \<Rightarrow> bytes \<Rightarrow> nat \<Rightarrow> (bytes \<times> bytes) res" where
  "read_loop s data sz =
     (if 0 < sz then
        let (got, s') = readSome s sz in
        if length got = 0 then Inl ''Failed to read from IInputStream''
        else read_loop s' (data @ got) (sz - length got)
      else Inr (data, s))"
  by pat_completeness auto
termination
  by (relation "measure (\<lambda>(s, data, sz). sz)") auto

declare read_loop.simps [simp del]

definition read_bytes :: "nat \<Rightarrow> bytes reader" where
  "read_bytes sz s = read_loop s [] sz"

definition read_u8 :: "byte reader" where
  "read_u8 = rbind (read_bytes 1) (\<lambda>d. rret (hd d))"

lemma read_loop_eq:
  "read_loop s data sz =
     (if sz \<le> length s then Inr (data @ take sz s, drop sz s)
      else Inl ''Failed to read from IInputStream'')"
proof (induction s data sz rule: read_loop.induct)
  case (1 s data sz)
  show ?case
  proof (cases "0 < sz \<and> s \<noteq> []")
    case True
    let ?got = "take sz s"
    have "read_loop s data sz = read_loop (drop sz s) (data @ ?got) (sz - length ?got)"
      using True by (subst read_loop.simps) (simp add: readSome_def)
    also have "\<dots> = (if sz - length ?got \<le> length (drop sz s)
        then Inr ((data @ ?got) @ take (sz - length ?got) (drop sz s),
                  drop (sz - length ?got) (drop sz s))
        else Inl ''Failed to read from IInputStream'')"
      using True by (intro "1.IH" [OF _ _ refl]) (auto simp: readSome_def)
    finally show ?thesis using True by (auto simp: min_def not_le)
  next
    case False
    then show ?thesis by (subst read_loop.simps) (auto simp: readSome_def)
  qed
qed

lemma read_bytes_eq [reader_simps]:
  "read_bytes n s = (if n \<le> length s then Inr (take n s, drop n s)
                     else Inl ''Failed to read from IInputStream'')"
  by (simp add: read_bytes_def read_loop_eq)

lemma read_bytes_append [simp]: "length bs = n \<Longrightarrow> read_bytes n (bs @ rest) = Inr (bs, rest)"
  by (simp add: read_bytes_eq)

lemma read_bytes_Inr_iff:
  "read_bytes n s = Inr (d, s') \<longleftrightarrow> length d = n \<and> s = d @ s'"
  by (auto simp: read_bytes_eq split: if_splits)

lemma read_u8_eq [reader_simps]:
  "read_u8 s = (case s of [] \<Rightarrow> Inl ''Failed to read from IInputStream'' | b # s' \<Rightarrow> Inr (b, s'))"
  by (cases s) (simp_all add: read_u8_def rbind_def read_bytes_eq)

section \<open>Canonical varints\<close>

function writeVarint :: "u64 \<Rightarrow> bytes" where
  "writeVarint v =
     (if 0x80 \<le> v then ucast (v OR 0x80) # writeVarint (drop_bit 7 v) else [ucast v])"
  by pat_completeness auto
termination
proof (relation "measure unat")
  fix v :: u64
  assume "0x80 \<le> v"
  then have "128 \<le> unat v" by (simp add: word_le_nat_alt)
  then show "(drop_bit 7 v, v) \<in> measure unat"
    by (simp add: unat_drop_bit_div)
qed simp

declare writeVarint.simps [simp del]

fun readVarint_loop :: "nat \<Rightarrow> 'w::len word \<Rightarrow> 'w word reader" where
  "readVarint_loop shift temp [] = Inl ''Failed to read from IInputStream''"
| "readVarint_loop shift temp (piece # s) =
     (if LENGTH('w) - 7 \<le> shift \<and> 2 ^ (LENGTH('w) - shift) \<le> unat piece
      then Inl ''readVarint, value overflow''
      else let temp' = temp OR push_bit shift (ucast (piece AND 0x7f)) in
        if piece AND 0x80 = 0 then
          if piece = 0 \<and> shift \<noteq> 0 then Inl ''readVarint, invalid value representation''
          else Inr (temp', s)
        else readVarint_loop (shift + 7) temp' s)"

definition readVarint :: "'w::len word reader" where
  "readVarint s = readVarint_loop 0 0 s"

declare readVarint_loop.simps(2) [simp del]

text \<open>The canonical encoding as a function of the number, independent of its width.\<close>

fun vint :: "nat \<Rightarrow> bytes" where
  "vint n = (if 128 \<le> n then of_nat (n mod 128 + 128) # vint (n div 128) else [of_nat n])"

declare vint.simps [simp del]

lemma ucast_or_high_bit: "(ucast ((v :: u64) OR 0x80) :: byte) = of_nat (unat v mod 128 + 128)"
proof -
  have "ucast (v OR 0x80) = (ucast v :: byte) OR 0x80"
    by (rule bit_word_eqI) (auto simp: bit_simps)
  also have "\<dots> = (ucast v AND 0x7f) OR push_bit 7 (of_nat 1)"
    by (rule bit_word_eqI) (auto simp: bit_simps less_Suc_eq numeral_eq_Suc)
  finally have eq: "ucast (v OR 0x80) = ((ucast v AND 0x7f) :: byte) OR push_bit 7 (of_nat 1)" .
  have m: "unat ((ucast v :: byte) AND 0x7f) = unat v mod 128"
    by (simp add: unat_and_mask7 unat_ucast_mod mod_mod_cancel)
  then have lt: "unat ((ucast v :: byte) AND 0x7f) < 2 ^ 7" by simp
  have "unat (((ucast v AND 0x7f) :: byte) OR push_bit 7 (of_nat 1)) = unat v mod 128 + 1 * 2 ^ 7"
    using unat_or_push_bit [OF lt, of 1] lt m by simp
  then have "unat (ucast (v OR 0x80) :: byte) = unat v mod 128 + 128"
    by (simp add: eq)
  then show ?thesis by (metis of_nat_unat ucast_id)
qed

lemma writeVarint_vint: "writeVarint v = vint (unat v)"
proof (induction v rule: writeVarint.induct)
  case (1 v)
  show ?case
  proof (cases "0x80 \<le> v")
    case True
    then have "128 \<le> unat v" by (simp add: word_le_nat_alt)
    moreover have "unat (drop_bit 7 v) = unat v div 128"
      by (simp add: unat_drop_bit_div)
    ultimately show ?thesis
      using "1.IH" [OF True] True
      by (simp add: writeVarint.simps [of v] vint.simps [of "unat v"] ucast_or_high_bit)
  next
    case False
    then have "\<not> 128 \<le> unat v" by (simp add: word_le_nat_alt)
    then show ?thesis
      using False by (simp add: writeVarint.simps [of v] vint.simps [of "unat v"])
  qed
qed

lemma vint_small: "n < 128 \<Longrightarrow> vint n = [of_nat n]"
  by (simp add: vint.simps [of n])

lemma vint_big: "128 \<le> n \<Longrightarrow> vint n = of_nat (n mod 128 + 128) # vint (n div 128)"
  by (simp add: vint.simps [of n])

lemma vint_nonempty [simp]: "vint n \<noteq> []"
  by (subst vint.simps) simp

lemma ucast_low7: "ucast ((b :: byte) AND 0x7f) = (of_nat (unat b mod 128) :: 'w::len word)"
  by (metis of_nat_unat unat_and_mask7)

lemma readVarint_loop_last:
  fixes temp :: "'w::len word"
  assumes "unat piece < 128" and "piece = 0 \<longrightarrow> shift = 0"
    and "\<not> (LENGTH('w) - 7 \<le> shift \<and> 2 ^ (LENGTH('w) - shift) \<le> unat piece)"
  shows "readVarint_loop shift temp (piece # s) = Inr (temp OR push_bit shift (of_nat (unat piece)), s)"
proof -
  have "piece AND 0x80 = 0" using assms(1) by (simp only: and_high_bit_zero_iff)
  moreover have "ucast (piece AND 0x7f) = (of_nat (unat piece) :: 'w word)"
    using assms(1) by (simp only: ucast_low7) simp
  ultimately show ?thesis
    using assms(2,3) by (simp only: readVarint_loop.simps Let_def if_False simp_thms if_True) auto
qed

lemma readVarint_loop_more:
  fixes temp :: "'w::len word"
  assumes "128 \<le> unat piece"
    and "\<not> (LENGTH('w) - 7 \<le> shift \<and> 2 ^ (LENGTH('w) - shift) \<le> unat piece)"
  shows "readVarint_loop shift temp (piece # s)
         = readVarint_loop (shift + 7) (temp OR push_bit shift (of_nat (unat piece mod 128))) s"
proof -
  have "piece AND 0x80 \<noteq> 0" using assms(1) by (simp only: and_high_bit_zero_iff not_less)
  then show ?thesis
    using assms(2) by (simp only: readVarint_loop.simps Let_def if_False simp_thms ucast_low7)
qed

lemma readVarint_loop_vint:
  fixes temp :: "'w::len word"
  assumes "unat temp < 2 ^ shift" and "unat temp + n * 2 ^ shift < 2 ^ LENGTH('w)"
    and "shift \<noteq> 0 \<longrightarrow> n \<noteq> 0" and "shift < LENGTH('w)"
  shows "readVarint_loop shift temp (vint n @ rest) = Inr (of_nat (unat temp + n * 2 ^ shift), rest)"
  using assms
proof (induction n arbitrary: shift temp rule: vint.induct)
  case (1 n)
  have split_pow: "(2 :: nat) ^ LENGTH('w) = 2 ^ (LENGTH('w) - shift) * 2 ^ shift"
    using "1.prems"(4) by (simp flip: power_add)
  have "n * 2 ^ shift < 2 ^ LENGTH('w)" using "1.prems"(2) by linarith
  then have nlt: "n < 2 ^ (LENGTH('w) - shift)" by (simp only: split_pow) simp
  show ?case
  proof (cases "128 \<le> n")
    case True
    then have "(2 :: nat) ^ 7 < 2 ^ (LENGTH('w) - shift)" using nlt by simp
    then have "7 < LENGTH('w) - shift" by (rule power_less_imp_less_exp [rotated]) simp
    then have sh: "shift + 7 < LENGTH('w)" by simp
    let ?t = "temp OR push_bit shift (of_nat (n mod 128))"
    have le: "n mod 128 * 2 ^ shift \<le> n * 2 ^ shift" by simp
    have ut: "unat ?t = unat temp + n mod 128 * 2 ^ shift"
      using "1.prems"(1,2) le by (intro unat_or_push_bit) linarith+
    have "n mod 128 * 2 ^ shift + 2 ^ shift \<le> 128 * 2 ^ shift"
      by (metis Suc_leI add.commute mod_less_divisor mult_Suc mult_le_mono1 zero_less_numeral)
    moreover have p7: "(2 :: nat) ^ (shift + 7) = 128 * 2 ^ shift" by (simp add: power_add)
    ultimately have ut_lt: "unat ?t < 2 ^ (shift + 7)"
      using "1.prems"(1) unfolding ut by linarith
    have "n * 2 ^ shift = (n div 128 * 128 + n mod 128) * 2 ^ shift" by simp
    then have tot: "unat ?t + n div 128 * 2 ^ (shift + 7) = unat temp + n * 2 ^ shift"
      unfolding ut p7 distrib_right mult.assoc by linarith
    have dz: "n div 128 \<noteq> 0" using True by (simp add: div_eq_0_iff)
    have "readVarint_loop (shift + 7) ?t (vint (n div 128) @ rest)
          = Inr (of_nat (unat ?t + n div 128 * 2 ^ (shift + 7)), rest)"
      by (rule "1.IH" [OF True ut_lt _ _ sh]) (simp_all only: tot "1.prems"(2) dz simp_thms)
    moreover have "unat (of_nat (n mod 128 + 128) :: byte) = n mod 128 + 128"
      by (rule unat_of_nat_byte) (simp add: less_Suc_eq_le)
    ultimately show ?thesis
      using sh tot unfolding vint_big [OF True] append_Cons
      by (subst readVarint_loop_more) (simp_all del: of_nat_add)
  next
    case False
    then have n: "n < 128" by simp
    then have un: "unat (of_nat n :: byte) = n" by (intro unat_of_nat_byte) simp
    have "unat (temp OR push_bit shift (of_nat n)) = unat temp + n * 2 ^ shift"
      using "1.prems"(1,2) by (rule unat_or_push_bit)
    then have t: "temp OR push_bit shift (of_nat n) = of_nat (unat temp + n * 2 ^ shift)"
      by (metis of_nat_unat ucast_id)
    have "(of_nat n :: byte) = 0 \<longrightarrow> shift = 0"
      using un "1.prems"(3) by (metis unat_0)
    then have "readVarint_loop shift temp (of_nat n # rest)
               = Inr (temp OR push_bit shift (of_nat (unat (of_nat n :: byte))), rest)"
      using n nlt un by (intro readVarint_loop_last) simp_all
    then show ?thesis
      unfolding un t vint_small [OF n] by simp
  qed
qed

theorem readVarint_writeVarint:
  assumes "unat v < 2 ^ LENGTH('w::len)"
  shows "readVarint (writeVarint v @ rest) = Inr (ucast v :: 'w word, rest)"
  using assms readVarint_loop_vint [of "0 :: 'w word" 0 "unat v" rest]
  by (simp add: readVarint_def writeVarint_vint)

lemma readVarint_loop_canonical:
  fixes temp :: "'w::len word"
  assumes "readVarint_loop shift temp bs = Inr (v, rest)"
    and "unat temp < 2 ^ shift" and "shift < LENGTH('w)" and "7 < LENGTH('w)"
  shows "\<exists>n. bs = vint n @ rest \<and> unat v = unat temp + n * 2 ^ shift \<and> (shift \<noteq> 0 \<longrightarrow> n \<noteq> 0)"
  using assms
proof (induction shift temp bs rule: readVarint_loop.induct)
  case (2 shift temp piece s)
  let ?m = "unat piece mod 128"
  let ?t = "temp OR push_bit shift (of_nat ?m)"
  have uc: "ucast (piece AND 0x7f) = (of_nat ?m :: 'w word)" by (rule ucast_low7)
  have ok: "\<not> (LENGTH('w) - 7 \<le> shift \<and> 2 ^ (LENGTH('w) - shift) \<le> unat piece)"
    using "2.prems"(1) by (auto simp: readVarint_loop.simps(2) split: if_splits)
  have pow: "(2 :: nat) ^ LENGTH('w) = 2 ^ (LENGTH('w) - shift) * 2 ^ shift"
    using "2.prems"(3) by (simp flip: power_add)
  have mlt: "?m < 2 ^ (LENGTH('w) - shift)"
  proof (cases "LENGTH('w) - 7 \<le> shift")
    case True
    then show ?thesis using ok by (meson le_less_trans mod_less_eq_dividend not_le)
  next
    case False
    then have "(2 :: nat) ^ 7 \<le> 2 ^ (LENGTH('w) - shift)" by (intro power_increasing) auto
    then show ?thesis by (rule less_le_trans [rotated]) simp
  qed
  then have "Suc ?m * 2 ^ shift \<le> 2 ^ LENGTH('w)" unfolding pow by (intro mult_le_mono1) simp
  then have fits: "unat temp + ?m * 2 ^ shift < 2 ^ LENGTH('w)"
    using "2.prems"(2) by simp
  have ut: "unat ?t = unat temp + ?m * 2 ^ shift"
    using "2.prems"(2) fits by (rule unat_or_push_bit)
  show ?case
  proof (cases "piece AND 0x80 = 0")
    case True
    then have small: "unat piece < 128" by (simp only: and_high_bit_zero_iff)
    have res: "v = ?t" "rest = s" "piece = 0 \<longrightarrow> shift = 0"
      using "2.prems"(1) ok True by (auto simp: readVarint_loop.simps(2) uc Let_def split: if_splits)
    have "piece # s = vint (unat piece) @ s" using small by (simp add: vint_small)
    moreover have "unat piece \<noteq> 0" if "shift \<noteq> 0" using res(3) that by (simp add: unat_eq_zero)
    ultimately show ?thesis using res ut small by (intro exI [of _ "unat piece"]) simp
  next
    case False
    then have big: "128 \<le> unat piece" by (simp only: and_high_bit_zero_iff not_less)
    have sh: "shift + 7 < LENGTH('w)"
    proof (rule ccontr)
      assume "\<not> shift + 7 < LENGTH('w)"
      then have "LENGTH('w) - 7 \<le> shift" and "LENGTH('w) - shift \<le> 7" by simp_all
      then have "unat piece < 2 ^ 7"
        using ok by (meson less_le_trans not_le one_le_numeral power_increasing)
      then show False using big by simp
    qed
    have rec: "readVarint_loop (shift + 7) ?t s = Inr (v, rest)"
      using "2.prems"(1) ok False by (simp add: readVarint_loop.simps(2) uc Let_def)
    have "Suc ?m * 2 ^ shift \<le> 128 * 2 ^ shift" by (intro mult_le_mono1) (simp add: Suc_le_eq)
    moreover have p7: "(2 :: nat) ^ (shift + 7) = 128 * 2 ^ shift" by (simp add: power_add)
    ultimately have "unat ?t < 2 ^ (shift + 7)"
      using "2.prems"(2) unfolding ut mult_Suc by linarith
    then obtain n where n: "s = vint n @ rest" "unat v = unat ?t + n * 2 ^ (shift + 7)" "n \<noteq> 0"
      using "2.IH" [OF ok refl False] rec sh "2.prems"(4) unfolding uc by auto
    let ?n = "n * 128 + ?m"
    have "unat piece - 128 < 128" using unat_byte_bound [of piece] by linarith
    then have pm: "unat piece = ?m + 128" using big by (simp add: le_mod_geq)
    have "of_nat (?m + 128) = piece" unfolding pm [symmetric] by simp
    then have "vint ?n = piece # vint n"
      using n(3) by (subst vint_big) (simp_all del: of_nat_add)
    moreover have "unat v = unat temp + ?n * 2 ^ shift"
      unfolding n(2) ut p7 by (simp add: algebra_simps)
    ultimately show ?thesis using n by (intro exI [of _ ?n]) simp
  qed
qed simp

lemma vint_length: "n < 2 ^ (7 * k) \<Longrightarrow> 0 < k \<Longrightarrow> length (vint n) \<le> k"
proof (induction k arbitrary: n)
  case (Suc k)
  show ?case
  proof (cases "n < 128")
    case False
    then have "k \<noteq> 0" using Suc.prems(1) by (intro notI) simp
    moreover have "n div 128 < 2 ^ (7 * k)"
      using Suc.prems(1) by (simp add: less_mult_imp_div_less power_add mult.commute)
    ultimately show ?thesis using Suc.IH [of "n div 128"] False by (simp add: vint_big)
  qed (simp add: vint_small)
qed simp

lemma writeVarint_length: "length (writeVarint v) \<le> 10"
proof -
  have "unat v < 2 ^ 64" using unsigned_less [of v, where ?'a = nat] by simp
  also have "(2 :: nat) ^ 64 \<le> 2 ^ (7 * 10)" by simp
  finally show ?thesis unfolding writeVarint_vint by (rule vint_length) simp
qed

section \<open>The iterator varints of Varint.h\<close>

function write_varint :: "u64 \<Rightarrow> bytes" where
  "write_varint i =
     (if 0x80 \<le> i then ((ucast i AND 0x7f) OR 0x80) # write_varint (drop_bit 7 i) else [ucast i])"
  by pat_completeness auto
termination
proof (relation "measure unat")
  fix v :: u64
  assume "0x80 \<le> v"
  then have "128 \<le> unat v" by (simp add: word_le_nat_alt)
  then show "(drop_bit 7 v, v) \<in> measure unat" by (simp add: unat_drop_bit_div)
qed simp

declare write_varint.simps [simp del]

definition get_varint_data :: "u64 \<Rightarrow> bytes" where
  "get_varint_data v = write_varint v"

text \<open>
  The result is the return code (the number of bytes read, or a negative error), the value
  assembled so far and the rest of the input.  At the end of the input the code returns the
  count, even in the middle of a varint.
\<close>

fun read_varint_loop :: "nat \<Rightarrow> nat \<Rightarrow> int \<Rightarrow> u64 \<Rightarrow> bytes \<Rightarrow> int \<times> u64 \<times> bytes" where
  "read_varint_loop bits shift read i [] = (read, i, [])"
| "read_varint_loop bits shift read i (b # s) =
     (if bits \<le> shift + 7 \<and> 2 ^ (bits - shift) \<le> unat b then (- 1, i, s)
      else if b = 0 \<and> shift \<noteq> 0 then (- 2, i, s)
      else let i' = i OR push_bit shift (ucast (b AND 0x7f)) in
        if b AND 0x80 = 0 then (read + 1, i', s)
        else read_varint_loop bits (shift + 7) (read + 1) i' s)"

definition read_varint :: "bytes \<Rightarrow> int \<times> u64 \<times> bytes" where
  "read_varint s = read_varint_loop 64 0 0 0 s"

lemma write_varint_eq: "write_varint v = writeVarint v"
proof (induction v rule: write_varint.induct)
  case (1 v)
  have "(ucast v AND 0x7f) OR 0x80 = (ucast (v OR 0x80) :: byte)"
    by (rule bit_word_eqI) (auto simp: bit_simps less_Suc_eq numeral_eq_Suc)
  with 1 show ?case by (simp add: write_varint.simps [of v] writeVarint.simps [of v])
qed

text \<open>Where the stream reader accepts, the iterator reader agrees and counts the bytes.\<close>

lemma read_varint_loop_agrees:
  "readVarint_loop shift i s = Inr (v, rest) \<Longrightarrow>
   read_varint_loop 64 shift n i s = (n + int (length s) - int (length rest), v, rest)"
proof (induction shift i s arbitrary: n rule: readVarint_loop.induct)
  case (2 shift i b s)
  have "64 \<le> shift + 7 \<longleftrightarrow> 64 - 7 \<le> shift" by linarith
  moreover have "b AND 0x80 \<noteq> 0 \<Longrightarrow> b \<noteq> 0" by auto
  ultimately show ?case
    using "2.prems" "2.IH"
    by (auto simp: readVarint_loop.simps(2) Let_def split: if_splits)
qed simp

lemma read_varint_data:
  "read_varint (get_varint_data v @ rest) = (int (length (get_varint_data v)), v, rest)"
proof -
  have "readVarint_loop 0 0 (get_varint_data v @ rest) = Inr (v, rest)"
    using readVarint_writeVarint [of v rest, where ?'w = 64] unsigned_less [of v, where ?'a = nat]
    by (simp add: get_varint_data_def write_varint_eq readVarint_def)
  from read_varint_loop_agrees [OF this, of 0] show ?thesis by (simp add: read_varint_def)
qed

end
