(* ===== verification/Codec.thy ===== *)
theory Codec
  imports Streams
begin

text \<open>
  The binary serializers of src/src/Serialization (BinaryOutputStreamSerializer,
  BinaryInputStreamSerializer, SerializationOverloads) and the contract their clients rely on.
  The contract is the locale \<open>codec\<close>: on the values a component calls well-formed the writer
  never throws, reading back what was written returns the value and leaves the rest of the
  stream, and whatever the reader accepts is well-formed and is exactly the encoding of the
  value it returns.  The second half is what makes identifiers computed from serialized
  objects non-malleable.
\<close>

section \<open>The contract\<close>

locale codec =
  fixes enc :: "'a \<Rightarrow> writer" and dec :: "'a reader" and ok :: "'a \<Rightarrow> bool"
  assumes enc_ok: "ok x \<Longrightarrow> snd (enc x) = None"
    and dec_enc: "ok x \<Longrightarrow> dec (fst (enc x) @ rest) = Inr (x, rest)"
    and dec_ok: "dec s = Inr (x, rest) \<Longrightarrow> ok x"
    and dec_canonical: "dec s = Inr (x, rest) \<Longrightarrow> s = fst (enc x) @ rest"
begin

lemma enc_pair: "ok x \<Longrightarrow> enc x = (fst (enc x), None)"
  using enc_ok [of x] by (cases "enc x") simp

lemma rbind_enc: "ok x \<Longrightarrow> rbind dec f (fst (enc x) @ rest) = f x rest"
  by (simp add: dec_enc)

text \<open>No encoding of a well-formed value is a proper prefix of another one's.\<close>

lemma prefix_free:
  assumes "ok x" and "ok y" and "fst (enc x) @ r = fst (enc y) @ r'"
  shows "x = y \<and> r = r'"
proof -
  have "Inr (x, r) = dec (fst (enc y) @ r')"
    using dec_enc [OF assms(1), of r] unfolding assms(3) by (rule sym)
  also have "\<dots> = Inr (y, r')" by (rule dec_enc [OF assms(2)])
  finally show ?thesis by simp
qed

lemma enc_inject: "ok x \<Longrightarrow> ok y \<Longrightarrow> enc x = enc y \<Longrightarrow> x = y"
  using prefix_free [of x y "[]" "[]"] by simp

lemma dec_iff: "dec s = Inr (x, rest) \<longleftrightarrow> ok x \<and> s = fst (enc x) @ rest"
  using dec_ok dec_canonical dec_enc by blast

lemmas codec_facts = enc_ok rbind_enc dec_iff

end

lemma wthen_seq [simp]:
  assumes "snd a = None"
  shows "fst (wthen a b) = fst a @ fst b" and "snd (wthen a b) = snd b"
  using assms by (cases a; simp add: wthen_def)+

lemma wout_parts [simp]: "fst (wout bs) = bs" "snd (wout bs) = None"
  by (simp_all add: wout_def)

section \<open>Scalars\<close>

text \<open>\<open>serializer(value)\<close> for the unsigned types: a varint on both sides.\<close>

definition put_uint :: "'w::len word \<Rightarrow> writer" where
  "put_uint v = wout (writeVarint (ucast v))"

definition get_uint :: "'w::len word reader" where
  "get_uint = readVarint"

lemma codec_uint:
  assumes "7 < LENGTH('w::len)" and "LENGTH('w) \<le> 64"
  shows "codec (put_uint :: 'w word \<Rightarrow> writer) get_uint (\<lambda>_. True)"
proof
  have up: "unat (ucast v :: u64) = unat v" for v :: "'w word"
  proof -
    have "unat v < 2 ^ LENGTH('w)" by (rule unsigned_less)
    also have "(2 :: nat) ^ LENGTH('w) \<le> 2 ^ 64" using assms(2) by (intro power_increasing) auto
    finally show ?thesis by (simp add: unat_ucast_mod)
  qed
  show "snd (put_uint v) = None" for v :: "'w word" by (simp add: put_uint_def)
  show "get_uint (fst (put_uint v) @ rest) = Inr (v, rest)" for v :: "'w word" and rest
  proof -
    have "unat (ucast v :: u64) < 2 ^ LENGTH('w)" unfolding up by (rule unsigned_less)
    then have "readVarint (writeVarint (ucast v) @ rest) = Inr (ucast (ucast v :: u64) :: 'w word, rest)"
      by (rule readVarint_writeVarint)
    moreover have "ucast (ucast v :: u64) = v" by (metis up of_nat_unat ucast_id)
    ultimately show ?thesis by (simp add: put_uint_def get_uint_def)
  qed
  show "s = fst (put_uint v) @ rest" if "get_uint s = Inr (v, rest)" for s rest and v :: "'w word"
  proof -
    have "readVarint_loop 0 (0 :: 'w word) s = Inr (v, rest)"
      using that by (simp add: get_uint_def readVarint_def)
    then obtain n where "s = vint n @ rest" "unat v = n"
      using readVarint_loop_canonical [of 0 "0 :: 'w word" s v rest] assms(1) by auto
    then show ?thesis by (simp add: put_uint_def writeVarint_vint up)
  qed
qed simp

interpretation uint8: codec "put_uint :: byte \<Rightarrow> writer" get_uint "\<lambda>_. True"
  by (rule codec_uint) simp_all

interpretation uint16: codec "put_uint :: u16 \<Rightarrow> writer" get_uint "\<lambda>_. True"
  by (rule codec_uint) simp_all

interpretation uint32: codec "put_uint :: u32 \<Rightarrow> writer" get_uint "\<lambda>_. True"
  by (rule codec_uint) simp_all

interpretation uint64: codec "put_uint :: u64 \<Rightarrow> writer" get_uint "\<lambda>_. True"
  by (rule codec_uint) simp_all

lemma rbind_get_u64 [simp]: "rbind get_uint f (writeVarint v @ rest) = f (v :: u64) rest"
  using uint64.rbind_enc [where x = v and f = f and rest = rest] by (simp add: put_uint_def)

text \<open>A raw block of known size: \<open>serializer.binary(ptr, size)\<close>.\<close>

definition put_binary :: "bytes \<Rightarrow> writer" where
  "put_binary bs = wout bs"

definition get_binary :: "nat \<Rightarrow> bytes reader" where
  "get_binary n = read_bytes n"

lemma codec_binary: "codec put_binary (get_binary n) (\<lambda>bs. length bs = n)"
  by unfold_locales (auto simp: put_binary_def get_binary_def read_bytes_Inr_iff)

lemma get_byte_iff: "get_binary (Suc 0) s = Inr (t, s') \<longleftrightarrow> (\<exists>b. t = [b] \<and> s = b # s')"
  by (auto simp: get_binary_def read_bytes_Inr_iff length_Suc_conv)

lemma rbind_get_byte [simp]: "rbind (get_binary (Suc 0)) f (b # s) = f [b] s"
  using get_byte_iff [of "b # s" "[b]" s] by simp

text \<open>A \<open>std::string\<close>: its size as a varint, at most 100 MiB when reading, then its bytes.\<close>

definition MAX_STRING_SIZE :: nat where
  "MAX_STRING_SIZE = 100 * 1024 * 1024"

definition put_string :: "bytes \<Rightarrow> writer" where
  "put_string v = wthen (wout (writeVarint (of_nat (length v)))) (wout v)"

definition get_string :: "bytes reader" where
  "get_string = rbind get_uint (\<lambda>sz :: u64.
     if MAX_STRING_SIZE < unat sz then rfail ''string size is too big''
     else if 0 < unat sz then get_binary (unat sz) else rret [])"

interpretation blob: codec put_string get_string "\<lambda>bs. length bs \<le> MAX_STRING_SIZE"
proof
  fix x :: bytes and rest s
  show "snd (put_string x) = None" by (simp add: put_string_def)
  show "get_string (fst (put_string x) @ rest) = Inr (x, rest)" if "length x \<le> MAX_STRING_SIZE"
  proof -
    have u: "unat (of_nat (length x) :: u64) = length x"
      using that by (simp add: unat_of_nat MAX_STRING_SIZE_def)
    have "get_string (fst (put_string x) @ rest)
          = (if MAX_STRING_SIZE < length x then rfail ''string size is too big''
             else if 0 < length x then get_binary (length x) else rret []) (x @ rest)"
      by (simp add: get_string_def put_string_def u)
    then show ?thesis using that by (auto simp: get_binary_def)
  qed
  assume "get_string s = Inr (x, rest)"
  then obtain sz :: u64 and s' where sz: "s = fst (put_uint sz) @ s'" "unat sz \<le> MAX_STRING_SIZE"
    and rd: "(if 0 < unat sz then get_binary (unat sz) else rret []) s' = Inr (x, rest)"
    by (auto simp: get_string_def rbind_eq_Inr uint64.dec_iff split: if_splits)
  then have "length x = unat sz" "s' = x @ rest"
    by (auto simp: get_binary_def read_bytes_Inr_iff split: if_splits)
  then show "length x \<le> MAX_STRING_SIZE" "s = fst (put_string x) @ rest"
    using sz by (simp_all add: put_string_def put_uint_def)
qed

section \<open>Containers\<close>

text \<open>
  \<open>serializeContainer\<close>: the element count as a varint, then the elements.  When reading, the
  elements are decoded one after the other, so a count the input cannot back fails on the
  first missing element.
\<close>

fun get_elements :: "nat \<Rightarrow> 'a reader \<Rightarrow> 'a list reader" where
  "get_elements 0 d = rret []"
| "get_elements (Suc n) d = rbind d (\<lambda>x. rbind (get_elements n d) (\<lambda>xs. rret (x # xs)))"

definition put_container :: "('a \<Rightarrow> writer) \<Rightarrow> 'a list \<Rightarrow> writer" where
  "put_container e xs = wthen (wout (writeVarint (of_nat (length xs)))) (wconcat (map e xs))"

definition get_container :: "'a reader \<Rightarrow> 'a list reader" where
  "get_container d = rbind get_uint (\<lambda>sz :: u64. get_elements (unat sz) d)"

definition container_ok :: "('a \<Rightarrow> bool) \<Rightarrow> 'a list \<Rightarrow> bool" where
  "container_ok P xs \<longleftrightarrow> list_all P xs \<and> length xs < 2 ^ 64"

context codec
begin

lemma wconcat_enc:
  "list_all ok xs \<Longrightarrow> snd (wconcat (map enc xs)) = None"
  "list_all ok xs \<Longrightarrow> fst (wconcat (map enc xs)) = concat (map (\<lambda>x. fst (enc x)) xs)"
  by (induction xs) (simp_all add: enc_ok)

lemma get_elements_enc:
  "list_all ok xs \<Longrightarrow>
   get_elements (length xs) dec (concat (map (\<lambda>x. fst (enc x)) xs) @ rest) = Inr (xs, rest)"
  by (induction xs) (simp_all add: rbind_enc)

lemma get_elements_canonical:
  "get_elements n dec s = Inr (xs, rest) \<Longrightarrow>
   list_all ok xs \<and> length xs = n \<and> s = concat (map (\<lambda>x. fst (enc x)) xs) @ rest"
proof (induction n arbitrary: s xs)
  case (Suc n)
  then obtain x s' ys where "dec s = Inr (x, s')" "get_elements n dec s' = Inr (ys, rest)" "xs = x # ys"
    by (auto simp: rbind_eq_Inr)
  with Suc.IH show ?case by (fastforce simp: dec_iff)
qed simp

lemma codec_container: "codec (put_container enc) (get_container dec) (container_ok ok)"
proof
  fix xs rest s
  show "snd (put_container enc xs) = None" if "container_ok ok xs"
    using that by (simp add: put_container_def container_ok_def wconcat_enc)
  show "get_container dec (fst (put_container enc xs) @ rest) = Inr (xs, rest)"
    if "container_ok ok xs"
  proof -
    have "unat (of_nat (length xs) :: u64) = length xs"
      using that by (simp add: container_ok_def unat_of_nat)
    then show ?thesis
      using that
      by (simp add: put_container_def get_container_def container_ok_def wconcat_enc get_elements_enc)
  qed
  assume "get_container dec s = Inr (xs, rest)"
  then obtain sz :: u64 and s' where sz: "s = fst (put_uint sz) @ s'"
    and el: "get_elements (unat sz) dec s' = Inr (xs, rest)"
    by (auto simp: get_container_def rbind_eq_Inr uint64.dec_iff)
  have len: "length xs = unat sz" and okx: "list_all ok xs"
    and s': "s' = concat (map (\<lambda>x. fst (enc x)) xs) @ rest"
    using get_elements_canonical [OF el] by simp_all
  show "container_ok ok xs"
    using okx unsigned_less [of sz, where ?'a = nat] by (simp add: container_ok_def len)
  show "s = fst (put_container enc xs) @ rest"
    using okx by (simp add: put_container_def put_uint_def sz s' wconcat_enc len)
qed

end

end
