(* ===== verification/Tx_Model.thy ===== *)
theory Tx_Model
  imports Prelude
begin

text \<open>
  The transaction and block data of src/include/CryptoNote.h and src/include/PqTxType.h, with
  the sizes that consensus fixes.  A 32-byte \<open>Crypto::Hash\<close>, a fixed-size \<open>std::array\<close> and a
  \<open>std::vector<uint8_t>\<close> are all byte lists; where the C++ type fixes the length, the
  well-formedness predicates below say so.
\<close>

type_synonym hash = bytes

definition HASH_SIZE :: nat where "HASH_SIZE = 32"
definition PQ_KEM_CIPHERTEXT_SIZE :: nat where "PQ_KEM_CIPHERTEXT_SIZE = 1088"
definition PQ_ENC_PAYLOAD_SIZE :: nat where "PQ_ENC_PAYLOAD_SIZE = 56"
definition PQ_AUTH_PUB_SIZE :: nat where "PQ_AUTH_PUB_SIZE = 1952"
definition PQ_RHO_SIZE :: nat where "PQ_RHO_SIZE = 32"
definition PQ_SIGNATURE_SIZE :: nat where "PQ_SIGNATURE_SIZE = 3309"
definition PQ_NO_KEY_REF :: u32 where "PQ_NO_KEY_REF = 0xFFFFFFFF"
definition NULL_HASH :: hash where "NULL_HASH = replicate HASH_SIZE 0"

record BaseInput =
  blockIndex :: u32

record PqInput =
  prevTxid :: hash
  prevOutIndex :: u32
  authPub :: bytes
  rhoReveal :: bytes
  keyRef :: u32

record KeyOutput =
  key :: bytes

record PqOutput =
  kemCt :: bytes
  encPayload :: bytes
  spendCommit :: hash

record CoinbaseOutput =
  cbSpendCommit :: hash

datatype TransactionInput = InBase BaseInput | InPq PqInput

datatype TransactionOutputTarget = OutKey KeyOutput | OutPq PqOutput | OutCoinbase CoinbaseOutput

record TransactionOutput =
  amount :: u64
  outUnlockHeight :: u64
  target :: TransactionOutputTarget

record TransactionPrefix =
  version :: byte
  txType :: byte
  unlockHeight :: u64
  inputs :: "TransactionInput list"
  outputs :: "TransactionOutput list"
  extra :: bytes

record Transaction = TransactionPrefix +
  pqSignatures :: "bytes list"

record BlockHeader =
  majorVersion :: byte
  minorVersion :: byte
  nonce :: u32
  timestamp :: u64
  previousBlockHash :: hash

record Block = BlockHeader +
  baseTransaction :: Transaction
  signature :: bytes
  transactionHashes :: "hash list"

section \<open>Transaction subtypes\<close>

definition TX_COINBASE :: byte where "TX_COINBASE = 0x00"
definition TX_PQ :: byte where "TX_PQ = 0x01"
definition TX_FREE_REG :: byte where "TX_FREE_REG = 0x03"
definition TX_PQ_V2 :: byte where "TX_PQ_V2 = 0x04"
definition TRANSACTION_VERSION_1 :: byte where "TRANSACTION_VERSION_1 = 1"
definition BLOCK_MAJOR_VERSION_1 :: byte where "BLOCK_MAJOR_VERSION_1 = 1"
definition BLOCK_MAJOR_VERSION_2 :: byte where "BLOCK_MAJOR_VERSION_2 = 2"
definition BLOCK_MAJOR_VERSION_3 :: byte where "BLOCK_MAJOR_VERSION_3 = 3"
definition BLOCK_MAJOR_VERSION_8 :: byte where "BLOCK_MAJOR_VERSION_8 = 8"
definition MAX_PQ_GROUPED_INPUTS_PER_TX :: nat where "MAX_PQ_GROUPED_INPUTS_PER_TX = 256"

definition isPqTransfer :: "byte \<Rightarrow> bool" where
  "isPqTransfer t \<longleftrightarrow> t = TX_PQ \<or> t = TX_PQ_V2"

lemmas size_defs = HASH_SIZE_def PQ_KEM_CIPHERTEXT_SIZE_def PQ_ENC_PAYLOAD_SIZE_def
  PQ_AUTH_PUB_SIZE_def PQ_RHO_SIZE_def PQ_SIGNATURE_SIZE_def

lemmas tag_defs = TX_COINBASE_def TX_PQ_def TX_FREE_REG_def TX_PQ_V2_def TRANSACTION_VERSION_1_def

definition carriesKey :: "TransactionInput \<Rightarrow> bool" where
  "carriesKey i \<longleftrightarrow> (case i of InBase _ \<Rightarrow> False | InPq p \<Rightarrow> keyRef p = PQ_NO_KEY_REF)"

lemma carriesKey_simps [simp]:
  "\<not> carriesKey (InBase b)" "carriesKey (InPq p) \<longleftrightarrow> keyRef p = PQ_NO_KEY_REF"
  by (simp_all add: carriesKey_def)

text \<open>
  A key reference is resolved when it names an earlier key-carrying input of a list short
  enough for references, and holds that input's key.
\<close>

definition ref_resolved :: "TransactionInput list \<Rightarrow> nat \<Rightarrow> bool" where
  "ref_resolved ins i \<longleftrightarrow>
     (case ins ! i of
        InBase _ \<Rightarrow> True
      | InPq p \<Rightarrow> keyRef p = PQ_NO_KEY_REF \<or>
          (length ins \<le> MAX_PQ_GROUPED_INPUTS_PER_TX \<and> unat (keyRef p) < i \<and>
           (case ins ! unat (keyRef p) of
              InBase _ \<Rightarrow> False
            | InPq q \<Rightarrow> keyRef q = PQ_NO_KEY_REF \<and> authPub p = authPub q)))"

end
