(* ===== verification/Tx_Wire.thy ===== *)
theory Tx_Wire
  imports Codec Tx_Model
begin

text \<open>
  The wire format of transactions and block headers: src/src/CryptoNoteCore/CryptoNoteSerialization.cpp
  and the \<open>toBinaryArray\<close> / \<open>fromBinaryArray\<close> templates of CryptoNoteTools.h.  A C++ \<open>serialize\<close>
  function serves both directions; here \<open>put_X\<close> is its OUTPUT half and \<open>get_X\<close> its INPUT half.
  Every pair is interpreted as a \<open>codec\<close>, up to whole transactions and blocks.
\<close>

section \<open>Fixed-size fields\<close>

definition put_hash :: "hash \<Rightarrow> writer" where
  "put_hash h = put_binary h"

definition get_hash :: "hash reader" where
  "get_hash = get_binary HASH_SIZE"

definition put_PqBlob :: "nat \<Rightarrow> bytes \<Rightarrow> writer" where
  "put_PqBlob expected v =
     (if length v \<noteq> expected then wfail ''PQ wire field has wrong size'' else put_binary v)"

definition get_PqBlob :: "nat \<Rightarrow> bytes reader" where
  "get_PqBlob expected = get_binary expected"

interpretation hash_codec: codec put_hash get_hash "\<lambda>h. length h = HASH_SIZE"
  using codec_binary [of HASH_SIZE] by (simp add: put_hash_def [abs_def] get_hash_def)

lemma codec_PqBlob: "codec (put_PqBlob n) (get_PqBlob n) (\<lambda>v. length v = n)"
  by unfold_locales
    (auto simp: put_PqBlob_def get_PqBlob_def put_binary_def get_binary_def read_bytes_Inr_iff)

interpretation authPub_codec: codec "put_PqBlob PQ_AUTH_PUB_SIZE" "get_PqBlob PQ_AUTH_PUB_SIZE"
  "\<lambda>v. length v = PQ_AUTH_PUB_SIZE"
  by (rule codec_PqBlob)

interpretation rho_codec: codec "put_PqBlob PQ_RHO_SIZE" "get_PqBlob PQ_RHO_SIZE"
  "\<lambda>v. length v = PQ_RHO_SIZE"
  by (rule codec_PqBlob)

interpretation kemCt_codec: codec "put_PqBlob PQ_KEM_CIPHERTEXT_SIZE" "get_PqBlob PQ_KEM_CIPHERTEXT_SIZE"
  "\<lambda>v. length v = PQ_KEM_CIPHERTEXT_SIZE"
  by (rule codec_PqBlob)

interpretation encPayload_codec: codec "put_PqBlob PQ_ENC_PAYLOAD_SIZE" "get_PqBlob PQ_ENC_PAYLOAD_SIZE"
  "\<lambda>v. length v = PQ_ENC_PAYLOAD_SIZE"
  by (rule codec_PqBlob)

interpretation sig_codec: codec "put_PqBlob PQ_SIGNATURE_SIZE" "get_PqBlob PQ_SIGNATURE_SIZE"
  "\<lambda>v. length v = PQ_SIGNATURE_SIZE"
  by (rule codec_PqBlob)

section \<open>Inputs\<close>

definition put_BaseInput :: "BaseInput \<Rightarrow> writer" where
  "put_BaseInput g = put_uint (blockIndex g)"

definition get_BaseInput :: "BaseInput reader" where
  "get_BaseInput = rbind get_uint (\<lambda>h. rret \<lparr>blockIndex = h\<rparr>)"

definition put_PqInput :: "PqInput \<Rightarrow> writer" where
  "put_PqInput k =
     wthen (put_hash (prevTxid k))
     (wthen (put_uint (prevOutIndex k))
     (wthen (if keyRef k = PQ_NO_KEY_REF then put_PqBlob PQ_AUTH_PUB_SIZE (authPub k)
             else put_uint (keyRef k))
            (put_PqBlob PQ_RHO_SIZE (rhoReveal k))))"

text \<open>
  Reading takes the value \<open>keyRef\<close> was preset to: it selects the layout, and in the reference
  form the real index is read and the key stays empty until the references are resolved.
\<close>

definition get_PqInput :: "u32 \<Rightarrow> PqInput reader" where
  "get_PqInput preset =
     rbind get_hash (\<lambda>txid.
     rbind get_uint (\<lambda>idx.
     rbind (if preset = PQ_NO_KEY_REF
            then rbind (get_PqBlob PQ_AUTH_PUB_SIZE) (\<lambda>a. rret (a, preset))
            else rbind get_uint (\<lambda>r. rret ([], r))) (\<lambda>(a, r).
     rbind (get_PqBlob PQ_RHO_SIZE) (\<lambda>rho.
     rret \<lparr>prevTxid = txid, prevOutIndex = idx, authPub = a, rhoReveal = rho, keyRef = r\<rparr>))))"

definition input_tag :: "TransactionInput \<Rightarrow> byte" where
  "input_tag i = (case i of InBase _ \<Rightarrow> 0xff
                  | InPq p \<Rightarrow> if keyRef p = PQ_NO_KEY_REF then 0x10 else 0x13)"

definition put_TransactionInput :: "TransactionInput \<Rightarrow> writer" where
  "put_TransactionInput i =
     wthen (put_binary [input_tag i])
       (case i of InBase b \<Rightarrow> put_BaseInput b | InPq p \<Rightarrow> put_PqInput p)"

definition get_input_variant :: "byte \<Rightarrow> TransactionInput reader" where
  "get_input_variant tag =
     (if tag = 0xff then rbind get_BaseInput (\<lambda>v. rret (InBase v))
      else if tag = 0x2 then rfail ''KeyInput (ECC ring-sig) not allowed in Discrete transactions''
      else if tag = 0x10 then rbind (get_PqInput PQ_NO_KEY_REF) (\<lambda>v. rret (InPq v))
      else if tag = 0x13 then
        rbind (get_PqInput 0) (\<lambda>v.
          if keyRef v = PQ_NO_KEY_REF then rfail ''PqInput key reference out of range''
          else rret (InPq v))
      else rfail ''Unknown transaction input tag'')"

definition get_TransactionInput :: "TransactionInput reader" where
  "get_TransactionInput = rbind (get_binary 1) (\<lambda>t. get_input_variant (hd t))"

text \<open>What the reader of one input can produce: a reference has no key yet.\<close>

definition PqInput_ok :: "PqInput \<Rightarrow> bool" where
  "PqInput_ok p \<longleftrightarrow> length (prevTxid p) = HASH_SIZE \<and> length (rhoReveal p) = PQ_RHO_SIZE \<and>
     (if keyRef p = PQ_NO_KEY_REF then length (authPub p) = PQ_AUTH_PUB_SIZE else authPub p = [])"

definition raw_input_ok :: "TransactionInput \<Rightarrow> bool" where
  "raw_input_ok i = (case i of InBase _ \<Rightarrow> True | InPq p \<Rightarrow> PqInput_ok p)"

lemmas scalar_facts = uint8.codec_facts uint16.codec_facts uint32.codec_facts uint64.codec_facts
  hash_codec.codec_facts blob.codec_facts

lemmas blob_facts = authPub_codec.codec_facts rho_codec.codec_facts kemCt_codec.codec_facts
  encPayload_codec.codec_facts sig_codec.codec_facts

interpretation BaseInput_codec: codec put_BaseInput get_BaseInput "\<lambda>_. True"
  by unfold_locales (auto simp: put_BaseInput_def get_BaseInput_def scalar_facts rbind_eq_Inr)

lemma put_PqInput_ok: "PqInput_ok p \<Longrightarrow> snd (put_PqInput p) = None"
  by (auto simp: PqInput_ok_def put_PqInput_def scalar_facts blob_facts)

lemma get_put_PqInput:
  assumes "PqInput_ok p" and "preset = PQ_NO_KEY_REF \<longleftrightarrow> keyRef p = PQ_NO_KEY_REF"
  shows "get_PqInput preset (fst (put_PqInput p) @ rest) = Inr (p, rest)"
  using assms
  by (auto simp: PqInput_ok_def put_PqInput_def get_PqInput_def scalar_facts blob_facts)

lemma get_PqInput_canonical:
  assumes "get_PqInput preset s = Inr (p, rest)"
    and "preset = PQ_NO_KEY_REF \<longleftrightarrow> keyRef p = PQ_NO_KEY_REF"
  shows "PqInput_ok p \<and> s = fst (put_PqInput p) @ rest"
  using assms
  by (auto simp: PqInput_ok_def put_PqInput_def get_PqInput_def scalar_facts blob_facts rbind_eq_Inr
      split: if_splits)

lemma get_PqInput_key:
  assumes "get_PqInput PQ_NO_KEY_REF s = Inr (p, rest)"
  shows "keyRef p = PQ_NO_KEY_REF \<and> PqInput_ok p \<and> s = fst (put_PqInput p) @ rest"
proof -
  have "keyRef p = PQ_NO_KEY_REF" using assms by (auto simp: get_PqInput_def rbind_eq_Inr)
  with get_PqInput_canonical [OF assms] show ?thesis by simp
qed

lemma no_ref_0: "(0 :: u32) \<noteq> PQ_NO_KEY_REF" "PQ_NO_KEY_REF \<noteq> 0"
  by (simp_all add: PQ_NO_KEY_REF_def)

interpretation input_codec: codec put_TransactionInput get_TransactionInput raw_input_ok
proof
  note ok = raw_input_ok_def
  fix i rest s
  show "snd (put_TransactionInput i) = None" if "raw_input_ok i"
    using that
    by (auto simp: put_TransactionInput_def put_binary_def ok put_PqInput_ok BaseInput_codec.enc_ok
        split: TransactionInput.splits)
  show "get_TransactionInput (fst (put_TransactionInput i) @ rest) = Inr (i, rest)"
    if "raw_input_ok i"
    using that
    by (auto simp: put_TransactionInput_def get_TransactionInput_def put_binary_def
        ok input_tag_def get_input_variant_def get_put_PqInput no_ref_0
        BaseInput_codec.rbind_enc split: TransactionInput.splits)
  assume a: "get_TransactionInput s = Inr (i, rest)"
  then obtain t s' where s: "s = t # s'" and v: "get_input_variant t s' = Inr (i, rest)"
    by (auto simp: get_TransactionInput_def rbind_eq_Inr get_byte_iff)
  from v show "raw_input_ok i" "s = fst (put_TransactionInput i) @ rest"
    unfolding s ok put_TransactionInput_def get_input_variant_def
    by (auto simp: put_binary_def input_tag_def rbind_eq_Inr BaseInput_codec.dec_iff no_ref_0
        dest: get_PqInput_canonical get_PqInput_key split: if_splits)
qed

section \<open>Key references\<close>

text \<open>One iteration of the loop of \<open>resolvePqKeyReferences\<close>, at index \<open>i\<close>.\<close>

definition resolve_step :: "nat \<Rightarrow> TransactionInput list \<Rightarrow> TransactionInput list res" where
  "resolve_step i ins =
     (case ins ! i of
        InBase _ \<Rightarrow> Inr ins
      | InPq p \<Rightarrow>
          if keyRef p = PQ_NO_KEY_REF then Inr ins
          else if MAX_PQ_GROUPED_INPUTS_PER_TX < length ins then
            Inl ''too many PQ inputs before key-reference expansion''
          else if i \<le> unat (keyRef p) then
            Inl ''PqInput key reference does not name an earlier key-carrying input''
          else (case ins ! unat (keyRef p) of
              InBase _ \<Rightarrow> Inl ''PqInput key reference does not name an earlier key-carrying input''
            | InPq q \<Rightarrow>
                if keyRef q \<noteq> PQ_NO_KEY_REF then
                  Inl ''PqInput key reference does not name an earlier key-carrying input''
                else Inr (ins[i := InPq (p\<lparr>authPub := authPub q\<rparr>)])))"

fun resolve_loop :: "nat list \<Rightarrow> TransactionInput list \<Rightarrow> TransactionInput list res" where
  "resolve_loop [] ins = Inr ins"
| "resolve_loop (i # is) ins =
     (case resolve_step i ins of Inl e \<Rightarrow> Inl e | Inr ins' \<Rightarrow> resolve_loop is ins')"

definition resolvePqKeyReferences :: "TransactionInput list \<Rightarrow> TransactionInput list res" where
  "resolvePqKeyReferences ins = resolve_loop [0..<length ins] ins"

text \<open>What a reference input has on the wire: everything but its key.\<close>

definition strip :: "TransactionInput \<Rightarrow> TransactionInput" where
  "strip i = (case i of InBase b \<Rightarrow> InBase b
              | InPq p \<Rightarrow> if keyRef p = PQ_NO_KEY_REF then InPq p else InPq (p\<lparr>authPub := []\<rparr>))"

definition inputs_ok :: "TransactionInput list \<Rightarrow> bool" where
  "inputs_ok ins \<longleftrightarrow>
     container_ok raw_input_ok (map strip ins) \<and> (\<forall>i < length ins. ref_resolved ins i)"

lemma put_strip [simp]: "put_TransactionInput (strip i) = put_TransactionInput i"
  by (cases i) (simp_all add: strip_def put_TransactionInput_def input_tag_def put_PqInput_def)

lemma raw_strip: "raw_input_ok i \<Longrightarrow> strip i = i"
  by (cases i) (auto simp: strip_def raw_input_ok_def PqInput_ok_def)

lemma put_inputs_strip:
  "put_container put_TransactionInput (map strip ins) = put_container put_TransactionInput ins"
  by (simp add: put_container_def comp_def)

lemma resolve_step_inv:
  assumes "resolve_step k st = Inr st'" and "k < length st" and "\<forall>i < k. ref_resolved st i"
  shows "map strip st' = map strip st \<and> length st' = length st \<and> (\<forall>i < Suc k. ref_resolved st' i)"
proof (cases "carriesKey (st ! k) \<or> st ! k \<in> range InBase")
  case True
  then have "st' = st" using assms(1)
    by (auto simp: resolve_step_def split: TransactionInput.splits)
  moreover have "ref_resolved st k" using True
    by (auto simp: ref_resolved_def split: TransactionInput.splits)
  ultimately show ?thesis using assms(3) by (auto simp: less_Suc_eq)
next
  case False
  then obtain p q where p: "st ! k = InPq p" "keyRef p \<noteq> PQ_NO_KEY_REF"
    and n: "length st \<le> MAX_PQ_GROUPED_INPUTS_PER_TX" "unat (keyRef p) < k"
    and q: "st ! unat (keyRef p) = InPq q" "keyRef q = PQ_NO_KEY_REF"
    and st': "st' = st[k := InPq (p\<lparr>authPub := authPub q\<rparr>)]"
    using assms(1) by (auto simp: resolve_step_def split: TransactionInput.splits if_splits)
  have "strip (InPq (p\<lparr>authPub := authPub q\<rparr>)) = strip (st ! k)"
    using p by (simp add: strip_def)
  then have "map strip st' = map strip st"
    unfolding st' map_update using assms(2) by (metis list_update_id nth_map)
  moreover have "ref_resolved st' i" if "i < k" for i
  proof -
    have "st' ! j = st ! j" if "j < k" for j using that by (simp add: st')
    moreover have "ref_resolved st i" using assms(3) that by simp
    ultimately show ?thesis using that
      by (auto simp: ref_resolved_def st' split: TransactionInput.splits)
  qed
  moreover have "ref_resolved st' k"
    using p n q assms(2) by (simp add: ref_resolved_def st')
  ultimately show ?thesis by (simp add: st' less_Suc_eq)
qed

lemma resolve_loop_inv:
  "resolve_loop [k..<length st] st = Inr st' \<Longrightarrow> k \<le> length st \<Longrightarrow> \<forall>i < k. ref_resolved st i \<Longrightarrow>
   map strip st' = map strip st \<and> length st' = length st \<and> (\<forall>i < length st. ref_resolved st' i)"
proof (induction "length st - k" arbitrary: k st)
  case (Suc n)
  then have k: "k < length st" by simp
  then obtain st1 where st1: "resolve_step k st = Inr st1" "resolve_loop [Suc k..<length st] st1 = Inr st'"
    using Suc.prems(1) by (simp add: upt_conv_Cons split: sum.splits)
  note inv = resolve_step_inv [OF st1(1) k Suc.prems(3)]
  with Suc.hyps(1) [of st1 "Suc k"] st1(2) Suc.hyps(2) k show ?case by simp
qed simp

lemma authPub_idle: "authPub p = a \<Longrightarrow> p\<lparr>authPub := a\<rparr> = p"
  by (cases p) simp

lemma resolve_step_strip:
  assumes "\<forall>i < length ins. ref_resolved ins i" and "k < length ins"
  shows "resolve_step k (take k ins @ map strip (drop k ins))
         = Inr (take (Suc k) ins @ map strip (drop (Suc k) ins))"
proof -
  define st where "st = take k ins @ map strip (drop k ins)"
  have k: "st ! k = strip (ins ! k)" and l: "length st = length ins"
    and j: "\<And>j. j < k \<Longrightarrow> st ! j = ins ! j"
    using assms(2) by (simp_all add: st_def nth_append)
  have goal: "take (Suc k) ins @ map strip (drop (Suc k) ins) = st[k := ins ! k]"
    using assms(2)
    by (simp add: st_def list_update_append take_Suc_conv_app_nth flip: Cons_nth_drop_Suc)
  have same: "st ! k = ins ! k \<Longrightarrow> st[k := ins ! k] = st" by (metis list_update_id)
  have "resolve_step k st = Inr (st[k := ins ! k])"
  proof (cases "ins ! k")
    case (InBase b)
    then have "st ! k = ins ! k" by (simp add: k strip_def)
    with same show ?thesis using InBase by (simp add: resolve_step_def)
  next
    case (InPq p)
    show ?thesis
    proof (cases "keyRef p = PQ_NO_KEY_REF")
      case True
      then have "st ! k = ins ! k" by (simp add: k strip_def InPq)
      with same show ?thesis using True InPq by (simp add: resolve_step_def)
    next
      case False
      moreover have "ref_resolved ins k" using assms by simp
      ultimately show ?thesis
        using InPq j
        by (auto simp: resolve_step_def ref_resolved_def k l strip_def authPub_idle
            split: TransactionInput.splits)
    qed
  qed
  then show ?thesis by (simp only: goal st_def)
qed

lemma resolve_loop_strip:
  "\<forall>i < length ins. ref_resolved ins i \<Longrightarrow> k \<le> length ins \<Longrightarrow>
   resolve_loop [k..<length ins] (take k ins @ map strip (drop k ins)) = Inr ins"
proof (induction "length ins - k" arbitrary: k)
  case (Suc n)
  then show ?case
    using Suc.hyps(1) [of "Suc k"] by (simp add: upt_conv_Cons resolve_step_strip)
qed simp

definition put_inputs :: "TransactionInput list \<Rightarrow> writer" where
  "put_inputs ins = put_container put_TransactionInput ins"

definition get_inputs :: "TransactionInput list reader" where
  "get_inputs = rbind (get_container get_TransactionInput) (\<lambda>ins.
     rlift (resolvePqKeyReferences ins))"

interpretation raw_inputs: codec "put_container put_TransactionInput"
  "get_container get_TransactionInput" "container_ok raw_input_ok"
  by (rule input_codec.codec_container)

lemma strip_inputs_ok: "inputs_ok ins \<Longrightarrow> container_ok raw_input_ok (map strip ins)"
  by (simp add: inputs_ok_def)

interpretation inputs_codec: codec put_inputs get_inputs inputs_ok
proof
  fix ins rest s
  show "snd (put_inputs ins) = None" if "inputs_ok ins"
    using raw_inputs.enc_ok [OF strip_inputs_ok [OF that]]
    by (simp add: put_inputs_def put_inputs_strip)
  show "get_inputs (fst (put_inputs ins) @ rest) = Inr (ins, rest)" if "inputs_ok ins"
  proof -
    have "resolvePqKeyReferences (map strip ins) = Inr ins"
      using resolve_loop_strip [of ins 0] that by (simp add: resolvePqKeyReferences_def inputs_ok_def)
    then show ?thesis
      using raw_inputs.dec_enc [OF strip_inputs_ok [OF that], of rest]
      by (simp add: get_inputs_def put_inputs_def put_inputs_strip)
  qed
  assume "get_inputs s = Inr (ins, rest)"
  then obtain raw where raw: "container_ok raw_input_ok raw"
    and s: "s = fst (put_container put_TransactionInput raw) @ rest"
    and res: "resolvePqKeyReferences raw = Inr ins"
    by (auto simp: get_inputs_def rbind_eq_Inr raw_inputs.dec_iff split: sum.splits)
  have "map strip raw = raw"
    using raw by (auto simp: container_ok_def list_all_iff raw_strip intro: map_idI)
  then have "map strip ins = raw" "\<forall>i < length ins. ref_resolved ins i"
    using resolve_loop_inv [of 0 raw ins] res by (auto simp: resolvePqKeyReferences_def)
  then show "inputs_ok ins" "s = fst (put_inputs ins) @ rest"
    using raw s put_inputs_strip [of ins] by (simp_all add: inputs_ok_def put_inputs_def)
qed

section \<open>Outputs\<close>

definition put_PqOutput :: "PqOutput \<Rightarrow> writer" where
  "put_PqOutput out =
     wthen (put_PqBlob PQ_KEM_CIPHERTEXT_SIZE (kemCt out))
     (wthen (put_PqBlob PQ_ENC_PAYLOAD_SIZE (encPayload out)) (put_hash (spendCommit out)))"

definition get_PqOutput :: "PqOutput reader" where
  "get_PqOutput =
     rbind (get_PqBlob PQ_KEM_CIPHERTEXT_SIZE) (\<lambda>ct.
     rbind (get_PqBlob PQ_ENC_PAYLOAD_SIZE) (\<lambda>pl.
     rbind get_hash (\<lambda>c. rret \<lparr>kemCt = ct, encPayload = pl, spendCommit = c\<rparr>)))"

definition put_CoinbaseOutput :: "CoinbaseOutput \<Rightarrow> writer" where
  "put_CoinbaseOutput out = put_hash (cbSpendCommit out)"

definition get_CoinbaseOutput :: "CoinbaseOutput reader" where
  "get_CoinbaseOutput = rbind get_hash (\<lambda>c. rret \<lparr>cbSpendCommit = c\<rparr>)"

definition put_target :: "TransactionOutputTarget \<Rightarrow> writer" where
  "put_target t =
     (case t of
        OutKey _ \<Rightarrow> wfail ''KeyOutput not allowed in Discrete''
      | OutPq out \<Rightarrow> wthen (put_binary [0x10]) (put_PqOutput out)
      | OutCoinbase out \<Rightarrow> wthen (put_binary [0x11]) (put_CoinbaseOutput out))"

definition get_output_variant :: "byte \<Rightarrow> TransactionOutputTarget reader" where
  "get_output_variant tag =
     (if tag = 0x2 then rfail ''KeyOutput (ECC stealth) not allowed in Discrete transactions''
      else if tag = 0x10 then rbind get_PqOutput (\<lambda>v. rret (OutPq v))
      else if tag = 0x11 then rbind get_CoinbaseOutput (\<lambda>v. rret (OutCoinbase v))
      else rfail ''Unknown transaction output tag'')"

definition get_target :: "TransactionOutputTarget reader" where
  "get_target = rbind (get_binary 1) (\<lambda>t. get_output_variant (hd t))"

definition put_TransactionOutput :: "TransactionOutput \<Rightarrow> writer" where
  "put_TransactionOutput out =
     wthen (put_uint (amount out)) (wthen (put_uint (outUnlockHeight out)) (put_target (target out)))"

definition get_TransactionOutput :: "TransactionOutput reader" where
  "get_TransactionOutput =
     rbind get_uint (\<lambda>a. rbind get_uint (\<lambda>h. rbind get_target (\<lambda>t.
     rret \<lparr>amount = a, outUnlockHeight = h, target = t\<rparr>)))"

definition PqOutput_ok :: "PqOutput \<Rightarrow> bool" where
  "PqOutput_ok out \<longleftrightarrow> length (kemCt out) = PQ_KEM_CIPHERTEXT_SIZE \<and>
     length (encPayload out) = PQ_ENC_PAYLOAD_SIZE \<and> length (spendCommit out) = HASH_SIZE"

definition target_ok :: "TransactionOutputTarget \<Rightarrow> bool" where
  "target_ok t = (case t of OutKey _ \<Rightarrow> False | OutPq out \<Rightarrow> PqOutput_ok out
                  | OutCoinbase out \<Rightarrow> length (cbSpendCommit out) = HASH_SIZE)"

interpretation PqOutput_codec: codec put_PqOutput get_PqOutput PqOutput_ok
  by unfold_locales
    (auto simp: put_PqOutput_def get_PqOutput_def PqOutput_ok_def scalar_facts blob_facts rbind_eq_Inr)

interpretation CoinbaseOutput_codec: codec put_CoinbaseOutput get_CoinbaseOutput
  "\<lambda>out. length (cbSpendCommit out) = HASH_SIZE"
  by unfold_locales
    (auto simp: put_CoinbaseOutput_def get_CoinbaseOutput_def scalar_facts rbind_eq_Inr)

interpretation target_codec: codec put_target get_target target_ok
proof
  note facts = PqOutput_codec.codec_facts CoinbaseOutput_codec.codec_facts
  fix t rest s
  show "snd (put_target t) = None" if "target_ok t"
    using that by (auto simp: put_target_def target_ok_def put_binary_def facts
        split: TransactionOutputTarget.splits)
  show "get_target (fst (put_target t) @ rest) = Inr (t, rest)" if "target_ok t"
    using that by (auto simp: put_target_def get_target_def get_output_variant_def target_ok_def
        put_binary_def facts split: TransactionOutputTarget.splits)
  assume "get_target s = Inr (t, rest)"
  then obtain b s' where "s = b # s'" "get_output_variant b s' = Inr (t, rest)"
    by (auto simp: get_target_def rbind_eq_Inr get_byte_iff)
  then show "target_ok t" "s = fst (put_target t) @ rest"
    by (auto simp: get_output_variant_def rbind_eq_Inr facts target_ok_def put_target_def
        put_binary_def split: if_splits)
qed

interpretation output_codec: codec put_TransactionOutput get_TransactionOutput "\<lambda>out. target_ok (target out)"
  by unfold_locales
    (auto simp: put_TransactionOutput_def get_TransactionOutput_def scalar_facts
       target_codec.codec_facts rbind_eq_Inr)

interpretation outputs_codec: codec "put_container put_TransactionOutput"
  "get_container get_TransactionOutput" "container_ok (\<lambda>out. target_ok (target out))"
  by (rule output_codec.codec_container)

section \<open>Transactions\<close>

definition put_TransactionPrefix :: "'a TransactionPrefix_scheme \<Rightarrow> writer" where
  "put_TransactionPrefix txP =
     wthen (put_uint (version txP))
     (if version txP \<noteq> TRANSACTION_VERSION_1 then
        wfail ''Wrong transaction version - Discrete only accepts PQ transactions''
      else
        wthen (put_uint (txType txP))
        (wthen (put_uint (unlockHeight txP))
        (wthen (put_inputs (inputs txP))
        (wthen (put_container put_TransactionOutput (outputs txP))
               (put_string (extra txP))))))"

definition get_TransactionPrefix :: "TransactionPrefix reader" where
  "get_TransactionPrefix =
     rbind get_uint (\<lambda>v.
     if v \<noteq> TRANSACTION_VERSION_1 then
       rfail ''Wrong transaction version - Discrete only accepts PQ transactions''
     else
       rbind get_uint (\<lambda>t.
       rbind get_uint (\<lambda>u.
       rbind get_inputs (\<lambda>ins.
       rbind (get_container get_TransactionOutput) (\<lambda>outs.
       rbind get_string (\<lambda>ex.
       rret \<lparr>version = v, txType = t, unlockHeight = u, inputs = ins, outputs = outs, extra = ex\<rparr>))))))"

definition pqCount :: "TransactionInput list \<Rightarrow> nat" where
  "pqCount ins = length (filter carriesKey ins)"

definition put_Transaction :: "Transaction \<Rightarrow> writer" where
  "put_Transaction tx =
     wthen (put_TransactionPrefix tx) (wconcat (map put_binary (pqSignatures tx)))"

definition get_Transaction :: "Transaction reader" where
  "get_Transaction =
     rbind get_TransactionPrefix (\<lambda>p.
     rbind (get_elements (pqCount (inputs p)) (get_binary PQ_SIGNATURE_SIZE)) (\<lambda>sigs.
     rret (TransactionPrefix.extend p (Transaction.fields sigs))))"

definition prefix_ok :: "'a TransactionPrefix_scheme \<Rightarrow> bool" where
  "prefix_ok p \<longleftrightarrow> version p = TRANSACTION_VERSION_1 \<and> inputs_ok (inputs p) \<and>
     container_ok (\<lambda>out. target_ok (target out)) (outputs p) \<and> length (extra p) \<le> MAX_STRING_SIZE"

definition tx_ok :: "Transaction \<Rightarrow> bool" where
  "tx_ok tx \<longleftrightarrow> prefix_ok tx \<and> length (pqSignatures tx) = pqCount (inputs tx) \<and>
     list_all (\<lambda>sg. length sg = PQ_SIGNATURE_SIZE) (pqSignatures tx)"

interpretation prefix_codec: codec put_TransactionPrefix get_TransactionPrefix prefix_ok
  by unfold_locales
    (auto simp: put_TransactionPrefix_def get_TransactionPrefix_def prefix_ok_def scalar_facts
       inputs_codec.codec_facts outputs_codec.codec_facts rbind_eq_Inr split: if_splits)

lemma prefix_truncate [simp]:
  "put_TransactionPrefix (TransactionPrefix.truncate p) = put_TransactionPrefix p"
  "prefix_ok (TransactionPrefix.truncate p) \<longleftrightarrow> prefix_ok p"
  "inputs (TransactionPrefix.truncate p) = inputs p"
  by (simp_all add: put_TransactionPrefix_def prefix_ok_def TransactionPrefix.defs)

lemma tx_extend [simp]:
  "TransactionPrefix.extend (TransactionPrefix.truncate tx) (Transaction.fields (pqSignatures tx)) = tx"
  "TransactionPrefix.truncate (TransactionPrefix.extend p x) = p"
  "pqSignatures (TransactionPrefix.extend p (Transaction.fields sigs)) = sigs"
  by (simp_all add: TransactionPrefix.defs Transaction.defs)

interpretation raw_sig: codec put_binary "get_binary PQ_SIGNATURE_SIZE"
  "\<lambda>v. length v = PQ_SIGNATURE_SIZE"
  by (rule codec_binary)

lemma put_Transaction_fst:
  "tx_ok tx \<Longrightarrow> fst (put_Transaction tx)
     = fst (put_TransactionPrefix (TransactionPrefix.truncate tx)) @ concat (pqSignatures tx)"
  using prefix_codec.enc_ok [of "TransactionPrefix.truncate tx"]
  by (simp add: put_Transaction_def tx_ok_def raw_sig.wconcat_enc) (simp add: put_binary_def)

interpretation tx_codec: codec put_Transaction get_Transaction tx_ok
proof
  fix tx :: Transaction and rest s
  let ?p = "TransactionPrefix.truncate tx"
  show "snd (put_Transaction tx) = None" if "tx_ok tx"
    using that prefix_codec.enc_ok [of ?p] by (simp add: put_Transaction_def tx_ok_def raw_sig.wconcat_enc)
  show "get_Transaction (fst (put_Transaction tx) @ rest) = Inr (tx, rest)" if "tx_ok tx"
  proof -
    have "get_elements (pqCount (inputs ?p)) (get_binary PQ_SIGNATURE_SIZE)
            (concat (pqSignatures tx) @ rest) = Inr (pqSignatures tx, rest)"
      using that raw_sig.get_elements_enc [of "pqSignatures tx" rest]
      by (simp add: tx_ok_def put_binary_def)
    then show ?thesis
      using that prefix_codec.dec_enc [of ?p]
      by (simp add: put_Transaction_fst get_Transaction_def tx_ok_def)
  qed
  assume "get_Transaction s = Inr (tx, rest)"
  then obtain p s' sigs where p: "prefix_ok p" "s = fst (put_TransactionPrefix p) @ s'"
    and sg: "get_elements (pqCount (inputs p)) (get_binary PQ_SIGNATURE_SIZE) s' = Inr (sigs, rest)"
    and tx: "tx = TransactionPrefix.extend p (Transaction.fields sigs)"
    by (auto simp: get_Transaction_def rbind_eq_Inr prefix_codec.dec_iff)
  have p': "?p = p" "pqSignatures tx = sigs" by (simp_all add: tx)
  have el: "list_all (\<lambda>v. length v = PQ_SIGNATURE_SIZE) sigs" "length sigs = pqCount (inputs p)"
    "s' = concat sigs @ rest"
    using raw_sig.get_elements_canonical [OF sg] by (simp_all add: put_binary_def)
  show ok: "tx_ok tx"
    using p(1) el prefix_truncate(2,3) [of tx] by (simp add: tx_ok_def p')
  show "s = fst (put_Transaction tx) @ rest"
    using p(2) el(3) by (simp add: put_Transaction_fst [OF ok] p' del: prefix_truncate)
qed

section \<open>Blocks\<close>

definition put_nonce :: "u32 \<Rightarrow> writer" where
  "put_nonce n = put_binary (le_bytes 4 n)"

definition get_nonce :: "u32 reader" where
  "get_nonce = rbind (get_binary 4) (\<lambda>n. rret (le_value n))"

definition put_BlockHeader :: "'a BlockHeader_scheme \<Rightarrow> writer" where
  "put_BlockHeader h =
     wthen (put_uint (majorVersion h))
     (if majorVersion h < BLOCK_MAJOR_VERSION_1 \<or> BLOCK_MAJOR_VERSION_8 < majorVersion h then
        wfail ''Wrong block major version''
      else
        wthen (put_uint (minorVersion h))
        (wthen (put_uint (timestamp h))
        (wthen (put_hash (previousBlockHash h)) (put_nonce (nonce h)))))"

definition get_BlockHeader :: "BlockHeader reader" where
  "get_BlockHeader =
     rbind get_uint (\<lambda>maj.
     if maj < BLOCK_MAJOR_VERSION_1 \<or> BLOCK_MAJOR_VERSION_8 < maj then
       rfail ''Wrong block major version''
     else
       rbind get_uint (\<lambda>mnr.
       rbind get_uint (\<lambda>t.
       rbind get_hash (\<lambda>prev.
       rbind get_nonce (\<lambda>n.
       rret \<lparr>majorVersion = maj, minorVersion = mnr, nonce = n, timestamp = t,
             previousBlockHash = prev\<rparr>)))))"

definition put_Block :: "Block \<Rightarrow> writer" where
  "put_Block b =
     wthen (put_BlockHeader b)
     (wthen (put_PqBlob PQ_SIGNATURE_SIZE (signature b))
     (wthen (put_Transaction (baseTransaction b)) (put_container put_hash (transactionHashes b))))"

definition get_Block :: "Block reader" where
  "get_Block =
     rbind get_BlockHeader (\<lambda>h.
     rbind (get_PqBlob PQ_SIGNATURE_SIZE) (\<lambda>sg.
     rbind get_Transaction (\<lambda>tx.
     rbind (get_container get_hash) (\<lambda>hs.
     rret (BlockHeader.extend h (Block.fields tx sg hs))))))"

definition header_ok :: "'a BlockHeader_scheme \<Rightarrow> bool" where
  "header_ok h \<longleftrightarrow> \<not> majorVersion h < BLOCK_MAJOR_VERSION_1 \<and>
     \<not> BLOCK_MAJOR_VERSION_8 < majorVersion h \<and> length (previousBlockHash h) = HASH_SIZE"

definition block_ok :: "Block \<Rightarrow> bool" where
  "block_ok b \<longleftrightarrow> header_ok b \<and> length (signature b) = PQ_SIGNATURE_SIZE \<and>
     tx_ok (baseTransaction b) \<and> container_ok (\<lambda>h. length h = HASH_SIZE) (transactionHashes b)"

interpretation nonce_codec: codec put_nonce get_nonce "\<lambda>_. True"
proof
  fix n :: u32 and rest s
  show "snd (put_nonce n) = None" by (simp add: put_nonce_def put_binary_def)
  show "get_nonce (fst (put_nonce n) @ rest) = Inr (n, rest)"
    by (simp add: put_nonce_def get_nonce_def put_binary_def get_binary_def rbind_eq_Inr
        read_bytes_Inr_iff exI [of _ "le_bytes 4 n"])
  assume "get_nonce s = Inr (n, rest)"
  then obtain bs where "s = bs @ rest" "length bs = 4" "n = le_value bs"
    by (auto simp: get_nonce_def get_binary_def rbind_eq_Inr read_bytes_Inr_iff)
  then show "s = fst (put_nonce n) @ rest"
    using le_bytes_le_value [of bs, where ?'w = 32] by (simp add: put_nonce_def put_binary_def)
qed simp

interpretation header_codec: codec put_BlockHeader get_BlockHeader header_ok
  by unfold_locales
    (auto simp: put_BlockHeader_def get_BlockHeader_def header_ok_def scalar_facts
       nonce_codec.codec_facts rbind_eq_Inr split: if_splits)

interpretation hashes_codec: codec "put_container put_hash" "get_container get_hash"
  "container_ok (\<lambda>h. length h = HASH_SIZE)"
  by (rule hash_codec.codec_container)

lemma header_truncate [simp]:
  "put_BlockHeader (BlockHeader.truncate b) = put_BlockHeader b"
  "header_ok (BlockHeader.truncate b) \<longleftrightarrow> header_ok b"
  "put_BlockHeader (BlockHeader.extend h x) = put_BlockHeader h"
  "header_ok (BlockHeader.extend h x) \<longleftrightarrow> header_ok h"
  by (simp_all add: put_BlockHeader_def header_ok_def BlockHeader.defs)

lemma block_extend [simp]:
  "BlockHeader.extend (BlockHeader.truncate b)
     (Block.fields (baseTransaction b) (signature b) (transactionHashes b)) = b"
  "BlockHeader.truncate (BlockHeader.extend h x) = h"
  "baseTransaction (BlockHeader.extend h (Block.fields tx sg hs)) = tx"
  "signature (BlockHeader.extend h (Block.fields tx sg hs)) = sg"
  "transactionHashes (BlockHeader.extend h (Block.fields tx sg hs)) = hs"
  by (simp_all add: BlockHeader.defs Block.defs)

interpretation block_codec: codec put_Block get_Block block_ok
proof
  fix b :: Block and rest s
  let ?h = "BlockHeader.truncate b"
  note facts = blob_facts tx_codec.codec_facts hashes_codec.codec_facts
  show "snd (put_Block b) = None" if "block_ok b"
    using that header_codec.enc_ok [of ?h] by (simp add: put_Block_def block_ok_def facts)
  show "get_Block (fst (put_Block b) @ rest) = Inr (b, rest)" if "block_ok b"
    using that header_codec.enc_ok [of ?h] header_codec.dec_enc [of ?h]
    by (simp add: put_Block_def get_Block_def block_ok_def facts)
  assume "get_Block s = Inr (b, rest)"
  then obtain s' where h: "header_ok b" "s = fst (put_BlockHeader b) @ s'"
    and rd: "length (signature b) = PQ_SIGNATURE_SIZE" "tx_ok (baseTransaction b)"
      "container_ok (\<lambda>h. length h = HASH_SIZE) (transactionHashes b)"
      "s' = fst (put_PqBlob PQ_SIGNATURE_SIZE (signature b)) @ fst (put_Transaction (baseTransaction b))
            @ fst (put_container put_hash (transactionHashes b)) @ rest"
    by (auto simp: get_Block_def rbind_eq_Inr header_codec.dec_iff facts)
  then show "block_ok b" by (simp add: block_ok_def)
  show "s = fst (put_Block b) @ rest"
    using h rd header_codec.enc_ok [of ?h] by (simp add: put_Block_def facts)
qed

section \<open>Whole objects\<close>

text \<open>
  \<open>toBinaryArray\<close> reports success and leaves in the array whatever was written before an
  exception; \<open>fromBinaryArray\<close> succeeds only when the whole input was consumed.
\<close>

definition toBinaryArray :: "('a \<Rightarrow> writer) \<Rightarrow> 'a \<Rightarrow> bool \<times> bytes" where
  "toBinaryArray e x = (snd (e x) = None, fst (e x))"

definition fromBinaryArray :: "'a reader \<Rightarrow> bytes \<Rightarrow> 'a option" where
  "fromBinaryArray d bs = (case d bs of Inl _ \<Rightarrow> None | Inr (x, rest) \<Rightarrow> if rest = [] then Some x else None)"

definition getObjectBinarySize :: "('a \<Rightarrow> writer) \<Rightarrow> 'a \<Rightarrow> bool \<times> u64" where
  "getObjectBinarySize e x =
     (let (ok, ba) = toBinaryArray e x in if \<not> ok then (False, - 1) else (True, of_nat (length ba)))"

definition getObjectHash :: "(bytes \<Rightarrow> hash) \<Rightarrow> ('a \<Rightarrow> writer) \<Rightarrow> 'a \<Rightarrow> bool \<times> hash" where
  "getObjectHash cn_fast_hash e x =
     (let (ok, ba) = toBinaryArray e x in if \<not> ok then (False, NULL_HASH) else (True, cn_fast_hash ba))"

definition getOutputAmount :: "Transaction \<Rightarrow> u64" where
  "getOutputAmount tx = fold (\<lambda>out a. a + amount out) (outputs tx) 0"

context codec
begin

lemma fromBinaryArray_iff:
  "fromBinaryArray dec bs = Some x \<longleftrightarrow> ok x \<and> toBinaryArray enc x = (True, bs)"
proof -
  have "fromBinaryArray dec bs = Some x \<longleftrightarrow> dec bs = Inr (x, [])"
    by (auto simp: fromBinaryArray_def split: sum.splits if_splits)
  then show ?thesis by (auto simp: dec_iff toBinaryArray_def enc_ok)
qed

lemma getObjectHash_ok: "ok x \<Longrightarrow> getObjectHash H enc x = (True, H (snd (toBinaryArray enc x)))"
  by (simp add: getObjectHash_def toBinaryArray_def enc_ok)

end

section \<open>Properties\<close>

lemma resolved_key_length:
  assumes "inputs_ok ins" and "InPq p \<in> set ins"
  shows "length (authPub p) = PQ_AUTH_PUB_SIZE"
proof -
  have raw: "raw_input_ok (strip i)" if "i \<in> set ins" for i
    using assms(1) that by (auto simp: inputs_ok_def container_ok_def list_all_iff)
  obtain i where i: "i < length ins" "ins ! i = InPq p"
    using assms(2) by (auto simp: in_set_conv_nth)
  then have res: "ref_resolved ins i" using assms(1) by (simp add: inputs_ok_def)
  have own: "length (authPub q) = PQ_AUTH_PUB_SIZE" if "InPq q \<in> set ins" "keyRef q = PQ_NO_KEY_REF" for q
    using raw [OF that(1)] that(2) by (simp add: strip_def raw_input_ok_def PqInput_ok_def)
  show ?thesis
  proof (cases "keyRef p = PQ_NO_KEY_REF")
    case False
    then obtain q where "unat (keyRef p) < i" "ins ! unat (keyRef p) = InPq q"
      "keyRef q = PQ_NO_KEY_REF" "authPub p = authPub q"
      using res i by (auto simp: ref_resolved_def split: TransactionInput.splits)
    with own [of q] i(1) show ?thesis by (metis less_trans nth_mem)
  qed (use own assms(2) in simp)
qed

text \<open>
  C1. The wire format of transactions is exact: a byte array parses as a transaction if and
  only if the transaction is well-formed and the array is precisely what serializing it
  writes.  So every well-formed transaction survives a round trip, and no second byte string
  decodes to the same transaction: the transaction id is not malleable by re-encoding.
\<close>

theorem transaction_wire_exact:
  "fromBinaryArray get_Transaction bs = Some tx \<longleftrightarrow>
     tx_ok tx \<and> toBinaryArray put_Transaction tx = (True, bs)"
  by (rule tx_codec.fromBinaryArray_iff)

text \<open>
  C28. The same for blocks: header, proof-of-work signature, coinbase transaction and
  transaction hashes are recovered exactly, and only from their own encoding.
\<close>

theorem block_wire_exact:
  "fromBinaryArray get_Block bs = Some b \<longleftrightarrow> block_ok b \<and> toBinaryArray put_Block b = (True, bs)"
  by (rule block_codec.fromBinaryArray_iff)

text \<open>
  C29. Whatever transaction the deserializer accepts, in memory every post-quantum input holds
  a full-size spend key whichever wire form it had, a reference names an earlier key-carrying
  input and holds that input's key, there are at most 256 inputs as soon as one of them is a
  reference, and there is exactly one full-size signature for each key-carrying input.
\<close>

theorem parsed_transaction_populated:
  assumes "fromBinaryArray get_Transaction bs = Some tx"
  shows "(\<forall>p. InPq p \<in> set (inputs tx) \<longrightarrow> length (authPub p) = PQ_AUTH_PUB_SIZE) \<and>
         (\<forall>i < length (inputs tx). ref_resolved (inputs tx) i) \<and>
         length (pqSignatures tx) = length (filter carriesKey (inputs tx)) \<and>
         (\<forall>sg \<in> set (pqSignatures tx). length sg = PQ_SIGNATURE_SIZE)"
proof -
  have ok: "tx_ok tx" using assms by (simp add: tx_codec.fromBinaryArray_iff)
  then have ins: "inputs_ok (inputs tx)" by (simp add: tx_ok_def prefix_ok_def)
  then have "\<forall>i < length (inputs tx). ref_resolved (inputs tx) i" by (simp add: inputs_ok_def)
  with ok resolved_key_length [OF ins] show ?thesis
    by (simp add: tx_ok_def pqCount_def list_all_iff)
qed

definition sample_tx :: Transaction where
  "sample_tx = \<lparr>version = 1, txType = 1, unlockHeight = 0,
     inputs = [InPq \<lparr>prevTxid = replicate 32 7, prevOutIndex = 3, authPub = replicate 1952 5,
                     rhoReveal = replicate 32 1, keyRef = PQ_NO_KEY_REF\<rparr>,
               InPq \<lparr>prevTxid = replicate 32 8, prevOutIndex = 0, authPub = replicate 1952 5,
                     rhoReveal = replicate 32 2, keyRef = 0\<rparr>],
     outputs = [\<lparr>amount = 900, outUnlockHeight = 0,
                 target = OutCoinbase \<lparr>cbSpendCommit = replicate 32 9\<rparr>\<rparr>],
     extra = [], pqSignatures = [replicate 3309 4]\<rparr>"

lemma sample_tx_ok: "tx_ok sample_tx"
  by (simp add: sample_tx_def tx_ok_def prefix_ok_def inputs_ok_def container_ok_def strip_def
      raw_input_ok_def PqInput_ok_def target_ok_def ref_resolved_def pqCount_def size_defs
      TRANSACTION_VERSION_1_def no_ref_0 MAX_STRING_SIZE_def MAX_PQ_GROUPED_INPUTS_PER_TX_def
      less_Suc_eq)

lemma parsed_transaction_populated_witness:
  "fromBinaryArray get_Transaction (snd (toBinaryArray put_Transaction sample_tx)) = Some sample_tx \<and>
   length (pqSignatures sample_tx) = length (filter carriesKey (inputs sample_tx)) \<and>
   ref_resolved (inputs sample_tx) 1"
proof -
  have "toBinaryArray put_Transaction sample_tx
        = (True, snd (toBinaryArray put_Transaction sample_tx))"
    using tx_codec.enc_ok [OF sample_tx_ok] by (simp add: toBinaryArray_def)
  then have p: "fromBinaryArray get_Transaction (snd (toBinaryArray put_Transaction sample_tx))
                = Some sample_tx"
    using sample_tx_ok by (simp add: tx_codec.fromBinaryArray_iff)
  show ?thesis
    using p parsed_transaction_populated [OF p] by (simp add: sample_tx_def)
qed

end
