(* ===== verification/Strings.thy ===== *)
theory Strings
  imports Prelude
begin

text \<open>
  Text helpers: the hexadecimal codec and the delimiter splitters of
  src/src/Common/StringTools.cpp and StringTools.h, and the printing and parsing of coin
  amounts of src/src/Common/FormatTools.cpp.  Text is a HOL string.  Boost's \<open>trim\<close> is a
  parameter of \<open>parseAmount\<close>.
\<close>

section \<open>Hexadecimal\<close>

definition characterValues :: "byte list" where
  "characterValues =
     replicate 48 0xff @ [0x00, 0x01, 0x02, 0x03, 0x04, 0x05, 0x06, 0x07, 0x08, 0x09] @
     replicate 7 0xff @ [0x0a, 0x0b, 0x0c, 0x0d, 0x0e, 0x0f] @ replicate 26 0xff @
     [0x0a, 0x0b, 0x0c, 0x0d, 0x0e, 0x0f] @ replicate 153 0xff"

definition fromHex_char :: "char \<Rightarrow> byte option" where
  "fromHex_char c =
     (let v = characterValues ! of_char c in if 0x0f < v then None else Some v)"

fun fromHex_loop :: "string \<Rightarrow> bytes option" where
  "fromHex_loop [] = Some []"
| "fromHex_loop [c] = None"
| "fromHex_loop (c1 # c2 # text) =
     (case fromHex_char c1 of None \<Rightarrow> None
      | Some v1 \<Rightarrow> (case fromHex_char c2 of None \<Rightarrow> None
          | Some v2 \<Rightarrow> map_option ((#) (push_bit 4 v1 OR v2)) (fromHex_loop text)))"

definition fromHex :: "string \<Rightarrow> nat \<Rightarrow> bytes option" where
  "fromHex text bufferSize =
     (if odd (length text) then None
      else if bufferSize < length text div 2 then None
      else fromHex_loop text)"

definition fromHex_vector :: "string \<Rightarrow> bytes option" where
  "fromHex_vector text = (if odd (length text) then None else fromHex_loop text)"

definition podFromHex :: "nat \<Rightarrow> string \<Rightarrow> bytes option" where
  "podFromHex sz text =
     (case fromHex text sz of None \<Rightarrow> None
      | Some bs \<Rightarrow> if length bs = sz then Some bs else None)"

definition hexChars :: string where
  "hexChars = ''0123456789abcdef''"

definition toHex :: "bytes \<Rightarrow> string" where
  "toHex data = concat (map (\<lambda>b. [hexChars ! unat (drop_bit 4 b), hexChars ! unat (b AND 15)]) data)"

lemma hex_digit_table: "\<forall>n \<in> set [0..<16]. fromHex_char (hexChars ! n) = Some (word_of_nat n)"
  by code_simp

lemma fromHex_hexChars:
  assumes "unat v < 16"
  shows "fromHex_char (hexChars ! unat v) = Some (v :: byte)"
proof -
  have "unat v \<in> set [0..<16]" using assms by simp
  with hex_digit_table have "fromHex_char (hexChars ! unat v) = Some (word_of_nat (unat v))" by blast
  then show ?thesis by simp
qed

lemma nibbles: "unat (drop_bit 4 b) < 16" "unat (b AND 15) < 16"
  "push_bit 4 (drop_bit 4 b) OR (b AND 15) = (b :: byte)"
proof -
  have "unat (drop_bit 4 b) = unat b div 2 ^ 4" by (rule unat_drop_bit_div)
  then show "unat (drop_bit 4 b) < 16"
    using unat_byte_bound [of b] by (simp add: less_mult_imp_div_less)
  have m: "b AND 15 = take_bit 4 b" by (simp add: take_bit_eq_mask mask_eq_exp_minus_1)
  then have "unat (b AND 15) = unat b mod 2 ^ 4" by (simp only: unat_take_bit_mod)
  then show "unat (b AND 15) < 16" by simp
  show "push_bit 4 (drop_bit 4 b) OR (b AND 15) = b"
    unfolding m by (rule bit_eqI) (auto simp: bit_simps)
qed

lemma toHex_simps [simp]:
  "toHex [] = []"
  "toHex (b # bs) = hexChars ! unat (drop_bit 4 b) # hexChars ! unat (b AND 15) # toHex bs"
  by (simp_all add: toHex_def)

lemma length_toHex [simp]: "length (toHex bs) = 2 * length bs"
  by (induction bs) simp_all

lemma fromHex_loop_toHex: "fromHex_loop (toHex bs) = Some bs"
  by (induction bs) (simp_all add: fromHex_hexChars nibbles)

lemma fromHex_loop_length: "fromHex_loop t = Some bs \<Longrightarrow> length t = 2 * length bs"
  by (induction t arbitrary: bs rule: fromHex_loop.induct) (auto split: option.splits)

section \<open>Delimiters\<close>

fun find_char :: "char \<Rightarrow> string \<Rightarrow> nat option" where
  "find_char d [] = None"
| "find_char d (c # cs) = (if c = d then Some 0 else map_option Suc (find_char d cs))"

definition substr :: "string \<Rightarrow> nat \<Rightarrow> nat \<Rightarrow> string" where
  "substr s pos n = take n (drop pos s)"

text \<open>\<open>std::string extract(std::string& text, char delimiter)\<close>: the piece and the text left.\<close>

definition extract_front :: "string \<Rightarrow> char \<Rightarrow> string \<times> string" where
  "extract_front s d =
     (case find_char d s of
        Some p \<Rightarrow> (substr s 0 p, drop (p + 1) s)
      | None \<Rightarrow> (s, []))"

text \<open>
  \<open>std::string extract(const std::string& text, char delimiter, size_t& offset)\<close>: the piece
  and the new offset.  The offset is moved before it is used as the start of the piece.
\<close>

definition extract_at :: "string \<Rightarrow> char \<Rightarrow> nat \<Rightarrow> string \<times> nat" where
  "extract_at s d offset =
     (case find_char d (drop offset s) of
        Some p \<Rightarrow> (let pos = offset + p; off = pos + 1 in (substr s off pos, off))
      | None \<Rightarrow> (let off = length s in (drop off s, off)))"

lemma find_char_notin: "d \<notin> set s \<Longrightarrow> find_char d s = None"
  by (induction s) auto

lemma find_char_append: "d \<notin> set xs \<Longrightarrow> find_char d (xs @ d # ys) = Some (length xs)"
  by (induction xs) auto

lemma find_char_Some: "find_char d s = Some p \<Longrightarrow> p < length s \<and> s ! p = d \<and> d \<notin> set (take p s)"
  by (induction s arbitrary: p) (auto split: if_splits)

lemma extract_at_progress: "offset < length s \<Longrightarrow> offset < snd (extract_at s d offset)"
  by (auto simp: extract_at_def Let_def split: option.split)

text \<open>
  \<open>fromDelimitedString\<close> (the non-throwing form), over the \<open>fromString\<close> of the element type.  The
  guard on \<open>offset\<close> is the loop's, whose offset starts at 0 and never passes the end.
\<close>

function fromDelimited_loop :: "(string \<Rightarrow> 'a option) \<Rightarrow> char \<Rightarrow> string \<Rightarrow> nat \<Rightarrow> 'a list \<Rightarrow> 'a list option" where
  "fromDelimited_loop fromString d s offset acc =
     (if length s \<le> offset then Some acc
      else let (piece, off) = extract_at s d offset in
        (case fromString piece of None \<Rightarrow> None
         | Some v \<Rightarrow> fromDelimited_loop fromString d s off (acc @ [v])))"
  by pat_completeness auto
termination
  by (relation "measure (\<lambda>(_, _, s, offset, _). length s - offset)")
    (auto, metis diff_less_mono2 extract_at_progress not_le snd_conv)

declare fromDelimited_loop.simps [simp del]

definition fromDelimitedString :: "(string \<Rightarrow> 'a option) \<Rightarrow> char \<Rightarrow> string \<Rightarrow> 'a list option" where
  "fromDelimitedString fromString d s = fromDelimited_loop fromString d s 0 []"

lemma extract_at_last:
  assumes "offset < length s" and "length s \<le> snd (extract_at s d offset)"
  shows "fst (extract_at s d offset) = []"
  using assms by (auto simp: extract_at_def Let_def substr_def split: option.splits)

lemma fromDelimited_loop_fails:
  assumes "fromString [] = None" and "offset < length s"
  shows "fromDelimited_loop fromString d s offset acc = None"
  using assms
proof (induction fromString d s offset acc rule: fromDelimited_loop.induct)
  case (1 fromString d s offset acc)
  obtain piece off where e: "extract_at s d offset = (piece, off)" by fastforce
  show ?case
  proof (cases "length s \<le> off")
    case True
    with extract_at_last [of offset s d] e 1 have "piece = []" by simp
    with 1 e show ?thesis by (subst fromDelimited_loop.simps) simp
  next
    case False
    then show ?thesis
      using 1 e by (subst fromDelimited_loop.simps) (auto split: option.split)
  qed
qed

section \<open>Amounts\<close>

definition CRYPTONOTE_DISPLAY_DECIMAL_POINT :: nat where
  "CRYPTONOTE_DISPLAY_DECIMAL_POINT = 2"

abbreviation numberOfDecimalPlaces :: nat where
  "numberOfDecimalPlaces \<equiv> CRYPTONOTE_DISPLAY_DECIMAL_POINT"

definition digit :: "nat \<Rightarrow> char" where
  "digit n = char_of (48 + n)"

definition isdigit :: "char \<Rightarrow> bool" where
  "isdigit c \<longleftrightarrow> 48 \<le> (of_char c :: nat) \<and> (of_char c :: nat) \<le> 57"

text \<open>\<open>std::to_string\<close> of an unsigned number, and the value of a string of digits.\<close>

fun to_string :: "nat \<Rightarrow> string" where
  "to_string n = (if n < 10 then [digit n] else to_string (n div 10) @ [digit (n mod 10)])"

declare to_string.simps [simp del]

definition digits_value :: "string \<Rightarrow> nat" where
  "digits_value s = foldl (\<lambda>v c. 10 * v + (of_char c - 48)) 0 s"

definition fromString_u64 :: "string \<Rightarrow> u64 option" where
  "fromString_u64 s = (let v = digits_value s in if v < 2 ^ 64 then Some (of_nat v) else None)"

definition formatAmount :: "u64 \<Rightarrow> string" where
  "formatAmount a =
     (let s = to_string (unat a);
          s = (if length s < numberOfDecimalPlaces + 1
               then replicate (numberOfDecimalPlaces + 1 - length s) (CHR ''0'') @ s else s);
          p = length s - numberOfDecimalPlaces
      in take p s @ ''.'' @ drop p s)"

definition formatAmount_signed :: "64 word \<Rightarrow> string" where
  "formatAmount_signed a =
     (let s = formatAmount (word_of_int \<bar>sint a\<bar>) in if sint a < 0 then ''-'' @ s else s)"

text \<open>The loop that drops trailing zeros beyond the displayed decimals.\<close>

fun drop_zeros :: "nat \<Rightarrow> string \<Rightarrow> nat \<times> string" where
  "drop_zeros 0 s = (0, s)"
| "drop_zeros (Suc n) s =
     (if numberOfDecimalPlaces < Suc n \<and> last s = CHR ''0'' then drop_zeros n (butlast s) else (Suc n, s))"

definition parseAmount :: "(string \<Rightarrow> string) \<Rightarrow> string \<Rightarrow> u64 option" where
  "parseAmount trim str =
     (let s = trim str in
      case (case find_char (CHR ''.'') s of
              Some p \<Rightarrow>
                let (fractionSize, s) = drop_zeros (length s - p - 1) s
                in if numberOfDecimalPlaces < fractionSize then None
                   else Some (fractionSize, take p s @ drop (p + 1) s)
            | None \<Rightarrow> Some (0, s)) of
        None \<Rightarrow> None
      | Some (fractionSize, s) \<Rightarrow>
          if s = [] then None
          else if \<not> list_all isdigit s then None
          else fromString_u64
                 (if fractionSize < numberOfDecimalPlaces
                  then s @ replicate (numberOfDecimalPlaces - fractionSize) (CHR ''0'') else s))"

lemma isdigit_digit: "n < 10 \<Longrightarrow> isdigit (digit n)" "n < 10 \<Longrightarrow> of_char (digit n) = 48 + n"
  by (simp_all add: digit_def isdigit_def)

lemma digits_value_append: "digits_value (s @ [c]) = 10 * digits_value s + (of_char c - 48)"
  by (simp add: digits_value_def)

lemma to_string_correct: "digits_value (to_string n) = n \<and> list_all isdigit (to_string n) \<and> to_string n \<noteq> []"
proof (induction n rule: to_string.induct)
  case (1 n)
  then show ?case
    by (subst (1 2 3) to_string.simps)
      (auto simp: digits_value_append isdigit_digit, simp_all add: digits_value_def isdigit_digit)
qed

lemma digits_value_zeros: "digits_value (replicate k (CHR ''0'') @ s) = digits_value s"
proof -
  have "foldl (\<lambda>v c. 10 * v + (of_char c - 48)) 0 (replicate k (CHR ''0'')) = (0 :: nat)"
    by (induction k) simp_all
  then show ?thesis by (simp add: digits_value_def)
qed

definition isspace :: "char \<Rightarrow> bool" where
  "isspace c \<longleftrightarrow> of_char c = (32 :: nat) \<or> (9 \<le> (of_char c :: nat) \<and> (of_char c :: nat) \<le> 13)"

lemma isdigit_facts: "isdigit c \<Longrightarrow> \<not> isspace c" "isdigit c \<Longrightarrow> c \<noteq> CHR ''.''" "isdigit (CHR ''0'')"
  by (auto simp: isdigit_def isspace_def)

text \<open>The padded digits a printed amount consists of.\<close>

lemma formatAmount_shape:
  obtains xs ys where "formatAmount a = xs @ CHR ''.'' # ys" "length ys = numberOfDecimalPlaces"
    "xs \<noteq> []" "list_all isdigit (xs @ ys)" "digits_value (xs @ ys) = unat a"
proof -
  define k where "k = numberOfDecimalPlaces + 1 - length (to_string (unat a))"
  define s where "s = replicate k (CHR ''0'') @ to_string (unat a)"
  define p where "p = length s - numberOfDecimalPlaces"
  have len: "numberOfDecimalPlaces + 1 \<le> length s"
    by (simp add: s_def k_def)
  have dig: "list_all isdigit s" "digits_value s = unat a"
    using to_string_correct [of "unat a"]
    by (auto simp: s_def digits_value_zeros isdigit_facts list_all_iff)
  have "formatAmount a = take p s @ CHR ''.'' # drop p s"
    by (auto simp: formatAmount_def s_def k_def p_def Let_def)
  moreover have "length (drop p s) = numberOfDecimalPlaces" "take p s \<noteq> []"
    using len by (auto simp: p_def)
  ultimately show thesis using that [of "take p s" "drop p s"] dig by simp
qed

section \<open>Properties\<close>

text \<open>
  Printing an amount and parsing the text back gives the amount, for every 64-bit value,
  whatever \<open>trim\<close> does as long as it leaves alone a text with no white space at its ends.
\<close>

theorem parse_format_amount:
  assumes trim: "\<And>s. s \<noteq> [] \<Longrightarrow> \<not> isspace (hd s) \<Longrightarrow> \<not> isspace (last s) \<Longrightarrow> trim s = s"
  shows "parseAmount trim (formatAmount a) = Some a"
proof -
  obtain xs ys where f: "formatAmount a = xs @ CHR ''.'' # ys" "length ys = numberOfDecimalPlaces"
    "xs \<noteq> []" "list_all isdigit (xs @ ys)" "digits_value (xs @ ys) = unat a"
    by (rule formatAmount_shape)
  have ys: "ys \<noteq> []" using f(2) by (auto simp: CRYPTONOTE_DISPLAY_DECIMAL_POINT_def)
  have "isdigit (hd xs)" "isdigit (last ys)"
    using f(3,4) ys by (auto simp: list_all_iff hd_in_set)
  then have t: "trim (formatAmount a) = formatAmount a"
    unfolding f(1) using f(3) ys by (intro trim) (auto simp: isdigit_facts)
  have "CHR ''.'' \<notin> set xs" using f(4) isdigit_facts(2) by (auto simp: list_all_iff)
  then have "find_char (CHR ''.'') (formatAmount a) = Some (length xs)"
    unfolding f(1) by (rule find_char_append)
  moreover have "drop_zeros (length ys) s = (length ys, s)" for s
    by (simp add: f(2) CRYPTONOTE_DISPLAY_DECIMAL_POINT_def eval_nat_numeral)
  ultimately have "parseAmount trim (formatAmount a) = fromString_u64 (xs @ ys)"
    using f(3,4) by (simp add: parseAmount_def t, simp add: f(1,2))
  then show ?thesis
    using unsigned_less [of a, where ?'a = nat] by (simp add: fromString_u64_def f(5))
qed

lemma parse_format_amount_witness: "parseAmount (\<lambda>s. s) (formatAmount 1205) = Some 1205"
  by (rule parse_format_amount) simp

text \<open>
  Hexadecimal text is a faithful image of the bytes: decoding what was encoded gives the
  bytes back, provided the buffer is large enough, and a fixed-size value is only read from a
  text of exactly the right length.
\<close>

theorem hex_round_trip:
  "fromHex (toHex bs) sz = (if length bs \<le> sz then Some bs else None) \<and>
   podFromHex sz (toHex bs) = (if length bs = sz then Some bs else None)"
  by (auto simp: podFromHex_def fromHex_def fromHex_loop_toHex)

text \<open>
  C33. The splitter over a delimited text never succeeds on a non-empty text, for any element
  parser that rejects the empty string: \<open>extract\<close> moves the offset before it cuts the piece, so
  the last piece is always empty.
\<close>

theorem fromDelimitedString_never_succeeds:
  assumes "fromString [] = None" and "s \<noteq> []"
  shows "fromDelimitedString fromString d s = None"
  using assms fromDelimited_loop_fails [of fromString 0 s d "[]"]
  by (simp add: fromDelimitedString_def)

lemma fromDelimitedString_never_succeeds_witness:
  "fromDelimitedString (\<lambda>t. if t = [] then None else Some t) (CHR '','') ''1,2'' = None"
  by (rule fromDelimitedString_never_succeeds) simp_all

end
