(* ===== verification/Tx_Extra.thy ===== *)
theory Tx_Extra
  imports Tx_Wire Strings
begin

text \<open>
  The \<open>tx_extra\<close> field list: src/src/CryptoNoteCore/TransactionExtra.h and TransactionExtra.cpp.
  A parse reports success together with the fields pushed so far, because several accessors
  use the fields of a failed parse.  An unknown tag byte is skipped and gives no field.
\<close>

section \<open>Fields\<close>

definition TX_EXTRA_PADDING_MAX_COUNT :: nat where "TX_EXTRA_PADDING_MAX_COUNT = 255"
definition TX_EXTRA_NONCE_MAX_COUNT :: nat where "TX_EXTRA_NONCE_MAX_COUNT = 255"
definition TX_EXTRA_TAG_PADDING :: byte where "TX_EXTRA_TAG_PADDING = 0x00"
definition TX_EXTRA_TAG_PUBKEY :: byte where "TX_EXTRA_TAG_PUBKEY = 0x01"
definition TX_EXTRA_NONCE :: byte where "TX_EXTRA_NONCE = 0x02"
definition TX_EXTRA_MERGE_MINING_TAG :: byte where "TX_EXTRA_MERGE_MINING_TAG = 0x03"
definition TX_EXTRA_TAG_ACCOUNT_REGISTRATION :: byte where "TX_EXTRA_TAG_ACCOUNT_REGISTRATION = 0x04"
definition TX_EXTRA_TAG_PQ_ACCOUNT_REGISTRATION :: byte where "TX_EXTRA_TAG_PQ_ACCOUNT_REGISTRATION = 0x05"
definition TX_EXTRA_TAG_POW :: byte where "TX_EXTRA_TAG_POW = 0x06"
definition TX_EXTRA_TAG_PQ_MINER_SPEND_PUB :: byte where "TX_EXTRA_TAG_PQ_MINER_SPEND_PUB = 0x07"
definition TX_EXTRA_NONCE_PAYMENT_ID :: byte where "TX_EXTRA_NONCE_PAYMENT_ID = 0x00"
definition TX_EXTRA_PQ_VIEW_PUBKEY_SIZE :: nat where "TX_EXTRA_PQ_VIEW_PUBKEY_SIZE = 1184"
definition TX_EXTRA_PQ_SPEND_PUBKEY_SIZE :: nat where "TX_EXTRA_PQ_SPEND_PUBKEY_SIZE = 1952"

lemmas extra_tags = TX_EXTRA_TAG_PADDING_def TX_EXTRA_TAG_PUBKEY_def TX_EXTRA_NONCE_def
  TX_EXTRA_MERGE_MINING_TAG_def TX_EXTRA_TAG_ACCOUNT_REGISTRATION_def
  TX_EXTRA_TAG_PQ_ACCOUNT_REGISTRATION_def TX_EXTRA_TAG_POW_def TX_EXTRA_TAG_PQ_MINER_SPEND_PUB_def

lemmas extra_sizes = TX_EXTRA_PQ_VIEW_PUBKEY_SIZE_def TX_EXTRA_PQ_SPEND_PUBKEY_SIZE_def HASH_SIZE_def

datatype TransactionExtraField =
    ExtraPadding nat
  | ExtraPublicKey bytes
  | ExtraNonce bytes
  | ExtraMergeMiningTag u64 hash
  | ExtraAccountRegistration bytes bytes
  | ExtraPqAccountRegistration bytes bytes
  | ExtraPow hash u64
  | ExtraPqMinerSpendPub bytes

section \<open>Parsing\<close>

text \<open>The padding loop: \<open>size\<close> counts the tag byte; at most 255 zero bytes in all.\<close>

function parse_padding :: "nat \<Rightarrow> nat reader" where
  "parse_padding sz s =
     (if s = [] \<or> TX_EXTRA_PADDING_MAX_COUNT < sz then
        (if TX_EXTRA_PADDING_MAX_COUNT < sz then rfail ''padding too long'' s else rret sz s)
      else if hd s \<noteq> 0 then rfail ''padding not zero'' s
      else parse_padding (sz + 1) (tl s))"
  by pat_completeness auto
termination by (relation "measure (\<lambda>(_, s). length s)") auto

declare parse_padding.simps [simp del]

definition get_nonce_field :: "bytes reader" where
  "get_nonce_field = rbind read_u8 (\<lambda>sz. if 0 < sz then read_bytes (unat sz) else rret [])"

text \<open>The merge-mining tag is a string that holds the depth and the root.\<close>

definition put_mmTag :: "u64 \<times> hash \<Rightarrow> writer" where
  "put_mmTag t = put_string (fst (wthen (put_uint (fst t)) (put_hash (snd t))))"

definition get_mmTag :: "(u64 \<times> hash) reader" where
  "get_mmTag = rbind get_string (\<lambda>field.
     rlift (case rbind get_uint (\<lambda>depth. rbind get_hash (\<lambda>root. rret (depth, root))) field of
              Inl e \<Rightarrow> Inl e | Inr (t, _) \<Rightarrow> Inr t))"

definition get_pow :: "(hash \<times> u64) reader" where
  "get_pow = rbind get_hash (\<lambda>h. rbind (read_bytes 8) (\<lambda>le. rret (h, le_value le)))"

definition parse_field :: "byte \<Rightarrow> TransactionExtraField option reader" where
  "parse_field c =
     (if c = TX_EXTRA_TAG_PADDING then rbind (parse_padding 1) (\<lambda>n. rret (Some (ExtraPadding n)))
      else if c = TX_EXTRA_TAG_PUBKEY then rbind get_hash (\<lambda>k. rret (Some (ExtraPublicKey k)))
      else if c = TX_EXTRA_NONCE then rbind get_nonce_field (\<lambda>n. rret (Some (ExtraNonce n)))
      else if c = TX_EXTRA_MERGE_MINING_TAG then
        rbind get_mmTag (\<lambda>(d, r). rret (Some (ExtraMergeMiningTag d r)))
      else if c = TX_EXTRA_TAG_ACCOUNT_REGISTRATION then
        rbind get_hash (\<lambda>s. rbind get_hash (\<lambda>v. rret (Some (ExtraAccountRegistration s v))))
      else if c = TX_EXTRA_TAG_PQ_ACCOUNT_REGISTRATION then
        rbind (read_bytes TX_EXTRA_PQ_VIEW_PUBKEY_SIZE) (\<lambda>v.
        rbind (read_bytes TX_EXTRA_PQ_SPEND_PUBKEY_SIZE) (\<lambda>s.
        rret (Some (ExtraPqAccountRegistration v s))))
      else if c = TX_EXTRA_TAG_POW then rbind get_pow (\<lambda>(h, n). rret (Some (ExtraPow h n)))
      else if c = TX_EXTRA_TAG_PQ_MINER_SPEND_PUB then
        rbind (read_bytes TX_EXTRA_PQ_SPEND_PUBKEY_SIZE) (\<lambda>s. rret (Some (ExtraPqMinerSpendPub s)))
      else rret None)"

lemma parse_padding_rest: "parse_padding n s = Inr (m, s') \<Longrightarrow> length s' \<le> length s"
  by (induction n s rule: parse_padding.induct)
    (subst (asm) (2) parse_padding.simps, auto simp: rfail_def rret_def split: if_splits)

lemma parse_field_rest: "parse_field c s = Inr (f, s') \<Longrightarrow> length s' \<le> length s"
  by (auto simp: parse_field_def rbind_eq_Inr get_nonce_field_def get_mmTag_def get_pow_def
      scalar_facts read_bytes_Inr_iff read_u8_eq dest: parse_padding_rest split: if_splits list.splits)

function parseExtra_loop :: "bytes \<Rightarrow> TransactionExtraField list \<Rightarrow> bool \<times> TransactionExtraField list" where
  "parseExtra_loop [] fs = (True, fs)"
| "parseExtra_loop (c # s) fs =
     (case parse_field c s of
        Inl _ \<Rightarrow> (False, fs)
      | Inr (None, s') \<Rightarrow> parseExtra_loop s' fs
      | Inr (Some f, s') \<Rightarrow> parseExtra_loop s' (fs @ [f]))"
  by pat_completeness auto
termination
  by (relation "measure (\<lambda>(s, _). length s)") (auto dest: parse_field_rest simp: le_imp_less_Suc)

definition parseTransactionExtra :: "bytes \<Rightarrow> bool \<times> TransactionExtraField list" where
  "parseTransactionExtra ex = (if ex = [] then (True, []) else parseExtra_loop ex [])"

section \<open>Writing\<close>

definition addTransactionPublicKeyToExtra :: "bytes \<Rightarrow> bytes \<Rightarrow> bool \<times> bytes" where
  "addTransactionPublicKeyToExtra ex k = (True, ex @ TX_EXTRA_TAG_PUBKEY # k)"

definition addExtraNonceToTransactionExtra :: "bytes \<Rightarrow> bytes \<Rightarrow> bool \<times> bytes" where
  "addExtraNonceToTransactionExtra ex n =
     (if TX_EXTRA_NONCE_MAX_COUNT < length n then (False, ex)
      else (True, ex @ TX_EXTRA_NONCE # of_nat (length n) # n))"

definition appendMergeMiningTagToExtra :: "bytes \<Rightarrow> u64 \<times> hash \<Rightarrow> bool \<times> bytes" where
  "appendMergeMiningTagToExtra ex t =
     (let (ok, blob) = toBinaryArray put_mmTag t
      in if \<not> ok then (False, ex) else (True, ex @ TX_EXTRA_MERGE_MINING_TAG # blob))"

definition addAccountRegistrationToExtra :: "bytes \<Rightarrow> bytes \<Rightarrow> bytes \<Rightarrow> bool \<times> bytes" where
  "addAccountRegistrationToExtra ex spendKey viewKey =
     (True, ex @ TX_EXTRA_TAG_ACCOUNT_REGISTRATION # spendKey @ viewKey)"

definition addPqAccountRegistrationToExtra :: "bytes \<Rightarrow> bytes \<Rightarrow> bytes \<Rightarrow> bool \<times> bytes" where
  "addPqAccountRegistrationToExtra ex viewPub spendPub =
     (True, ex @ TX_EXTRA_TAG_PQ_ACCOUNT_REGISTRATION # viewPub @ spendPub)"

definition appendPowTagToExtra :: "bytes \<Rightarrow> hash \<Rightarrow> u64 \<Rightarrow> bool \<times> bytes" where
  "appendPowTagToExtra ex refBlockHash n = (True, ex @ TX_EXTRA_TAG_POW # refBlockHash @ le_bytes 8 n)"

definition addPqMinerSpendPubToExtra :: "bytes \<Rightarrow> bytes \<Rightarrow> bool \<times> bytes" where
  "addPqMinerSpendPubToExtra ex spendPub = (True, ex @ TX_EXTRA_TAG_PQ_MINER_SPEND_PUB # spendPub)"

definition write_field :: "bytes \<Rightarrow> TransactionExtraField \<Rightarrow> bool \<times> bytes" where
  "write_field ex f =
     (case f of
        ExtraPadding n \<Rightarrow>
          if TX_EXTRA_PADDING_MAX_COUNT < n then (False, ex) else (True, ex @ replicate n 0)
      | ExtraPublicKey k \<Rightarrow> addTransactionPublicKeyToExtra ex k
      | ExtraNonce n \<Rightarrow> addExtraNonceToTransactionExtra ex n
      | ExtraMergeMiningTag d r \<Rightarrow> appendMergeMiningTagToExtra ex (d, r)
      | ExtraAccountRegistration s v \<Rightarrow> addAccountRegistrationToExtra ex s v
      | ExtraPqAccountRegistration v s \<Rightarrow> addPqAccountRegistrationToExtra ex v s
      | ExtraPow h n \<Rightarrow> appendPowTagToExtra ex h n
      | ExtraPqMinerSpendPub s \<Rightarrow> addPqMinerSpendPubToExtra ex s)"

fun writeTransactionExtra :: "bytes \<Rightarrow> TransactionExtraField list \<Rightarrow> bool \<times> bytes" where
  "writeTransactionExtra ex [] = (True, ex)"
| "writeTransactionExtra ex (f # fs) =
     (case write_field ex f of (ok, ex') \<Rightarrow> if \<not> ok then (False, ex') else writeTransactionExtra ex' fs)"

section \<open>Accessors\<close>

fun findField :: "(TransactionExtraField \<Rightarrow> 'a option) \<Rightarrow> TransactionExtraField list \<Rightarrow> 'a option" where
  "findField sel [] = None"
| "findField sel (f # fs) = (case sel f of None \<Rightarrow> findField sel fs | Some v \<Rightarrow> Some v)"

definition as_pubkey :: "TransactionExtraField \<Rightarrow> bytes option" where
  "as_pubkey f = (case f of ExtraPublicKey k \<Rightarrow> Some k | _ \<Rightarrow> None)"

definition as_nonce :: "TransactionExtraField \<Rightarrow> bytes option" where
  "as_nonce f = (case f of ExtraNonce n \<Rightarrow> Some n | _ \<Rightarrow> None)"

definition as_mmTag :: "TransactionExtraField \<Rightarrow> (u64 \<times> hash) option" where
  "as_mmTag f = (case f of ExtraMergeMiningTag d r \<Rightarrow> Some (d, r) | _ \<Rightarrow> None)"

definition as_reg :: "TransactionExtraField \<Rightarrow> (bytes \<times> bytes) option" where
  "as_reg f = (case f of ExtraAccountRegistration s v \<Rightarrow> Some (s, v) | _ \<Rightarrow> None)"

definition as_pqReg :: "TransactionExtraField \<Rightarrow> (bytes \<times> bytes) option" where
  "as_pqReg f = (case f of ExtraPqAccountRegistration v s \<Rightarrow> Some (v, s) | _ \<Rightarrow> None)"

definition as_pow :: "TransactionExtraField \<Rightarrow> (hash \<times> u64) option" where
  "as_pow f = (case f of ExtraPow h n \<Rightarrow> Some (h, n) | _ \<Rightarrow> None)"

definition as_minerPub :: "TransactionExtraField \<Rightarrow> bytes option" where
  "as_minerPub f = (case f of ExtraPqMinerSpendPub s \<Rightarrow> Some s | _ \<Rightarrow> None)"

lemmas as_defs = as_pubkey_def as_nonce_def as_mmTag_def as_reg_def as_pqReg_def as_pow_def
  as_minerPub_def

text \<open>These two look for the field whether or not the parse succeeded.\<close>

definition getTransactionPublicKeyFromExtra :: "bytes \<Rightarrow> bytes" where
  "getTransactionPublicKeyFromExtra ex =
     (case findField as_pubkey (snd (parseTransactionExtra ex)) of
        None \<Rightarrow> replicate HASH_SIZE 0 | Some k \<Rightarrow> k)"

definition getMergeMiningTagFromExtra :: "bytes \<Rightarrow> (u64 \<times> hash) option" where
  "getMergeMiningTagFromExtra ex = findField as_mmTag (snd (parseTransactionExtra ex))"

text \<open>The others require a complete parse.\<close>

definition get_parsed :: "(TransactionExtraField \<Rightarrow> 'a option) \<Rightarrow> bytes \<Rightarrow> 'a option" where
  "get_parsed sel ex =
     (case parseTransactionExtra ex of (ok, fs) \<Rightarrow> if \<not> ok then None else findField sel fs)"

definition getAccountRegistrationFromExtra :: "bytes \<Rightarrow> (bytes \<times> bytes) option" where
  "getAccountRegistrationFromExtra = get_parsed as_reg"

definition getPqAccountRegistrationFromExtra :: "bytes \<Rightarrow> (bytes \<times> bytes) option" where
  "getPqAccountRegistrationFromExtra = get_parsed as_pqReg"

definition getPowTagFromExtra :: "bytes \<Rightarrow> (hash \<times> u64) option" where
  "getPowTagFromExtra = get_parsed as_pow"

definition getPqMinerSpendPubFromExtra :: "bytes \<Rightarrow> bytes option" where
  "getPqMinerSpendPubFromExtra = get_parsed as_minerPub"

definition setPaymentIdToTransactionExtraNonce :: "hash \<Rightarrow> bytes" where
  "setPaymentIdToTransactionExtraNonce h = TX_EXTRA_NONCE_PAYMENT_ID # h"

definition getPaymentIdFromTransactionExtraNonce :: "bytes \<Rightarrow> hash option" where
  "getPaymentIdFromTransactionExtraNonce n =
     (if length n \<noteq> HASH_SIZE + 1 then None
      else if hd n \<noteq> TX_EXTRA_NONCE_PAYMENT_ID then None
      else Some (tl n))"

definition getPaymentIdFromTxExtra :: "bytes \<Rightarrow> hash option" where
  "getPaymentIdFromTxExtra ex =
     (case get_parsed as_nonce ex of None \<Rightarrow> None | Some n \<Rightarrow> getPaymentIdFromTransactionExtraNonce n)"

definition createTxExtraWithPaymentId :: "string \<Rightarrow> bytes \<Rightarrow> bool \<times> bytes" where
  "createTxExtraWithPaymentId paymentIdString ex =
     (case podFromHex HASH_SIZE paymentIdString of
        None \<Rightarrow> (False, ex)
      | Some h \<Rightarrow> addExtraNonceToTransactionExtra ex (setPaymentIdToTransactionExtraNonce h))"

definition isWellFormedAccountRegistration :: "bytes \<Rightarrow> bool" where
  "isWellFormedAccountRegistration ex =
     (case parseTransactionExtra ex of (ok, fs) \<Rightarrow>
        ok \<and> length (filter (\<lambda>f. as_reg f \<noteq> None) fs) = 1 \<and> list_all (\<lambda>f. as_nonce f = None) fs \<and>
        (case findField as_reg fs of None \<Rightarrow> False
         | Some (s, v) \<Rightarrow> s \<noteq> replicate HASH_SIZE 0 \<and> v \<noteq> replicate HASH_SIZE 0))"

definition isPowTagLastField :: "bytes \<Rightarrow> bool" where
  "isPowTagLastField ex =
     (case parseTransactionExtra ex of (ok, fs) \<Rightarrow>
        ok \<and> fs \<noteq> [] \<and> length (filter (\<lambda>f. as_pow f \<noteq> None) fs) = 1 \<and> as_pow (last fs) \<noteq> None)"

definition kRegPayload :: nat where
  "kRegPayload = TX_EXTRA_PQ_VIEW_PUBKEY_SIZE + TX_EXTRA_PQ_SPEND_PUBKEY_SIZE"

definition kPowPayload :: nat where
  "kPowPayload = HASH_SIZE + 8"

definition isCanonicalFreeRegExtra :: "bytes \<Rightarrow> bool" where
  "isCanonicalFreeRegExtra ex \<longleftrightarrow>
     length ex = 1 + kRegPayload + 1 + kPowPayload \<and>
     ex ! 0 = TX_EXTRA_TAG_PQ_ACCOUNT_REGISTRATION \<and>
     ex ! (1 + kRegPayload) = TX_EXTRA_TAG_POW"

definition getPqAccountIdentityHash :: "(bytes \<Rightarrow> hash) \<Rightarrow> bytes \<Rightarrow> bytes \<Rightarrow> hash" where
  "getPqAccountIdentityHash sha3_256 viewPub spendPub =
     sha3_256 (map of_char ''discrete-pq-account-id-v1'' @ viewPub @ spendPub)"

section \<open>Written fields parse back\<close>

definition field_ok :: "TransactionExtraField \<Rightarrow> bool" where
  "field_ok f =
     (case f of
        ExtraPadding _ \<Rightarrow> False
      | ExtraPublicKey k \<Rightarrow> length k = HASH_SIZE
      | ExtraNonce n \<Rightarrow> length n \<le> TX_EXTRA_NONCE_MAX_COUNT
      | ExtraMergeMiningTag _ r \<Rightarrow> length r = HASH_SIZE
      | ExtraAccountRegistration s v \<Rightarrow> length s = HASH_SIZE \<and> length v = HASH_SIZE
      | ExtraPqAccountRegistration v s \<Rightarrow>
          length v = TX_EXTRA_PQ_VIEW_PUBKEY_SIZE \<and> length s = TX_EXTRA_PQ_SPEND_PUBKEY_SIZE
      | ExtraPow h _ \<Rightarrow> length h = HASH_SIZE
      | ExtraPqMinerSpendPub s \<Rightarrow> length s = TX_EXTRA_PQ_SPEND_PUBKEY_SIZE)"

text \<open>Padding runs to the end of the field list, so only the last field may be padding.\<close>

definition fields_ok :: "TransactionExtraField list \<Rightarrow> bool" where
  "fields_ok fs \<longleftrightarrow> list_all field_ok (butlast fs) \<and>
     (fs = [] \<or> field_ok (last fs) \<or>
      (\<exists>n \<in> {1..TX_EXTRA_PADDING_MAX_COUNT}. last fs = ExtraPadding n))"

lemma rbind_read_bytes [simp]: "length xs = n \<Longrightarrow> rbind (read_bytes n) f (xs @ rest) = f xs rest"
  by (simp add: rbind_def read_bytes_append)

lemma get_nonce_field_written:
  "length n \<le> TX_EXTRA_NONCE_MAX_COUNT \<Longrightarrow>
   get_nonce_field (of_nat (length n) # n @ rest) = Inr (n, rest)"
  by (cases "n = []")
    (simp_all add: get_nonce_field_def TX_EXTRA_NONCE_MAX_COUNT_def rbind_def read_u8_eq
       unat_of_nat_byte word_less_nat_alt rret_def)

lemma get_mmTag_written:
  "length r = HASH_SIZE \<Longrightarrow> get_mmTag (fst (put_mmTag (d, r)) @ rest) = Inr ((d, r), rest)"
proof -
  assume r: "length r = HASH_SIZE"
  let ?field = "fst (put_uint d) @ fst (put_hash r)"
  have "length (writeVarint d) \<le> 10" by (rule writeVarint_length)
  then have "length ?field \<le> MAX_STRING_SIZE"
    using r by (simp add: put_uint_def put_hash_def put_binary_def MAX_STRING_SIZE_def HASH_SIZE_def)
  then have "get_string (fst (put_string ?field) @ rest) = Inr (?field, rest)"
    by (rule blob.dec_enc)
  moreover have "rbind get_uint (\<lambda>depth. rbind get_hash (\<lambda>root. rret (depth, root))) ?field
                 = Inr ((d, r), [])"
    using hash_codec.dec_enc [OF r, of "[]"] by (simp add: uint64.rbind_enc)
  ultimately show ?thesis
    by (simp add: get_mmTag_def put_mmTag_def uint64.enc_ok rlift_def)
qed

lemma write_field_ok:
  assumes "field_ok f"
  shows "\<exists>c s. (\<forall>ex. write_field ex f = (True, ex @ c # s)) \<and>
               (\<forall>rest. parse_field c (s @ rest) = Inr (Some f, rest))"
proof (cases f)
  case (ExtraMergeMiningTag d r)
  then have r: "length r = HASH_SIZE" using assms by (simp add: field_ok_def)
  have "snd (put_mmTag (d, r)) = None" by (simp add: put_mmTag_def put_string_def)
  then show ?thesis
    using ExtraMergeMiningTag get_mmTag_written [OF r]
    by (simp add: write_field_def appendMergeMiningTagToExtra_def toBinaryArray_def parse_field_def
        extra_tags)
qed (use assms in \<open>auto simp: field_ok_def write_field_def parse_field_def extra_tags
       addTransactionPublicKeyToExtra_def addExtraNonceToTransactionExtra_def
       addAccountRegistrationToExtra_def addPqAccountRegistrationToExtra_def
       appendPowTagToExtra_def addPqMinerSpendPubToExtra_def get_hash_def get_binary_def
       get_nonce_field_written get_pow_def\<close>)

lemma parse_padding_zeros:
  "k + m \<le> TX_EXTRA_PADDING_MAX_COUNT \<Longrightarrow> parse_padding k (replicate m 0) = Inr (k + m, [])"
  by (induction m arbitrary: k) (subst parse_padding.simps, simp add: rret_def)+

lemma write_then_parse:
  "list_all field_ok fs \<Longrightarrow>
   \<exists>bs. (\<forall>ex. writeTransactionExtra ex fs = (True, ex @ bs)) \<and>
        (\<forall>rest acc. parseExtra_loop (bs @ rest) acc = parseExtra_loop rest (acc @ fs))"
proof (induction fs)
  case (Cons f fs)
  then obtain c s bs where
    f: "\<forall>ex. write_field ex f = (True, ex @ c # s)" "\<forall>rest. parse_field c (s @ rest) = Inr (Some f, rest)"
    and fs: "\<forall>ex. writeTransactionExtra ex fs = (True, ex @ bs)"
      "\<forall>rest acc. parseExtra_loop (bs @ rest) acc = parseExtra_loop rest (acc @ fs)"
    using write_field_ok [of f] by auto
  then show ?case by (intro exI [of _ "c # s @ bs"]) simp
qed (auto intro: exI [of _ "[]"])

lemma write_append:
  "writeTransactionExtra ex (fs @ gs)
   = (case writeTransactionExtra ex fs of (ok, ex') \<Rightarrow> if ok then writeTransactionExtra ex' gs else (False, ex'))"
  by (induction fs arbitrary: ex) (auto split: prod.splits)

lemma parse_as_loop: "parseTransactionExtra ex = parseExtra_loop ex []"
  by (simp add: parseTransactionExtra_def)

section \<open>Properties\<close>

text \<open>
  C30. Writing a list of well-formed fields always succeeds and parsing the bytes gives exactly
  those fields; padding may only come last, because the parser lets it run to the end.
\<close>

theorem extra_round_trip:
  assumes "fields_ok fs"
  shows "\<exists>bs. writeTransactionExtra [] fs = (True, bs) \<and> parseTransactionExtra bs = (True, fs)"
proof (cases "list_all field_ok fs")
  case True
  then obtain bs where bs: "writeTransactionExtra [] fs = (True, bs)"
    "\<forall>rest acc. parseExtra_loop (bs @ rest) acc = parseExtra_loop rest (acc @ fs)"
    using write_then_parse [of fs] by auto
  then have "parseExtra_loop (bs @ []) [] = (True, fs)" by (simp del: append_Nil2)
  with bs show ?thesis by (simp add: parse_as_loop)
next
  case False
  then obtain gs n where fs: "fs = gs @ [ExtraPadding n]" "list_all field_ok gs"
    "1 \<le> n" "n \<le> TX_EXTRA_PADDING_MAX_COUNT"
    using assms by (cases fs rule: rev_cases) (auto simp: fields_ok_def)
  then obtain m where m: "n = Suc m" by (cases n) auto
  obtain bs where bs: "writeTransactionExtra [] gs = (True, bs)"
    "\<forall>rest acc. parseExtra_loop (bs @ rest) acc = parseExtra_loop rest (acc @ gs)"
    using write_then_parse [OF fs(2)] by auto
  have "parse_padding 1 (replicate m 0) = Inr (Suc m, [])"
    using parse_padding_zeros [of 1 m] fs(4) m by simp
  then have "parseExtra_loop (replicate n 0) gs = (True, fs)"
    by (simp add: m fs(1) parse_field_def extra_tags)
  with bs show ?thesis
    using fs(4) by (simp add: fs(1) write_append write_field_def parse_as_loop)
qed

lemma extra_round_trip_witness:
  "\<exists>bs. writeTransactionExtra [] [ExtraNonce [1, 2, 3], ExtraPow (replicate 32 9) 77, ExtraPadding 5] = (True, bs) \<and>
        parseTransactionExtra bs = (True, [ExtraNonce [1, 2, 3], ExtraPow (replicate 32 9) 77, ExtraPadding 5])"
  by (rule extra_round_trip)
    (simp add: fields_ok_def field_ok_def TX_EXTRA_NONCE_MAX_COUNT_def TX_EXTRA_PADDING_MAX_COUNT_def HASH_SIZE_def)

definition reg_pow_bytes :: "bytes \<Rightarrow> bytes \<Rightarrow> hash \<Rightarrow> u64 \<Rightarrow> bytes" where
  "reg_pow_bytes v s h n =
     TX_EXTRA_TAG_PQ_ACCOUNT_REGISTRATION # v @ s @ TX_EXTRA_TAG_POW # h @ le_bytes 8 n"

lemma reg_pow_loop:
  assumes "length v = TX_EXTRA_PQ_VIEW_PUBKEY_SIZE" "length s = TX_EXTRA_PQ_SPEND_PUBKEY_SIZE"
    "length h = HASH_SIZE"
  shows "parseExtra_loop (reg_pow_bytes v s h n @ rest) []
         = parseExtra_loop rest [ExtraPqAccountRegistration v s, ExtraPow h n]"
  using assms
  by (simp add: reg_pow_bytes_def parse_field_def extra_tags get_pow_def get_hash_def get_binary_def)

lemma canonical_shape:
  assumes "isCanonicalFreeRegExtra ex"
  obtains v s h n where "length v = TX_EXTRA_PQ_VIEW_PUBKEY_SIZE"
    "length s = TX_EXTRA_PQ_SPEND_PUBKEY_SIZE" "length h = HASH_SIZE" "ex = reg_pow_bytes v s h n"
proof -
  define v where "v = take TX_EXTRA_PQ_VIEW_PUBKEY_SIZE (drop 1 ex)"
  define s where "s = take TX_EXTRA_PQ_SPEND_PUBKEY_SIZE (drop (1 + TX_EXTRA_PQ_VIEW_PUBKEY_SIZE) ex)"
  define r where "r = drop (2 + kRegPayload) ex"
  have len: "length ex = 1 + kRegPayload + 1 + kPowPayload" using assms by (simp add: isCanonicalFreeRegExtra_def)
  note sz = kRegPayload_def kPowPayload_def extra_sizes
  have "ex = ex ! 0 # drop 1 ex"
    using len by (metis Cons_nth_drop_Suc One_nat_def add_gr_0 drop0 zero_less_one)
  also have "drop 1 ex = v @ drop (1 + TX_EXTRA_PQ_VIEW_PUBKEY_SIZE) ex"
    unfolding v_def by (metis add.commute append_take_drop_id drop_drop)
  also have "drop (1 + TX_EXTRA_PQ_VIEW_PUBKEY_SIZE) ex = s @ drop (1 + kRegPayload) ex"
    unfolding s_def kRegPayload_def by (metis add.assoc add.commute append_take_drop_id drop_drop)
  also have "drop (1 + kRegPayload) ex = ex ! (1 + kRegPayload) # r"
    unfolding r_def using len by (simp add: Cons_nth_drop_Suc)
  also have "r = take HASH_SIZE r @ le_bytes 8 (le_value (drop HASH_SIZE r) :: u64)"
  proof -
    have "length (drop HASH_SIZE r) = 8" using len by (simp add: r_def sz)
    then show ?thesis using le_bytes_le_value [of "drop HASH_SIZE r", where ?'w = 64] by simp
  qed
  finally have "ex = reg_pow_bytes v s (take HASH_SIZE r) (le_value (drop HASH_SIZE r))"
    using assms by (simp add: reg_pow_bytes_def isCanonicalFreeRegExtra_def)
  moreover have "length v = TX_EXTRA_PQ_VIEW_PUBKEY_SIZE" "length s = TX_EXTRA_PQ_SPEND_PUBKEY_SIZE"
    "length (take HASH_SIZE r) = HASH_SIZE"
    using len by (simp_all add: v_def s_def r_def sz)
  ultimately show thesis by (rule that [rotated 3])
qed

text \<open>
  The byte-exact grammar of a free registration: the raw scan accepts exactly the
  encodings of one registration followed by one proof-of-work tag.
\<close>

theorem canonical_free_reg_exact:
  "isCanonicalFreeRegExtra ex \<longleftrightarrow>
     (\<exists>v s h n. length v = TX_EXTRA_PQ_VIEW_PUBKEY_SIZE \<and> length s = TX_EXTRA_PQ_SPEND_PUBKEY_SIZE \<and>
        length h = HASH_SIZE \<and>
        writeTransactionExtra [] [ExtraPqAccountRegistration v s, ExtraPow h n] = (True, ex))"
proof -
  have w: "writeTransactionExtra [] [ExtraPqAccountRegistration v s, ExtraPow h n]
           = (True, reg_pow_bytes v s h n)" for v s h n
    by (simp add: reg_pow_bytes_def write_field_def addPqAccountRegistrationToExtra_def
        appendPowTagToExtra_def)
  have "isCanonicalFreeRegExtra (reg_pow_bytes v s h n)"
    if "length v = TX_EXTRA_PQ_VIEW_PUBKEY_SIZE" "length s = TX_EXTRA_PQ_SPEND_PUBKEY_SIZE"
      "length h = HASH_SIZE" for v s h n
    using that by (simp add: isCanonicalFreeRegExtra_def reg_pow_bytes_def kRegPayload_def
        kPowPayload_def nth_append)
  then show ?thesis unfolding w by (metis Pair_inject canonical_shape)
qed

text \<open>
  For a canonical free registration the field-level view agrees with the raw scan: it
  parses to exactly those two fields, the proof-of-work tag is the last field, the accessors
  return its parts, and the nonce is the final 8 bytes, which is what lets a miner grind the
  nonce in place.
\<close>

theorem canonical_free_reg_fields:
  assumes "isCanonicalFreeRegExtra ex"
  shows "\<exists>v s h n. parseTransactionExtra ex = (True, [ExtraPqAccountRegistration v s, ExtraPow h n]) \<and>
           getPqAccountRegistrationFromExtra ex = Some (v, s) \<and> getPowTagFromExtra ex = Some (h, n) \<and>
           isPowTagLastField ex \<and> drop (length ex - 8) ex = le_bytes 8 n"
proof -
  obtain v s h n where ex: "length v = TX_EXTRA_PQ_VIEW_PUBKEY_SIZE"
    "length s = TX_EXTRA_PQ_SPEND_PUBKEY_SIZE" "length h = HASH_SIZE" "ex = reg_pow_bytes v s h n"
    using assms by (rule canonical_shape)
  have p: "parseTransactionExtra ex = (True, [ExtraPqAccountRegistration v s, ExtraPow h n])"
    using reg_pow_loop [OF ex(1-3), of n "[]"] by (simp add: parse_as_loop ex(4))
  have "drop (length ex - 8) ex = le_bytes 8 n"
    unfolding ex(4) reg_pow_bytes_def by simp
  then show ?thesis
    using p by (intro exI [of _ v] exI [of _ s] exI [of _ h] exI [of _ n])
      (simp add: getPqAccountRegistrationFromExtra_def getPowTagFromExtra_def get_parsed_def as_defs
         isPowTagLastField_def)
qed

definition sample_reg :: bytes where
  "sample_reg = reg_pow_bytes (replicate 1184 1) (replicate 1952 2) (replicate 32 3) 4"

lemma sample_reg_canonical: "isCanonicalFreeRegExtra sample_reg"
  by (simp add: sample_reg_def isCanonicalFreeRegExtra_def reg_pow_bytes_def kRegPayload_def
      kPowPayload_def extra_sizes nth_append nth_Cons')

lemma canonical_free_reg_fields_witness:
  "isCanonicalFreeRegExtra sample_reg \<and>
   (\<exists>v s h n. parseTransactionExtra sample_reg = (True, [ExtraPqAccountRegistration v s, ExtraPow h n]) \<and>
      getPqAccountRegistrationFromExtra sample_reg = Some (v, s) \<and>
      getPowTagFromExtra sample_reg = Some (h, n) \<and>
      isPowTagLastField sample_reg \<and> drop (length sample_reg - 8) sample_reg = le_bytes 8 n)"
  using sample_reg_canonical canonical_free_reg_fields [OF sample_reg_canonical] by blast

text \<open>
  The field-level check alone does not pin the bytes: after appending any unknown tag byte
  to a canonical registration the proof-of-work tag is still the last field and the accessors
  return the same registration and proof, but the nonce is no longer the final 8 bytes and the
  raw scan refuses.
\<close>

theorem trailing_unknown_byte_keeps_pow_last:
  assumes "isCanonicalFreeRegExtra ex" and "7 < u"
  shows "isPowTagLastField (ex @ [u]) \<and> getPowTagFromExtra (ex @ [u]) = getPowTagFromExtra ex \<and>
         getPqAccountRegistrationFromExtra (ex @ [u]) = getPqAccountRegistrationFromExtra ex \<and>
         \<not> isCanonicalFreeRegExtra (ex @ [u])"
proof -
  obtain v s h n where ex: "length v = TX_EXTRA_PQ_VIEW_PUBKEY_SIZE"
    "length s = TX_EXTRA_PQ_SPEND_PUBKEY_SIZE" "length h = HASH_SIZE" "ex = reg_pow_bytes v s h n"
    using assms(1) by (rule canonical_shape)
  have "u \<notin> {0, 1, 2, 3, 4, 5, 6, 7}" using assms(2) by auto
  then have u: "parse_field u [] = Inr (None, [])" by (simp add: parse_field_def extra_tags rret_def)
  have p: "parseTransactionExtra ex = (True, [ExtraPqAccountRegistration v s, ExtraPow h n])"
    "parseTransactionExtra (ex @ [u]) = (True, [ExtraPqAccountRegistration v s, ExtraPow h n])"
    using reg_pow_loop [OF ex(1-3), of n "[]"] reg_pow_loop [OF ex(1-3), of n "[u]"]
    by (simp_all add: parse_as_loop ex(4) u)
  have "\<not> isCanonicalFreeRegExtra (ex @ [u])"
    using assms(1) by (simp add: isCanonicalFreeRegExtra_def)
  then show ?thesis
    by (simp add: p isPowTagLastField_def getPowTagFromExtra_def getPqAccountRegistrationFromExtra_def
        get_parsed_def as_defs)
qed

lemma trailing_unknown_byte_keeps_pow_last_witness:
  "isCanonicalFreeRegExtra sample_reg \<and> isPowTagLastField (sample_reg @ [0xEE]) \<and>
   \<not> isCanonicalFreeRegExtra (sample_reg @ [0xEE])"
  using sample_reg_canonical trailing_unknown_byte_keeps_pow_last [OF sample_reg_canonical, of "0xEE"]
  by simp

end
