(* ===== verification/Merkle.thy ===== *)
theory Merkle
  imports Tx_Model
begin

text \<open>
  The hash tree over a block's transactions: src/src/crypto/tree-hash.c.  The compression
  \<open>cn_fast_hash\<close> on two concatenated hashes is a parameter \<open>H\<close>; every result holds for any \<open>H\<close>.
  The arrays that the C code overwrites in place are lists updated by index, in the same order.
\<close>

section \<open>The code\<close>

text \<open>The smallest power of two that is at least half of the count, by smearing the top bit.\<close>

definition smear :: "u64 \<Rightarrow> u64" where
  "smear cnt = fold (\<lambda>i c. c OR drop_bit i c) [1, 2, 4, 8, 16, 32] cnt"

definition top_power :: "u64 \<Rightarrow> u64" where
  "top_power cnt = (let c = smear cnt in c AND NOT (drop_bit 1 c))"

text \<open>One level: \<open>ints[j] = H(ints[2j+off], ints[2j+off+1])\<close> for \<open>j = 0 .. cnt-1\<close>, in place.\<close>

definition level :: "(bytes \<Rightarrow> hash) \<Rightarrow> nat \<Rightarrow> nat \<Rightarrow> hash list \<Rightarrow> hash list" where
  "level H off cnt ints =
     fold (\<lambda>j a. a[j := H (a ! (2 * j + off) @ a ! (2 * j + off + 1))]) [0..<cnt] ints"

text \<open>The leaves that have no partner are copied, the others are hashed in pairs.\<close>

definition first_level :: "(bytes \<Rightarrow> hash) \<Rightarrow> hash list \<Rightarrow> nat \<Rightarrow> hash list" where
  "first_level H hs cnt =
     (let m = 2 * cnt - length hs
      in take m hs @ map (\<lambda>j. let i = m + 2 * (j - m) in H (hs ! i @ hs ! (i + 1))) [m..<cnt])"

function tree_hash_loop :: "(bytes \<Rightarrow> hash) \<Rightarrow> nat \<Rightarrow> hash list \<Rightarrow> hash list" where
  "tree_hash_loop H cnt ints =
     (if 2 < cnt then tree_hash_loop H (cnt div 2) (level H 0 (cnt div 2) ints) else ints)"
  by pat_completeness auto
termination by (relation "measure (\<lambda>(_, cnt, _). cnt)") auto

declare tree_hash_loop.simps [simp del]

definition tree_hash :: "(bytes \<Rightarrow> hash) \<Rightarrow> hash list \<Rightarrow> hash" where
  "tree_hash H hs =
     (if length hs = 1 then hs ! 0
      else if length hs = 2 then H (hs ! 0 @ hs ! 1)
      else let cnt = unat (top_power (of_nat (length hs - 1)));
               ints = tree_hash_loop H cnt (first_level H hs cnt)
           in H (ints ! 0 @ ints ! 1))"

definition shifts :: "nat list" where
  "shifts = [32, 16, 8, 4, 2, 1]"

definition tree_depth :: "nat \<Rightarrow> nat" where
  "tree_depth count =
     snd (fold (\<lambda>i (c, d). if 0 < c div 2 ^ i then (c div 2 ^ i, d + i) else (c, d)) shifts (count, 0))"

definition branch_size :: "nat \<Rightarrow> nat \<times> nat" where
  "branch_size count =
     fold (\<lambda>i (c, d). if c * 2 ^ i \<le> count then (c * 2 ^ i, d + i) else (c, d)) shifts (1, 0)"

fun tree_branch_loop :: "(bytes \<Rightarrow> hash) \<Rightarrow> nat \<Rightarrow> nat \<Rightarrow> hash list \<Rightarrow> hash list \<Rightarrow> hash list" where
  "tree_branch_loop H 0 cnt ints branch = branch"
| "tree_branch_loop H (Suc depth) cnt ints branch =
     (let cnt' = cnt div 2
      in tree_branch_loop H depth cnt' (level H 1 (cnt' - 1) ints) (branch[depth := ints ! 0]))"

definition tree_branch :: "(bytes \<Rightarrow> hash) \<Rightarrow> hash list \<Rightarrow> hash list" where
  "tree_branch H hs =
     (let (cnt, depth) = branch_size (length hs);
          m = 2 * cnt - length hs;
          ints = take (m - 1) (drop 1 hs) @
                 map (\<lambda>j. let i = m + 2 * (j - (m - 1)) in H (hs ! i @ hs ! (i + 1))) [m - 1..<cnt - 1]
      in tree_branch_loop H depth cnt ints (replicate depth NULL_HASH))"

definition path_bit :: "bytes option \<Rightarrow> nat \<Rightarrow> bool" where
  "path_bit path depth = (case path of None \<Rightarrow> False | Some p \<Rightarrow> bit (p ! (depth div 8)) (depth mod 8))"

fun from_branch_loop :: "(bytes \<Rightarrow> hash) \<Rightarrow> hash list \<Rightarrow> bytes option \<Rightarrow> nat \<Rightarrow> hash \<Rightarrow> hash" where
  "from_branch_loop H branch path 0 acc = acc"
| "from_branch_loop H branch path (Suc depth) acc =
     from_branch_loop H branch path depth
       (H (if path_bit path depth then branch ! depth @ acc else acc @ branch ! depth))"

text \<open>
  The C loop hashes the buffer at the start of the next iteration and once after the loop;
  here each iteration hashes the buffer it has just filled.
\<close>

definition tree_hash_from_branch :: "(bytes \<Rightarrow> hash) \<Rightarrow> hash list \<Rightarrow> nat \<Rightarrow> hash \<Rightarrow> bytes option \<Rightarrow> hash" where
  "tree_hash_from_branch H branch depth leaf path =
     (if depth = 0 then leaf else from_branch_loop H branch path depth leaf)"

section \<open>Bit smearing\<close>

lemma smear_step:
  assumes "\<And>k. bit y k \<longleftrightarrow> (\<exists>j < n. bit x (k + j))"
  shows "bit (y OR drop_bit n y :: u64) k \<longleftrightarrow> (\<exists>j < 2 * n. bit x (k + j))"
proof -
  have "bit (y OR drop_bit n y) k \<longleftrightarrow> (\<exists>j < n. bit x (k + j)) \<or> (\<exists>j < n. bit x (n + k + j))"
    by (simp add: bit_or_iff bit_drop_bit_eq assms)
  also have "\<dots> \<longleftrightarrow> (\<exists>j < 2 * n. bit x (k + j))"
  proof
    assume "(\<exists>j < n. bit x (k + j)) \<or> (\<exists>j < n. bit x (n + k + j))"
    then show "\<exists>j < 2 * n. bit x (k + j)"
    proof (elim disjE exE conjE)
      fix j assume "j < n" "bit x (n + k + j)"
      then show ?thesis by (intro exI [of _ "n + j"]) (simp add: ac_simps)
    qed (metis less_trans mult_2 trans_less_add1)
  next
    assume "\<exists>j < 2 * n. bit x (k + j)"
    then obtain j where j: "j < 2 * n" "bit x (k + j)" by blast
    show "(\<exists>j < n. bit x (k + j)) \<or> (\<exists>j < n. bit x (n + k + j))"
    proof (cases "j < n")
      case False
      then have "n + k + (j - n) = k + j" "j - n < n" using j by auto
      then show ?thesis using j by metis
    qed (use j in blast)
  qed
  finally show ?thesis .
qed

lemma bit_smear: "bit (smear x) k \<longleftrightarrow> (\<exists>j \<ge> k. bit x j)"
proof -
  have 0: "bit x k \<longleftrightarrow> (\<exists>j < 1. bit x (k + j))" for k by simp
  note 1 = smear_step [OF 0]
  note 2 = smear_step [OF 1]
  note 4 = smear_step [OF 2]
  note 8 = smear_step [OF 4]
  note 16 = smear_step [OF 8]
  note 32 = smear_step [OF 16]
  have "bit (smear x) k \<longleftrightarrow> (\<exists>j < 64. bit x (k + j))"
    using 32 [of k] by (simp add: smear_def)
  also have "\<dots> \<longleftrightarrow> (\<exists>j \<ge> k. bit x j)"
  proof
    assume "\<exists>j \<ge> k. bit x j"
    then obtain j where "k \<le> j" "bit x j" by blast
    moreover from this have "j < 64" using bit_imp_le_length [of x j] by simp
    ultimately show "\<exists>j < 64. bit x (k + j)" by (intro exI [of _ "j - k"]) simp
  qed (use le_add1 in blast)
  finally show ?thesis .
qed

lemma top_power_eq:
  assumes "2 ^ d \<le> n" and "n < 2 ^ Suc d" and "d < 64"
  shows "unat (top_power (of_nat n)) = 2 ^ d"
proof -
  let ?x = "of_nat n :: u64"
  have "(2 :: nat) ^ Suc d \<le> 2 ^ 64" using assms(3) by (intro power_increasing) auto
  then have n: "n < 2 ^ 64" using assms(2) by linarith
  have b: "bit ?x j \<longleftrightarrow> bit n j" for j
  proof -
    have "unat ?x = n" using n by (simp add: unat_of_nat)
    then show ?thesis using bit_unat_iff [of ?x j] by simp
  qed
  have hi: "\<not> bit n j" if "d < j" for j
  proof -
    have "(2 :: nat) ^ Suc d \<le> 2 ^ j" using that by (intro power_increasing) auto
    then have "n div 2 ^ j = 0" using assms(2) by simp
    then show ?thesis by (simp add: bit_iff_odd)
  qed
  have "n div 2 ^ d = 1" using assms(1,2) by (simp add: div_nat_eqI)
  then have "bit n d" by (simp add: bit_iff_odd)
  then have sm: "bit (smear ?x) k \<longleftrightarrow> k \<le> d" for k
    unfolding bit_smear b using hi by (meson le_trans not_le)
  have "top_power ?x = 2 ^ d"
  proof (rule bit_eqI)
    fix k assume "possible_bit TYPE(u64) k"
    then show "bit (top_power ?x) k \<longleftrightarrow> bit (2 ^ d :: u64) k"
      using assms(3)
      by (auto simp: top_power_def Let_def bit_and_iff bit_not_iff bit_drop_bit_eq sm bit_exp_iff)
  qed
  moreover have "(2 :: nat) ^ d < 2 ^ 64" using assms(3) by (intro power_strict_increasing) auto
  then have "unat (of_nat (2 ^ d) :: u64) = 2 ^ d" by (simp only: unat_of_nat) simp
  ultimately show ?thesis by simp
qed

section \<open>The reference tree\<close>

text \<open>The level above a list of nodes, and the root of a complete tree of depth \<open>d\<close>.\<close>

definition pairs :: "(bytes \<Rightarrow> hash) \<Rightarrow> hash list \<Rightarrow> hash list" where
  "pairs H xs = map (\<lambda>j. H (xs ! (2 * j) @ xs ! (2 * j + 1))) [0..<length xs div 2]"

fun root :: "(bytes \<Rightarrow> hash) \<Rightarrow> nat \<Rightarrow> hash list \<Rightarrow> hash" where
  "root H 0 xs = xs ! 0"
| "root H (Suc d) xs = root H d (pairs H xs)"

text \<open>The leaves of an uneven tree, brought to the next smaller power of two.\<close>

definition leaves :: "(bytes \<Rightarrow> hash) \<Rightarrow> nat \<Rightarrow> hash list \<Rightarrow> hash list" where
  "leaves H cnt hs = (let m = 2 * cnt - length hs in take m hs @ pairs H (drop m hs))"

lemma length_pairs [simp]: "length (pairs H xs) = length xs div 2"
  by (simp add: pairs_def)

lemma nth_pairs [simp]: "j < length xs div 2 \<Longrightarrow> pairs H xs ! j = H (xs ! (2 * j) @ xs ! (2 * j + 1))"
  by (simp add: pairs_def)

lemma level_state:
  assumes "2 * k + off \<le> length ints"
  shows "length (level H off k ints) = length ints \<and>
         (\<forall>i < k. level H off k ints ! i = H (ints ! (2 * i + off) @ ints ! (2 * i + off + 1))) \<and>
         (\<forall>i \<ge> k. level H off k ints ! i = ints ! i)"
  using assms
proof (induction k)
  case (Suc k)
  then have IH: "length (level H off k ints) = length ints"
    "\<forall>i < k. level H off k ints ! i = H (ints ! (2 * i + off) @ ints ! (2 * i + off + 1))"
    "\<forall>i \<ge> k. level H off k ints ! i = ints ! i" by simp_all
  have "level H off (Suc k) ints
        = (level H off k ints)[k := H (ints ! (2 * k + off) @ ints ! (2 * k + off + 1))]"
    using IH(3) by (simp add: level_def)
  with IH Suc.prems show ?case by (auto simp: nth_list_update less_Suc_eq)
qed (simp add: level_def)

lemma take_level:
  assumes "2 * k + off \<le> length ints"
  shows "take k (level H off k ints) = pairs H (take (2 * k) (drop off ints))"
proof (rule nth_equalityI)
  note st = level_state [OF assms, of H]
  show len: "length (take k (level H off k ints)) = length (pairs H (take (2 * k) (drop off ints)))"
    using st assms by simp
  fix i assume "i < length (take k (level H off k ints))"
  then have i: "i < k" by simp
  then have "2 * i + 1 < 2 * k" by simp
  with i st assms show "take k (level H off k ints) ! i = pairs H (take (2 * k) (drop off ints)) ! i"
    by (simp add: add.commute)
qed

lemma tree_hash_loop_root:
  assumes "take (2 ^ d) ints = xs" and "length xs = 2 ^ d" and "0 < d"
  shows "H (tree_hash_loop H (2 ^ d) ints ! 0 @ tree_hash_loop H (2 ^ d) ints ! 1) = root H d xs"
  using assms
proof (induction d arbitrary: ints xs)
  case (Suc d)
  have len: "2 * 2 ^ d \<le> length ints" using Suc.prems(1,2) by (metis length_take min.absorb_iff2 min.commute order_refl power_Suc)
  show ?case
  proof (cases "d = 0")
    case True
    then have "xs = take 2 ints" using Suc.prems(1) by simp
    then show ?thesis using True len by (subst (1 2) tree_hash_loop.simps) simp
  next
    case False
    then have "2 < (2 :: nat) ^ Suc d" using power_strict_increasing [of 1 "Suc d" "2 :: nat"] by simp
    then have "tree_hash_loop H (2 ^ Suc d) ints = tree_hash_loop H (2 ^ d) (level H 0 (2 ^ d) ints)"
      by (subst tree_hash_loop.simps) simp
    moreover have "take (2 ^ d) (level H 0 (2 ^ d) ints) = pairs H xs"
      using take_level [of "2 ^ d" 0 ints H] len Suc.prems(1) by simp
    ultimately show ?thesis
      using Suc.IH [of "level H 0 (2 ^ d) ints" "pairs H xs"] Suc.prems(2) False by simp
  qed
qed simp

lemma first_level_leaves:
  assumes "cnt \<le> length hs" and "length hs \<le> 2 * cnt"
  shows "first_level H hs cnt = leaves H cnt hs"
proof -
  let ?m = "2 * cnt - length hs"
  have half: "(length hs - ?m) div 2 = cnt - ?m" using assms by simp
  have "map (\<lambda>j. let i = ?m + 2 * (j - ?m) in H (hs ! i @ hs ! (i + 1))) [?m..<cnt] = pairs H (drop ?m hs)"
    by (rule nth_equalityI) (use assms half in \<open>auto simp: Let_def add.assoc\<close>)
  then show ?thesis by (simp add: first_level_def leaves_def Let_def)
qed

lemma leaves_full: "length hs = cnt \<Longrightarrow> leaves H cnt hs = hs"
  by (simp add: leaves_def pairs_def)

lemma length_leaves: "cnt \<le> length hs \<Longrightarrow> length hs \<le> 2 * cnt \<Longrightarrow> length (leaves H cnt hs) = cnt"
  by (simp add: leaves_def Let_def)

lemma tree_hash_big:
  assumes "2 ^ e < length hs" and "length hs \<le> 2 ^ Suc e" and "0 < e" and "e < 64"
  shows "tree_hash H hs = root H e (leaves H (2 ^ e) hs)"
proof -
  have "unat (top_power (of_nat (length hs - 1))) = 2 ^ e"
    using assms by (intro top_power_eq) auto
  moreover have "first_level H hs (2 ^ e) = leaves H (2 ^ e) hs"
    using assms by (intro first_level_leaves) auto
  moreover have "length (leaves H (2 ^ e) hs) = 2 ^ e"
    using assms by (intro length_leaves) auto
  moreover have "2 < length hs"
    using assms(1,3) power_increasing [of 1 e "2 :: nat"] by simp
  ultimately show ?thesis
    using tree_hash_loop_root [OF _ _ assms(3), of "leaves H (2 ^ e) hs"]
    by (simp add: tree_hash_def Let_def)
qed

lemma tree_hash_root:
  assumes "2 ^ d \<le> length hs" and "length hs < 2 ^ Suc d" and "d < 64"
  shows "tree_hash H hs = root H d (leaves H (2 ^ d) hs)"
proof (cases "length hs = 2 ^ d")
  case True
  consider "d = 0" | "d = 1" | e where "d = Suc e" "0 < e" by (metis One_nat_def gr0I not0_implies_Suc)
  then show ?thesis
  proof cases
    case 3
    have "tree_hash H hs = root H e (leaves H (2 ^ e) hs)"
      using 3 True assms(3) by (intro tree_hash_big) auto
    moreover have "leaves H (2 ^ e) hs = pairs H hs"
      using 3 True by (simp add: leaves_def)
    ultimately show ?thesis using 3 True by (simp add: leaves_full)
  qed (use True in \<open>simp_all add: tree_hash_def leaves_full\<close>)
next
  case False
  then have "d \<noteq> 0" using assms by (intro notI) simp
  then show ?thesis using False assms by (intro tree_hash_big) auto
qed

section \<open>Branches\<close>

fun branch_of :: "(bytes \<Rightarrow> hash) \<Rightarrow> nat \<Rightarrow> hash list \<Rightarrow> hash list" where
  "branch_of H 0 xs = []"
| "branch_of H (Suc d) xs = branch_of H d (pairs H xs) @ [xs ! 1]"

lemma length_branch_of [simp]: "length (branch_of H d xs) = d"
  by (induction d arbitrary: xs) simp_all

lemma pairs_drop2: "pairs H (drop 2 xs) = tl (pairs H xs)"
  by (rule nth_equalityI) (auto simp: nth_tl)

lemma tree_branch_loop_eq:
  assumes "take (2 ^ depth - 1) ints = tl xs" and "length xs = 2 ^ depth" and "depth \<le> length branch"
  shows "tree_branch_loop H depth (2 ^ depth) ints branch = branch_of H depth xs @ drop depth branch"
  using assms
proof (induction depth arbitrary: ints xs branch)
  case (Suc depth)
  let ?c = "2 ^ depth :: nat"
  have c: "0 < ?c" by simp
  have len: "2 * ?c - 1 \<le> length ints"
    using arg_cong [OF Suc.prems(1), of length] Suc.prems(2) by (simp add: min_def split: if_splits)
  have len': "2 * (?c - 1) + 1 \<le> length ints" using len c by linarith
  have c1: "0 < 2 ^ Suc depth - (1 :: nat)" using c unfolding power_Suc by linarith
  have "ints ! 0 = take (2 ^ Suc depth - 1) ints ! 0" by (rule nth_take [OF c1, symmetric])
  also have "\<dots> = xs ! 1" unfolding Suc.prems(1) using Suc.prems(2) c1 by (simp add: nth_tl)
  finally have i0: "ints ! 0 = xs ! 1" .
  have "take (2 * (?c - 1)) (drop 1 ints) = drop 1 (take (2 ^ Suc depth - 1) ints)"
    using c by (simp add: drop_take diff_mult_distrib2) (simp add: numeral_2_eq_2)
  also have "\<dots> = drop 2 xs" using Suc.prems(1) by (simp add: drop_Suc eval_nat_numeral)
  finally have "take (?c - 1) (level H 1 (?c - 1) ints) = pairs H (drop 2 xs)"
    using take_level [of "?c - 1" 1 ints H] len' by simp
  then have "take (?c - 1) (level H 1 (?c - 1) ints) = tl (pairs H xs)" by (simp only: pairs_drop2)
  then have "tree_branch_loop H depth ?c (level H 1 (?c - 1) ints) (branch[depth := ints ! 0])
             = branch_of H depth (pairs H xs) @ drop depth (branch[depth := ints ! 0])"
    using Suc.prems(2,3) by (intro Suc.IH) simp_all
  moreover have "drop depth (branch[depth := ints ! 0]) = ints ! 0 # drop (Suc depth) branch"
    using Suc.prems(3) by (subst Cons_nth_drop_Suc [symmetric]) simp_all
  ultimately show ?case using i0 by simp
qed simp

lemma from_branch_root:
  "take depth branch = branch_of H depth xs \<Longrightarrow> length xs = 2 ^ depth \<Longrightarrow> depth \<le> length branch \<Longrightarrow>
   from_branch_loop H branch None depth (xs ! 0) = root H depth xs"
proof (induction depth arbitrary: xs)
  case (Suc depth)
  have "take depth branch @ [branch ! depth] = branch_of H depth (pairs H xs) @ [xs ! 1]"
    using Suc.prems(1,3) by (simp add: take_Suc_conv_app_nth)
  then have "take depth branch = branch_of H depth (pairs H xs)" "branch ! depth = xs ! 1"
    using Suc.prems(3) by simp_all
  then show ?case using Suc.IH [of "pairs H xs"] Suc.prems(2,3) by (simp add: path_bit_def)
qed simp

section \<open>Depths by binary search\<close>

lemma shifts_powers: "shifts = map (\<lambda>k. 2 ^ k) (rev [0..<6])"
  by (simp add: shifts_def eval_nat_numeral)

lemma power_le_log:
  assumes "2 ^ d \<le> (n :: nat)" and "n < 2 ^ Suc d"
  shows "2 ^ i \<le> n \<longleftrightarrow> i \<le> d"
proof
  assume "2 ^ i \<le> n"
  then have "(2 :: nat) ^ i < 2 ^ Suc d" using assms(2) by linarith
  then show "i \<le> d" using power_less_imp_less_exp [of "2 :: nat" i "Suc d"] by simp
next
  assume "i \<le> d"
  then have "(2 :: nat) ^ i \<le> 2 ^ d" by (intro power_increasing) auto
  then show "2 ^ i \<le> n" using assms(1) by linarith
qed

lemma branch_size_search:
  assumes "2 ^ d \<le> (n :: nat)" and "n < 2 ^ Suc d"
  shows "e \<le> d \<Longrightarrow> d < e + 2 ^ k \<Longrightarrow>
    fold (\<lambda>i (c, d). if c * 2 ^ i \<le> n then (c * 2 ^ i, d + i) else (c, d))
      (map (\<lambda>k. 2 ^ k) (rev [0..<k])) (2 ^ e, e) = (2 ^ d, d)"
proof (induction k arbitrary: e)
  case (Suc k)
  show ?case
  proof (cases "e + 2 ^ k \<le> d")
    case True
    then have "2 ^ e * 2 ^ 2 ^ k \<le> n" using power_le_log [OF assms, of "e + 2 ^ k"] by (simp add: power_add)
    then show ?thesis using Suc.IH [of "e + 2 ^ k"] Suc.prems True by (simp add: power_add)
  next
    case False
    then have "\<not> 2 ^ e * 2 ^ 2 ^ k \<le> n" using power_le_log [OF assms, of "e + 2 ^ k"] by (simp add: power_add)
    then show ?thesis using Suc.IH [of e] Suc.prems False by simp
  qed
qed simp

lemma tree_depth_search:
  assumes "2 ^ d \<le> (n :: nat)" and "n < 2 ^ Suc d"
  shows "e \<le> d \<Longrightarrow> d < e + 2 ^ k \<Longrightarrow>
    snd (fold (\<lambda>i (c, d). if 0 < c div 2 ^ i then (c div 2 ^ i, d + i) else (c, d))
      (map (\<lambda>k. 2 ^ k) (rev [0..<k])) (n div 2 ^ e, e)) = d"
proof (induction k arbitrary: e)
  case (Suc k)
  have mul: "n div 2 ^ e div 2 ^ 2 ^ k = n div 2 ^ (e + 2 ^ k)"
    by (simp add: div_mult2_eq power_add)
  have div: "0 < n div 2 ^ (e + 2 ^ k) \<longleftrightarrow> e + 2 ^ k \<le> d"
    using power_le_log [OF assms] by (simp only: div_greater_zero_iff) simp
  show ?case
    using Suc.IH [of e] Suc.IH [of "e + 2 ^ k"] Suc.prems
    by (cases "e + 2 ^ k \<le> d") (simp_all add: mul div del: div_greater_zero_iff neq0_conv)
qed simp

lemma log_exists:
  assumes "0 < (n :: nat)" and "n < 2 ^ 64"
  obtains d where "2 ^ d \<le> n" "n < 2 ^ Suc d" "d < 64"
proof -
  obtain d where d: "2 ^ d \<le> n" "n < 2 ^ Suc d"
    using ex_power_ivl1 [of 2 n] assms(1) by auto
  moreover have "(2 :: nat) ^ d < 2 ^ 64" using d(1) assms(2) by linarith
  then have "d < 64" using power_less_imp_less_exp [of "2 :: nat" d 64] by simp
  ultimately show thesis by (rule that)
qed

lemma tree_depth_log:
  assumes "2 ^ d \<le> n" and "n < 2 ^ Suc d" and "d < 64"
  shows "tree_depth n = d" and "branch_size n = (2 ^ d, d)"
proof -
  show "tree_depth n = d"
    using tree_depth_search [OF assms(1,2), of 0 6] assms(3)
    by (simp add: tree_depth_def shifts_powers del: upt_conv_Cons upt_rec_numeral)
  show "branch_size n = (2 ^ d, d)"
    using branch_size_search [OF assms(1,2), of 0 6] assms(3)
    by (simp add: branch_size_def shifts_powers del: upt_conv_Cons upt_rec_numeral)
qed

lemma tree_branch_eq:
  assumes "2 ^ d \<le> length hs" and "length hs < 2 ^ Suc d" and "d < 64"
  shows "tree_branch H hs = branch_of H d (leaves H (2 ^ d) hs)"
proof -
  let ?c = "2 ^ d :: nat"
  let ?m = "2 * ?c - length hs"
  let ?ints = "take (?m - 1) (drop 1 hs) @
    map (\<lambda>j. let i = ?m + 2 * (j - (?m - 1)) in H (hs ! i @ hs ! (i + 1))) [?m - 1..<?c - 1]"
  have m: "1 \<le> ?m" "?m \<le> ?c" using assms(1,2) by simp_all
  have half: "(length hs - ?m) div 2 = ?c - ?m" using assms by simp
  have "map (\<lambda>j. let i = ?m + 2 * (j - (?m - 1)) in H (hs ! i @ hs ! (i + 1))) [?m - 1..<?c - 1]
        = pairs H (drop ?m hs)"
    by (rule nth_equalityI) (use m half in \<open>auto simp: Let_def add.assoc\<close>)
  moreover have "take (?m - 1) (drop 1 hs) = tl (take ?m hs)"
    using m by (cases hs) (auto simp: take_Cons' drop_Cons')
  moreover have "take ?m hs \<noteq> []" using m assms(1) by (auto simp: not_le)
  ultimately have ints: "?ints = tl (leaves H ?c hs)"
    by (simp only: leaves_def Let_def tl_append2 not_False_eq_True)
  have len: "length (leaves H ?c hs) = ?c" using assms by (intro length_leaves) auto
  have "tree_branch_loop H d ?c (tl (leaves H ?c hs)) (replicate d NULL_HASH)
        = branch_of H d (leaves H ?c hs)"
    using tree_branch_loop_eq [of d "tl (leaves H ?c hs)" "leaves H ?c hs" "replicate d NULL_HASH" H] len
    by simp
  moreover have "tree_branch H hs = tree_branch_loop H d ?c ?ints (replicate d NULL_HASH)"
    by (simp only: tree_branch_def tree_depth_log(2) [OF assms] Let_def prod.case)
  ultimately show ?thesis by (simp only: ints)
qed

section \<open>Properties\<close>

text \<open>
  C3. A branch proves its leaf: for any number of transactions below 2^64 and any compression
  function, the root recomputed from the first hash and the branch that \<open>tree_branch\<close> extracts
  is the root \<open>tree_hash\<close> computes, and the branch has \<open>tree_depth\<close> many nodes.
\<close>

theorem branch_recomputes_root:
  assumes "hs \<noteq> []" and "length hs < 2 ^ 64"
  shows "tree_hash_from_branch H (tree_branch H hs) (tree_depth (length hs)) (hs ! 0) None = tree_hash H hs \<and>
         length (tree_branch H hs) = tree_depth (length hs)"
proof -
  obtain d where d: "2 ^ d \<le> length hs" "length hs < 2 ^ Suc d" "d < 64"
    using log_exists [of "length hs"] assms by auto
  let ?L = "leaves H (2 ^ d) hs"
  have len: "length ?L = 2 ^ d" using d by (intro length_leaves) auto
  have "?L ! 0 = hs ! 0"
    using d(1,2) assms(1) by (simp add: leaves_def Let_def nth_append)
  then have "from_branch_loop H (tree_branch H hs) None d (hs ! 0) = root H d ?L"
    using from_branch_root [of d "tree_branch H hs" H ?L] len tree_branch_eq [OF d] by simp
  then show ?thesis
    using tree_hash_root [OF d, of H] assms(1) d
    by (cases "d = 0") (simp_all add: tree_hash_from_branch_def tree_depth_log(1) [OF d] tree_branch_eq [OF d])
qed

lemma branch_recomputes_root_witness:
  "tree_hash_from_branch (\<lambda>x. rev x) (tree_branch (\<lambda>x. rev x) [[1], [2], [3], [4], [5]])
     (tree_depth (length [[1], [2], [3], [4], [5 :: byte]])) ([[1], [2], [3], [4], [5]] ! 0) None
   = tree_hash (\<lambda>x. rev x) [[1], [2], [3], [4], [5]]"
  using branch_recomputes_root [of "[[1], [2], [3], [4], [5]]" "\<lambda>x. rev x"] by simp

text \<open>
  C27. The in-place, bit-smearing computation of the root is the root of the reference tree:
  with \<open>2^d\<close> the largest power of two not above the number of leaves, the surplus leaves are
  first merged in pairs at the end of the list and the complete tree of depth \<open>d\<close> is then
  folded level by level; \<open>tree_depth\<close> is that \<open>d\<close>.
\<close>

theorem tree_hash_is_reference_root:
  assumes "hs \<noteq> []" and "length hs < 2 ^ 64"
  shows "2 ^ tree_depth (length hs) \<le> length hs \<and> length hs < 2 ^ Suc (tree_depth (length hs)) \<and>
         tree_hash H hs = root H (tree_depth (length hs)) (leaves H (2 ^ tree_depth (length hs)) hs)"
proof -
  obtain d where d: "2 ^ d \<le> length hs" "length hs < 2 ^ Suc d" "d < 64"
    using log_exists [of "length hs"] assms by auto
  then show ?thesis using tree_hash_root [OF d, of H] by (simp add: tree_depth_log(1) [OF d])
qed

lemma tree_hash_is_reference_root_witness:
  "tree_hash (\<lambda>x. x @ x) [[1], [2], [3 :: byte]]
   = root (\<lambda>x. x @ x) (tree_depth 3) (leaves (\<lambda>x. x @ x) (2 ^ tree_depth 3) [[1], [2], [3]])"
  using tree_hash_is_reference_root [of "[[1], [2], [3]]" "\<lambda>x. x @ x"]
  by (simp add: numeral_3_eq_3)

end
