(* ===== verification/Pq_Derive.thy ===== *)
theory Pq_Derive
  imports Tx_Model "HOL-Library.Sublist"
begin

text \<open>
  The domain-separated derivations of src/src/crypto_pq/PqDerive.h and PqDerive.cpp: what is
  hashed to give the inputs hash, the output context, the spend commitment, the nullifier, the
  coinbase rho and the two signing transcripts.  SHA3-256, HKDF-SHA3-256 and liboqs's
  incremental SHA3 are parameters; the theorems are about the bytes that are hashed, so they
  need nothing about the hash functions.
\<close>

section \<open>Domain tags\<close>

definition ascii :: "string \<Rightarrow> bytes" where
  "ascii s = map (\<lambda>c. of_nat (of_char c)) s"

definition kDomainInputsHash :: string where "kDomainInputsHash = ''discrete-pq-inputs-hash-v1''"
definition kDomainOutContext :: string where "kDomainOutContext = ''discrete-pq-out-context-v1''"
definition kDomainOutContextV2 :: string where "kDomainOutContextV2 = ''discrete-pq-out-context-v2''"
definition kDomainAeadKey :: string where "kDomainAeadKey = ''discrete-pq-aead-key-v1''"
definition kDomainSpendCommit :: string where "kDomainSpendCommit = ''discrete-pq-spend-commit-v1''"
definition kDomainNullifier :: string where "kDomainNullifier = ''discrete-pq-nullifier-v1''"
definition kDomainTxSign :: string where "kDomainTxSign = ''discrete-pq-tx-sign-v1''"
definition kDomainTxSignV2 :: string where "kDomainTxSignV2 = ''discrete-pq-tx-sign-v2''"
definition kDomainCoinbaseRho :: string where "kDomainCoinbaseRho = ''discrete-coinbase-rho-v1''"
definition kReservedCtMask :: string where "kReservedCtMask = ''discrete-pq-ct-mask-v1''"
definition kReservedShieldedSerial :: string where "kReservedShieldedSerial = ''discrete-pq-serial-v1''"

definition appendDomain :: "bytes \<Rightarrow> string \<Rightarrow> bytes" where
  "appendDomain buf tag = buf @ ascii tag"

definition appendLe32 :: "bytes \<Rightarrow> u32 \<Rightarrow> bytes" where
  "appendLe32 buf v = buf @ le_bytes 4 v"

definition appendLe64 :: "bytes \<Rightarrow> u64 \<Rightarrow> bytes" where
  "appendLe64 buf v = buf @ le_bytes 8 v"

section \<open>Data\<close>

record InputRef =
  ref_prevTxid :: hash
  ref_prevOutIndex :: u32

record DigestInput =
  di_prevTxid :: hash
  di_prevOutIndex :: u32
  di_authPub :: bytes
  di_rhoReveal :: bytes
  di_keyRef :: u32

record DigestOutput =
  do_type :: byte
  do_amount :: u64
  do_unlockHeight :: u64
  do_kemCt :: bytes
  do_encPayload :: bytes
  do_spendCommit :: hash

record UnsignedTx =
  ut_version :: byte
  ut_txType :: byte
  ut_unlockHeight :: u64
  ut_inputs :: "DigestInput list"
  ut_outputs :: "DigestOutput list"
  ut_extra :: bytes
  ut_fee :: u64

section \<open>Preimages and derivations\<close>

definition inputsHash_buf :: "InputRef list \<Rightarrow> bytes" where
  "inputsHash_buf ins =
     fold (\<lambda>i buf. appendLe32 (buf @ ref_prevTxid i) (ref_prevOutIndex i)) ins
       (appendDomain [] kDomainInputsHash)"

definition inputsHash :: "(bytes \<Rightarrow> hash) \<Rightarrow> InputRef list \<Rightarrow> hash" where
  "inputsHash sha3_256 ins = sha3_256 (inputsHash_buf ins)"

definition outContext_buf :: "hash \<Rightarrow> bytes \<Rightarrow> u32 \<Rightarrow> bytes" where
  "outContext_buf ih ct idx = appendLe32 (appendDomain [] kDomainOutContextV2 @ ih @ ct) idx"

definition outContext :: "(bytes \<Rightarrow> hash) \<Rightarrow> hash \<Rightarrow> bytes \<Rightarrow> u32 \<Rightarrow> hash" where
  "outContext sha3_256 ih ct idx = sha3_256 (outContext_buf ih ct idx)"

definition legacyOutContextV1_buf :: "hash \<Rightarrow> bytes \<Rightarrow> u32 \<Rightarrow> u64 \<Rightarrow> bytes" where
  "legacyOutContextV1_buf ih ct idx t =
     appendLe64 (appendLe32 (appendDomain [] kDomainOutContext @ ih @ ct) idx) t"

definition legacyOutContextV1 :: "(bytes \<Rightarrow> hash) \<Rightarrow> hash \<Rightarrow> bytes \<Rightarrow> u32 \<Rightarrow> u64 \<Rightarrow> hash" where
  "legacyOutContextV1 sha3_256 ih ct idx t = sha3_256 (legacyOutContextV1_buf ih ct idx t)"

definition deriveAeadKey :: "(bytes \<Rightarrow> bytes \<Rightarrow> hash) \<Rightarrow> bytes \<Rightarrow> hash \<Rightarrow> hash" where
  "deriveAeadKey hkdf_sha3_256 ss ctx = hkdf_sha3_256 ss (appendDomain [] kDomainAeadKey @ ctx)"

definition spendCommit_buf :: "bytes \<Rightarrow> bytes \<Rightarrow> bytes" where
  "spendCommit_buf spendPub rho = appendDomain [] kDomainSpendCommit @ spendPub @ rho"

definition spendCommitHash :: "(bytes \<Rightarrow> hash) \<Rightarrow> bytes \<Rightarrow> bytes \<Rightarrow> hash" where
  "spendCommitHash sha3_256 spendPub rho = sha3_256 (spendCommit_buf spendPub rho)"

definition nullifier_buf :: "bytes \<Rightarrow> bytes \<Rightarrow> hash \<Rightarrow> u32 \<Rightarrow> bytes" where
  "nullifier_buf spendPub rho txid idx =
     appendLe32 (appendDomain [] kDomainNullifier @ spendPub @ rho @ txid) idx"

definition nullifier :: "(bytes \<Rightarrow> hash) \<Rightarrow> bytes \<Rightarrow> bytes \<Rightarrow> hash \<Rightarrow> u32 \<Rightarrow> hash" where
  "nullifier sha3_256 spendPub rho txid idx = sha3_256 (nullifier_buf spendPub rho txid idx)"

definition coinbaseRho_buf :: "bytes \<Rightarrow> u32 \<Rightarrow> u32 \<Rightarrow> bytes" where
  "coinbaseRho_buf spendPub height idx =
     appendLe32 (appendLe32 (appendDomain [] kDomainCoinbaseRho @ spendPub) height) idx"

definition coinbaseRho :: "(bytes \<Rightarrow> hash) \<Rightarrow> bytes \<Rightarrow> u32 \<Rightarrow> u32 \<Rightarrow> bytes" where
  "coinbaseRho sha3_256 spendPub height idx = sha3_256 (coinbaseRho_buf spendPub height idx)"

section \<open>Signing transcripts\<close>

definition appendDigestInput :: "DigestInput \<Rightarrow> bytes \<Rightarrow> bytes" where
  "appendDigestInput i buf =
     appendLe32 (buf @ di_prevTxid i) (di_prevOutIndex i) @ di_authPub i @ di_rhoReveal i"

definition appendDigestOutput :: "DigestOutput \<Rightarrow> bytes \<Rightarrow> bytes" where
  "appendDigestOutput out buf =
     appendLe64 (appendLe64 (buf @ [do_type out]) (do_amount out)) (do_unlockHeight out) @
     do_kemCt out @ do_encPayload out @ do_spendCommit out"

definition appendUnsignedTxBody :: "bytes \<Rightarrow> UnsignedTx \<Rightarrow> bytes" where
  "appendUnsignedTxBody buf tx =
     (let buf = appendLe64 (buf @ [ut_version tx] @ [ut_txType tx]) (ut_unlockHeight tx);
          buf = appendLe32 buf (of_nat (length (ut_inputs tx)));
          buf = fold appendDigestInput (ut_inputs tx) buf;
          buf = appendLe32 buf (of_nat (length (ut_outputs tx)));
          buf = fold appendDigestOutput (ut_outputs tx) buf;
          buf = appendLe32 buf (of_nat (length (ut_extra tx))) @ ut_extra tx
      in appendLe64 buf (ut_fee tx))"

definition txSigningBuf :: "UnsignedTx \<Rightarrow> bytes" where
  "txSigningBuf tx = appendUnsignedTxBody (appendDomain [] kDomainTxSign) tx"

definition txSigningDigest :: "(bytes \<Rightarrow> hash) \<Rightarrow> UnsignedTx \<Rightarrow> hash" where
  "txSigningDigest sha3_256 tx = sha3_256 (txSigningBuf tx)"

definition txSigningPrefixV2 :: "UnsignedTx \<Rightarrow> hash \<Rightarrow> bytes" where
  "txSigningPrefixV2 tx chainId =
     fold (\<lambda>i buf. appendLe32 buf (di_keyRef i)) (ut_inputs tx)
       (appendUnsignedTxBody (appendDomain [] kDomainTxSignV2 @ chainId) tx)"

definition txSigningBufV2 :: "UnsignedTx \<Rightarrow> hash \<Rightarrow> u32 \<Rightarrow> bytes" where
  "txSigningBufV2 tx chainId inputIndex = appendLe32 (txSigningPrefixV2 tx chainId) inputIndex"

definition txSigningDigestV2 :: "(bytes \<Rightarrow> hash) \<Rightarrow> UnsignedTx \<Rightarrow> hash \<Rightarrow> u32 \<Rightarrow> hash" where
  "txSigningDigestV2 sha3_256 tx chainId inputIndex = sha3_256 (txSigningBufV2 tx chainId inputIndex)"

text \<open>The incremental form, over the state type of the sponge.\<close>

definition txSigningDigestsV2 ::
  "'s \<Rightarrow> ('s \<Rightarrow> bytes \<Rightarrow> 's) \<Rightarrow> ('s \<Rightarrow> hash) \<Rightarrow> UnsignedTx \<Rightarrow> hash \<Rightarrow> u32 list \<Rightarrow> hash list" where
  "txSigningDigestsV2 inc_init inc_absorb inc_finalize tx chainId idxs =
     (if idxs = [] then []
      else let shared = inc_absorb inc_init (txSigningPrefixV2 tx chainId)
           in map (\<lambda>idx. inc_finalize (inc_absorb shared (appendLe32 [] idx))) idxs)"

section \<open>Fixed-width concatenation\<close>

named_theorems buf_simps \<open>append-only buffers as concatenations\<close>

declare appendDomain_def [buf_simps] and appendLe32_def [buf_simps] and appendLe64_def [buf_simps]

definition input_image :: "DigestInput \<Rightarrow> bytes" where
  "input_image i = di_prevTxid i @ le_bytes 4 (di_prevOutIndex i) @ di_authPub i @ di_rhoReveal i"

definition output_image :: "DigestOutput \<Rightarrow> bytes" where
  "output_image out = do_type out # le_bytes 8 (do_amount out) @ le_bytes 8 (do_unlockHeight out) @
     do_kemCt out @ do_encPayload out @ do_spendCommit out"

lemma fold_append [buf_simps]:
  "fold (\<lambda>x buf. buf @ f x) xs buf = buf @ concat (map f xs)"
  by (induction xs arbitrary: buf) simp_all

lemma fold_images [buf_simps]:
  "fold appendDigestInput ins buf = buf @ concat (map input_image ins)"
  "fold appendDigestOutput outs buf = buf @ concat (map output_image outs)"
proof -
  show "fold appendDigestInput ins buf = buf @ concat (map input_image ins)"
    by (induction ins arbitrary: buf) (simp_all add: appendDigestInput_def input_image_def appendLe32_def)
  show "fold appendDigestOutput outs buf = buf @ concat (map output_image outs)"
    by (induction outs arbitrary: buf) (simp_all add: appendDigestOutput_def output_image_def appendLe64_def)
qed

lemma body_flat [buf_simps]:
  "appendUnsignedTxBody buf tx =
     buf @ ut_version tx # ut_txType tx # le_bytes 8 (ut_unlockHeight tx) @
     le_bytes 4 (of_nat (length (ut_inputs tx)) :: u32) @ concat (map input_image (ut_inputs tx)) @
     le_bytes 4 (of_nat (length (ut_outputs tx)) :: u32) @ concat (map output_image (ut_outputs tx)) @
     le_bytes 4 (of_nat (length (ut_extra tx)) :: u32) @ ut_extra tx @ le_bytes 8 (ut_fee tx)"
  by (simp add: appendUnsignedTxBody_def Let_def buf_simps)

lemma concat_fixed_inject:
  assumes "\<And>x. x \<in> set xs \<union> set ys \<Longrightarrow> length (f x) = k" and "length xs = length ys"
    and "concat (map f xs) @ r = concat (map f ys) @ r'"
  shows "map f xs = map f ys \<and> r = r'"
  using assms(2,1,3) by (induction xs ys rule: list_induct2) auto

lemma count_inject: "m < 2 ^ 32 \<Longrightarrow> n < 2 ^ 32 \<Longrightarrow> (of_nat m :: u32) = of_nat n \<Longrightarrow> m = n"
proof -
  assume b: "m < 2 ^ 32" "n < 2 ^ 32" and "(of_nat m :: u32) = of_nat n"
  then have "unat (of_nat m :: u32) = unat (of_nat n :: u32)" by simp
  then show "m = n" using b by (simp add: unat_of_nat)
qed

text \<open>The sizes the C++ types fix, and counts that fit their 32-bit length field.\<close>

definition input_wf :: "DigestInput \<Rightarrow> bool" where
  "input_wf i \<longleftrightarrow> length (di_prevTxid i) = HASH_SIZE \<and> length (di_authPub i) = PQ_AUTH_PUB_SIZE \<and>
     length (di_rhoReveal i) = PQ_RHO_SIZE"

definition output_wf :: "DigestOutput \<Rightarrow> bool" where
  "output_wf out \<longleftrightarrow> length (do_kemCt out) = PQ_KEM_CIPHERTEXT_SIZE \<and>
     length (do_encPayload out) = PQ_ENC_PAYLOAD_SIZE \<and> length (do_spendCommit out) = HASH_SIZE"

definition unsigned_wf :: "UnsignedTx \<Rightarrow> bool" where
  "unsigned_wf tx \<longleftrightarrow> list_all input_wf (ut_inputs tx) \<and> list_all output_wf (ut_outputs tx) \<and>
     length (ut_inputs tx) < 2 ^ 32 \<and> length (ut_outputs tx) < 2 ^ 32 \<and> length (ut_extra tx) < 2 ^ 32"

lemma input_image_inject:
  assumes "input_wf i" and "input_wf j" and "input_image i = input_image j"
  shows "i\<lparr>di_keyRef := 0\<rparr> = j\<lparr>di_keyRef := 0\<rparr>"
  using assms by (cases i; cases j) (simp add: input_wf_def input_image_def le_bytes_inject)

lemma output_image_inject:
  assumes "output_wf i" and "output_wf j" and "output_image i = output_image j"
  shows "i = j"
  using assms by (cases i; cases j) (simp add: output_wf_def output_image_def le_bytes_inject)

definition keyless :: "UnsignedTx \<Rightarrow> UnsignedTx" where
  "keyless tx = tx\<lparr>ut_inputs := map (\<lambda>i. i\<lparr>di_keyRef := 0\<rparr>) (ut_inputs tx)\<rparr>"

lemma images_inject:
  assumes "list_all input_wf xs" "list_all input_wf ys" "length xs = length ys"
    and "concat (map input_image xs) @ r = concat (map input_image ys) @ r'"
  shows "map (\<lambda>i. i\<lparr>di_keyRef := 0\<rparr>) xs = map (\<lambda>i. i\<lparr>di_keyRef := 0\<rparr>) ys \<and> r = r'"
proof -
  have k: "length (input_image i) = HASH_SIZE + 4 + PQ_AUTH_PUB_SIZE + PQ_RHO_SIZE"
    if "i \<in> set xs \<union> set ys" for i
    using that assms(1,2) by (auto simp: list_all_iff input_wf_def input_image_def)
  have eq: "map input_image xs = map input_image ys" "r = r'"
    using concat_fixed_inject [OF k assms(3,4)] by auto
  have "(xs ! n)\<lparr>di_keyRef := 0\<rparr> = (ys ! n)\<lparr>di_keyRef := 0\<rparr>" if "n < length xs" for n
    using that assms(1-3) eq(1) by (intro input_image_inject) (auto simp: list_all_length list_eq_iff_nth_eq)
  with assms(3) eq(2) show ?thesis by (auto simp: list_eq_iff_nth_eq)
qed

lemma output_images_inject:
  assumes "list_all output_wf xs" "list_all output_wf ys" "length xs = length ys"
    and "concat (map output_image xs) @ r = concat (map output_image ys) @ r'"
  shows "xs = ys \<and> r = r'"
proof -
  have k: "length (output_image i) = 17 + PQ_KEM_CIPHERTEXT_SIZE + PQ_ENC_PAYLOAD_SIZE + HASH_SIZE"
    if "i \<in> set xs \<union> set ys" for i
    using that assms(1,2) by (auto simp: list_all_iff output_wf_def output_image_def)
  have eq: "map output_image xs = map output_image ys" "r = r'"
    using concat_fixed_inject [OF k assms(3,4)] by auto
  have "xs ! n = ys ! n" if "n < length xs" for n
    using that assms(1-3) eq(1) by (intro output_image_inject) (auto simp: list_all_length list_eq_iff_nth_eq)
  with assms(3) eq(2) show ?thesis by (auto simp: list_eq_iff_nth_eq)
qed

lemma body_inject:
  assumes t: "unsigned_wf t" and u: "unsigned_wf u"
    and eq: "appendUnsignedTxBody [] t @ r = appendUnsignedTxBody [] u @ r'"
  shows "keyless t = keyless u \<and> r = r'"
proof -
  let ?tail = "\<lambda>x s. le_bytes 4 (of_nat (length (ut_extra x)) :: u32) @ ut_extra x @ le_bytes 8 (ut_fee x) @ s"
  let ?outs = "\<lambda>x s. le_bytes 4 (of_nat (length (ut_outputs x)) :: u32) @
                      concat (map output_image (ut_outputs x)) @ ?tail x s"
  from eq have h: "ut_version t = ut_version u" "ut_txType t = ut_txType u"
    "ut_unlockHeight t = ut_unlockHeight u"
    "(of_nat (length (ut_inputs t)) :: u32) = of_nat (length (ut_inputs u))"
    and i: "concat (map input_image (ut_inputs t)) @ ?outs t r
            = concat (map input_image (ut_inputs u)) @ ?outs u r'"
    by (simp_all add: body_flat le_bytes_inject)
  have "length (ut_inputs t) = length (ut_inputs u)"
    using count_inject h(4) t u by (simp add: unsigned_wf_def)
  then have ins: "map (\<lambda>i. i\<lparr>di_keyRef := 0\<rparr>) (ut_inputs t) = map (\<lambda>i. i\<lparr>di_keyRef := 0\<rparr>) (ut_inputs u)"
    and o: "?outs t r = ?outs u r'"
    using images_inject [OF _ _ _ i] t u by (simp_all add: unsigned_wf_def)
  from o have oc: "(of_nat (length (ut_outputs t)) :: u32) = of_nat (length (ut_outputs u))"
    and oo: "concat (map output_image (ut_outputs t)) @ ?tail t r
             = concat (map output_image (ut_outputs u)) @ ?tail u r'"
    by (simp_all add: le_bytes_inject)
  have "length (ut_outputs t) = length (ut_outputs u)"
    using count_inject oc t u by (simp add: unsigned_wf_def)
  then have outs: "ut_outputs t = ut_outputs u" and e: "?tail t r = ?tail u r'"
    using output_images_inject [OF _ _ _ oo] t u by (simp_all add: unsigned_wf_def)
  from e have "(of_nat (length (ut_extra t)) :: u32) = of_nat (length (ut_extra u))"
    by (simp add: le_bytes_inject)
  then have "length (ut_extra t) = length (ut_extra u)"
    using count_inject t u by (simp add: unsigned_wf_def)
  with e have "ut_extra t = ut_extra u" "ut_fee t = ut_fee u" "r = r'"
    by (simp_all add: le_bytes_inject)
  with h ins outs show ?thesis by (simp add: keyless_def)
qed

lemma body_buf: "appendUnsignedTxBody buf tx = buf @ appendUnsignedTxBody [] tx"
  by (simp add: body_flat)

lemma ascii_length [simp]: "length (ascii s) = length s"
  by (simp add: ascii_def)

section \<open>Properties\<close>

text \<open>
  The version-1 signing transcript binds the whole unsigned transaction except the key
  references: two well-formed transactions with the same transcript agree in every field that
  version 1 knows, so no field that the transaction id covers can be changed under an existing
  signature.
\<close>

theorem transcript_v1_binds_body:
  assumes "unsigned_wf t" and "unsigned_wf u" and "txSigningBuf t = txSigningBuf u"
  shows "keyless t = keyless u"
proof -
  have "appendUnsignedTxBody [] t @ [] = appendUnsignedTxBody [] u @ []"
    using assms(3) unfolding txSigningBuf_def body_buf [of "appendDomain [] kDomainTxSign"] by simp
  then show ?thesis using body_inject [OF assms(1,2)] by simp
qed

definition sample_unsigned :: "u32 \<Rightarrow> UnsignedTx" where
  "sample_unsigned ref = \<lparr>ut_version = 1, ut_txType = 1, ut_unlockHeight = 0,
     ut_inputs = [\<lparr>di_prevTxid = replicate 32 1, di_prevOutIndex = 7, di_authPub = replicate 1952 2,
                   di_rhoReveal = replicate 32 3, di_keyRef = ref\<rparr>],
     ut_outputs = [], ut_extra = [9], ut_fee = 1\<rparr>"

lemma sample_unsigned_wf: "unsigned_wf (sample_unsigned ref)"
  by (simp add: sample_unsigned_def unsigned_wf_def input_wf_def size_defs)

lemma transcript_v1_binds_body_witness:
  "txSigningBuf (sample_unsigned 0) = txSigningBuf (sample_unsigned 5) \<and>
   keyless (sample_unsigned 0) = keyless (sample_unsigned 5)"
proof -
  have "txSigningBuf (sample_unsigned 0) = txSigningBuf (sample_unsigned 5)"
    by (simp add: txSigningBuf_def body_flat sample_unsigned_def input_image_def)
  with transcript_v1_binds_body [OF sample_unsigned_wf sample_unsigned_wf] show ?thesis by blast
qed

lemma keyRefs_inject:
  assumes "length xs = length ys"
    and "concat (map (\<lambda>i. le_bytes 4 (di_keyRef i)) xs) @ r = concat (map (\<lambda>i. le_bytes 4 (di_keyRef i)) ys) @ r'"
  shows "map di_keyRef xs = map di_keyRef ys \<and> r = r'"
  using assms by (induction xs ys rule: list_induct2) (auto simp: le_bytes_inject)

lemma keyless_with_refs:
  assumes "keyless t = keyless u" and "map di_keyRef (ut_inputs t) = map di_keyRef (ut_inputs u)"
  shows "t = u"
proof -
  have f: "ut_version t = ut_version u" "ut_txType t = ut_txType u"
    "ut_unlockHeight t = ut_unlockHeight u" "ut_outputs t = ut_outputs u"
    "ut_extra t = ut_extra u" "ut_fee t = ut_fee u"
    "map (\<lambda>i. i\<lparr>di_keyRef := 0\<rparr>) (ut_inputs t) = map (\<lambda>i. i\<lparr>di_keyRef := 0\<rparr>) (ut_inputs u)"
    using assms(1) by (cases t; cases u; simp add: keyless_def)+
  have len: "length (ut_inputs t) = length (ut_inputs u)" using assms(2) by (rule map_eq_imp_length_eq)
  have "ut_inputs t ! n = ut_inputs u ! n" if n: "n < length (ut_inputs t)" for n
  proof -
    have "(ut_inputs t ! n)\<lparr>di_keyRef := 0\<rparr> = (ut_inputs u ! n)\<lparr>di_keyRef := 0\<rparr>"
      using f(7) n len by (metis nth_map)
    moreover have "di_keyRef (ut_inputs t ! n) = di_keyRef (ut_inputs u ! n)"
      using assms(2) n len by (metis nth_map)
    ultimately show ?thesis by (cases "ut_inputs t ! n"; cases "ut_inputs u ! n") simp
  qed
  then have "ut_inputs t = ut_inputs u" using len by (simp add: list_eq_iff_nth_eq)
  with f show ?thesis by (cases t; cases u) simp
qed

text \<open>
  C4. The version-2 transcript is injective on well-formed input: equal transcripts mean the
  same chain, the same transaction with the same key reference in every input, and the same
  signing input.  So a signature is good in exactly one position on exactly one network, and a
  transaction cannot be re-encoded between the key-carrying and the key-reference form.
\<close>

theorem transcript_v2_binds_everything:
  assumes wf: "unsigned_wf t" "unsigned_wf u" and c: "length c = HASH_SIZE" "length d = HASH_SIZE"
  shows "txSigningBufV2 t c i = txSigningBufV2 u d j \<longleftrightarrow> t = u \<and> c = d \<and> i = j"
proof
  let ?refs = "\<lambda>x. concat (map (\<lambda>i. le_bytes 4 (di_keyRef i)) (ut_inputs x))"
  assume "txSigningBufV2 t c i = txSigningBufV2 u d j"
  then have "ascii kDomainTxSignV2 @ c @ appendUnsignedTxBody [] t @ ?refs t @ le_bytes 4 i
             = ascii kDomainTxSignV2 @ d @ appendUnsignedTxBody [] u @ ?refs u @ le_bytes 4 j"
    unfolding txSigningBufV2_def txSigningPrefixV2_def
      body_buf [of "appendDomain [] kDomainTxSignV2 @ c"] body_buf [of "appendDomain [] kDomainTxSignV2 @ d"]
    by (simp add: appendDomain_def appendLe32_def fold_append)
  then have cd: "c = d"
    and body: "appendUnsignedTxBody [] t @ ?refs t @ le_bytes 4 i
               = appendUnsignedTxBody [] u @ ?refs u @ le_bytes 4 j"
    using c by simp_all
  have kl: "keyless t = keyless u" and refs: "?refs t @ le_bytes 4 i = ?refs u @ le_bytes 4 j"
    using body_inject [OF wf body] by simp_all
  have "length (ut_inputs t) = length (ut_inputs u)"
    using arg_cong [OF kl, of "\<lambda>x. length (ut_inputs x)"] by (simp add: keyless_def)
  then have "map di_keyRef (ut_inputs t) = map di_keyRef (ut_inputs u)" "i = j"
    using keyRefs_inject [OF _ refs] by (simp_all add: le_bytes_inject)
  with kl cd keyless_with_refs show "t = u \<and> c = d \<and> i = j" by simp
qed simp

lemma transcript_v2_binds_everything_witness:
  "txSigningBufV2 (sample_unsigned 0) (replicate 32 4) 0 \<noteq> txSigningBufV2 (sample_unsigned 0) (replicate 32 4) 1 \<and>
   txSigningBufV2 (sample_unsigned 0) (replicate 32 4) 0 \<noteq> txSigningBufV2 (sample_unsigned 5) (replicate 32 4) 0"
  by (simp add: transcript_v2_binds_everything sample_unsigned_wf HASH_SIZE_def)
    (simp add: sample_unsigned_def)

text \<open>
  The batch computation of version-2 digests, which absorbs the shared prefix once, gives
  the same digests as hashing each transcript on its own, for any incremental hash that agrees
  with the one-shot hash on two successive pieces.
\<close>

theorem batch_digests_agree:
  assumes "\<And>a b. inc_finalize (inc_absorb (inc_absorb inc_init a) b) = sha3_256 (a @ b)"
  shows "txSigningDigestsV2 inc_init inc_absorb inc_finalize tx chainId idxs
         = map (txSigningDigestV2 sha3_256 tx chainId) idxs"
  using assms
  by (simp add: txSigningDigestsV2_def txSigningDigestV2_def txSigningBufV2_def appendLe32_def Let_def)

lemma batch_digests_agree_witness:
  "txSigningDigestsV2 [] (@) rev (sample_unsigned 0) (replicate 32 4) [0, 1]
   = map (txSigningDigestV2 rev (sample_unsigned 0) (replicate 32 4)) [0, 1]"
  by (rule batch_digests_agree) simp

definition domain_tags :: "string list" where
  "domain_tags = [kDomainInputsHash, kDomainOutContext, kDomainOutContextV2, kDomainAeadKey,
     kDomainSpendCommit, kDomainNullifier, kDomainTxSign, kDomainTxSignV2, kDomainCoinbaseRho,
     kReservedCtMask, kReservedShieldedSerial]"

lemmas domain_defs = kDomainInputsHash_def kDomainOutContext_def kDomainOutContextV2_def
  kDomainAeadKey_def kDomainSpendCommit_def kDomainNullifier_def kDomainTxSign_def
  kDomainTxSignV2_def kDomainCoinbaseRho_def kReservedCtMask_def kReservedShieldedSerial_def

lemma domain_tags_prefix_free: "\<forall>s \<in> set domain_tags. \<forall>t \<in> set domain_tags. prefix s t \<longrightarrow> s = t"
  by (simp add: domain_tags_def domain_defs)

lemma of_char_byte_inject: "(of_nat (of_char c) :: byte) = of_nat (of_char d) \<Longrightarrow> c = d"
proof -
  assume "(of_nat (of_char c) :: byte) = of_nat (of_char d)"
  then have "unat (of_nat (of_char c) :: byte) = unat (of_nat (of_char d) :: byte)" by simp
  moreover have "unat (of_nat (of_char e) :: byte) = of_char e" for e
  proof -
    have "(of_char e :: nat) < 256" by (rule nat_of_char_less_256)
    then show ?thesis by (rule unat_of_nat_byte)
  qed
  ultimately have "(of_char c :: nat) = of_char d" by simp
  then show "c = d" by simp
qed

lemma ascii_prefix: "prefix (ascii s) (ascii t) \<Longrightarrow> prefix s t"
proof (induction s arbitrary: t)
  case (Cons c s)
  then obtain d u where "t = d # u" by (cases t) (simp_all add: ascii_def)
  with Cons show ?case by (auto simp: ascii_def dest: of_char_byte_inject)
qed simp

lemma tag_determined:
  assumes "s \<in> set domain_tags" and "t \<in> set domain_tags" and "ascii s @ x = ascii t @ y"
  shows "s = t"
proof -
  have "prefix (ascii s) (ascii t @ y)" by (metis assms(3) prefixI)
  moreover have "prefix (ascii t) (ascii t @ y)" by simp
  ultimately have "prefix (ascii s) (ascii t) \<or> prefix (ascii t) (ascii s)"
    using prefix_same_cases by blast
  then show ?thesis using ascii_prefix domain_tags_prefix_free assms(1,2) by metis
qed

lemma bufs_tagged:
  "\<exists>x. inputsHash_buf ins = ascii kDomainInputsHash @ x"
  "\<exists>x. outContext_buf ih ct k = ascii kDomainOutContextV2 @ x"
  "\<exists>x. legacyOutContextV1_buf ih ct k t = ascii kDomainOutContext @ x"
  "\<exists>x. spendCommit_buf p r = ascii kDomainSpendCommit @ x"
  "\<exists>x. nullifier_buf p r txid k = ascii kDomainNullifier @ x"
  "\<exists>x. coinbaseRho_buf p h k = ascii kDomainCoinbaseRho @ x"
  "\<exists>x. txSigningBuf tx = ascii kDomainTxSign @ x"
  "\<exists>x. txSigningBufV2 tx c k = ascii kDomainTxSignV2 @ x"
proof -
  have "fold (\<lambda>i buf. appendLe32 (buf @ ref_prevTxid i) (ref_prevOutIndex i)) ins buf
        = buf @ concat (map (\<lambda>i. ref_prevTxid i @ le_bytes 4 (ref_prevOutIndex i)) ins)" for buf
    by (induction ins arbitrary: buf) (simp_all add: appendLe32_def)
  then show "\<exists>x. inputsHash_buf ins = ascii kDomainInputsHash @ x"
    by (simp add: inputsHash_buf_def appendDomain_def)
qed (simp_all add: buf_simps outContext_buf_def legacyOutContextV1_buf_def spendCommit_buf_def
       nullifier_buf_def coinbaseRho_buf_def txSigningBuf_def txSigningBufV2_def txSigningPrefixV2_def)

lemma tagged_distinct:
  assumes "list_all2 (\<lambda>t b. \<exists>x. b = ascii t @ x) ts bs" and "distinct ts" and "set ts \<subseteq> set domain_tags"
  shows "distinct bs"
  using assms
proof (induction ts bs rule: list_all2_induct)
  case (Cons t ts b bs)
  have "b \<noteq> b'" if m: "b' \<in> set bs" for b'
  proof -
    obtain n where n: "n < length bs" "bs ! n = b'" using m by (auto simp: in_set_conv_nth)
    then obtain y where y: "ts ! n \<in> set ts" "b' = ascii (ts ! n) @ y"
      using Cons.hyps(2) by (auto simp: list_all2_conv_all_nth)
    obtain x where x: "b = ascii t @ x" using Cons.hyps(1) by blast
    have "t \<noteq> ts ! n" "t \<in> set domain_tags" "ts ! n \<in> set domain_tags" using y(1) Cons.prems by auto
    then show ?thesis using tag_determined [of t "ts ! n" x y] x y(2) by blast
  qed
  with Cons show ?case by auto
qed simp

text \<open>
  C31. Domain separation: whatever their arguments, the eight SHA3 derivations never hash the
  same bytes, so a value of one kind is never valid as a value of another kind by construction.
\<close>

theorem derivations_never_share_a_preimage:
  "distinct [inputsHash_buf ins, outContext_buf ih ct k, legacyOutContextV1_buf ih' ct' k' t,
     spendCommit_buf p r, nullifier_buf p' r' txid k'', coinbaseRho_buf p'' h m,
     txSigningBuf tx, txSigningBufV2 tx' c n]"
proof (rule tagged_distinct)
  let ?tags = "[kDomainInputsHash, kDomainOutContextV2, kDomainOutContext, kDomainSpendCommit,
    kDomainNullifier, kDomainCoinbaseRho, kDomainTxSign, kDomainTxSignV2]"
  show "distinct ?tags" by (simp add: domain_defs)
  show "set ?tags \<subseteq> set domain_tags" by (auto simp: domain_tags_def)
qed (simp add: bufs_tagged)

text \<open>
  C32. The nullifier's preimage determines the spent output: key, rho and outpoint.  Two
  outputs that share key and rho therefore still have different preimages.
\<close>

theorem nullifier_binds_outpoint:
  assumes "length p = PQ_AUTH_PUB_SIZE" "length p' = PQ_AUTH_PUB_SIZE"
    "length r = PQ_RHO_SIZE" "length r' = PQ_RHO_SIZE" "length t = HASH_SIZE" "length t' = HASH_SIZE"
  shows "nullifier_buf p r t k = nullifier_buf p' r' t' k' \<longleftrightarrow> p = p' \<and> r = r' \<and> t = t' \<and> k = k'"
  using assms by (simp add: nullifier_buf_def appendDomain_def appendLe32_def le_bytes_inject)

lemma nullifier_binds_outpoint_witness:
  "nullifier_buf (replicate 1952 1) (replicate 32 2) (replicate 32 3) 0
   \<noteq> nullifier_buf (replicate 1952 1) (replicate 32 2) (replicate 32 3) 1"
  by (subst nullifier_binds_outpoint) (simp_all add: size_defs)

end
