(* ===== verification/Config.thy ===== *)
theory Config
  imports Prelude
begin

text \<open>
  The consensus parameters of src/src/CryptoNoteConfig.h that the modelled components use, and
  the fee floor defined there.  64-bit constants are kept as machine words where the code
  computes with them, and as natural numbers where they only bound a size.
\<close>

named_theorems config_simps \<open>values of the consensus parameters\<close>

definition DIFFICULTY_TARGET :: u64 where [config_simps]: "DIFFICULTY_TARGET = 90"
definition EXPECTED_NUMBER_OF_BLOCKS_PER_DAY :: u64 where
  [config_simps]: "EXPECTED_NUMBER_OF_BLOCKS_PER_DAY = 24 * 60 * 60 div DIFFICULTY_TARGET"
definition EMISSION_CURVE_TARGET :: u64 where [config_simps]: "EMISSION_CURVE_TARGET = 2100000000"
definition TAIL_EMISSION_REWARD :: u64 where [config_simps]: "TAIL_EMISSION_REWARD = 100"
definition CRYPTONOTE_COIN_VERSION :: u64 where [config_simps]: "CRYPTONOTE_COIN_VERSION = 1"
definition EMISSION_SPEED_FACTOR :: nat where [config_simps]: "EMISSION_SPEED_FACTOR = 18"
definition CRYPTONOTE_MINED_MONEY_UNLOCK_WINDOW :: u64 where
  [config_simps]: "CRYPTONOTE_MINED_MONEY_UNLOCK_WINDOW = 10"
definition CRYPTONOTE_BLOCK_GRANTED_FULL_REWARD_ZONE :: u64 where
  [config_simps]: "CRYPTONOTE_BLOCK_GRANTED_FULL_REWARD_ZONE = 1000000"
definition MINIMUM_FEE :: u64 where [config_simps]: "MINIMUM_FEE = 1"
definition MINIMUM_DIFFICULTY :: u64 where [config_simps]: "MINIMUM_DIFFICULTY = 100000"
definition DIFFICULTY_WINDOW :: u64 where [config_simps]: "DIFFICULTY_WINDOW = 60"

definition MAX_EXTRA_SIZE_PQ :: nat where [config_simps]: "MAX_EXTRA_SIZE_PQ = 4096"
definition TX_EXTRA_FEE_FREE_BYTES :: u64 where [config_simps]: "TX_EXTRA_FEE_FREE_BYTES = 3200"
definition TX_EXTRA_FEE_CHUNK_BYTES :: u64 where [config_simps]: "TX_EXTRA_FEE_CHUNK_BYTES = 100"
definition MAX_PQ_INPUTS_PER_TX :: nat where [config_simps]: "MAX_PQ_INPUTS_PER_TX = 32"
definition MAX_PQ_OUTPUTS_PER_TX :: nat where [config_simps]: "MAX_PQ_OUTPUTS_PER_TX = 64"
definition MAX_PQ_TX_SIZE :: nat where [config_simps]: "MAX_PQ_TX_SIZE = 256 * 1024"
definition FREE_REG_POW_TARGET :: u64 where [config_simps]: "FREE_REG_POW_TARGET = 0x00007FFFFFFFFFFF"
definition PQ_TRANSCRIPT_V2_HEIGHT :: u32 where [config_simps]: "PQ_TRANSCRIPT_V2_HEIGHT = 0xFFFFFFFF"
definition PQ_GROUPED_AUTH_HEIGHT :: u32 where
  [config_simps]: "PQ_GROUPED_AUTH_HEIGHT = PQ_TRANSCRIPT_V2_HEIGHT"

definition CRYPTONOTE_MAX_BLOCK_NUMBER :: u64 where [config_simps]: "CRYPTONOTE_MAX_BLOCK_NUMBER = 500000000"
definition CRYPTONOTE_MAX_BLOCK_BLOB_SIZE :: u64 where [config_simps]: "CRYPTONOTE_MAX_BLOCK_BLOB_SIZE = 500000000"
definition CRYPTONOTE_MAX_TX_SIZE :: u64 where [config_simps]: "CRYPTONOTE_MAX_TX_SIZE = 1000000000"
definition CRYPTONOTE_PUBLIC_ADDRESS_BASE58_PREFIX :: u64 where [config_simps]: "CRYPTONOTE_PUBLIC_ADDRESS_BASE58_PREFIX = 0x3445db"
definition CRYPTONOTE_TX_SPENDABLE_AGE :: u64 where [config_simps]: "CRYPTONOTE_TX_SPENDABLE_AGE = 3"
definition CRYPTONOTE_FINALITY_DEPTH :: u32 where [config_simps]: "CRYPTONOTE_FINALITY_DEPTH = 10"
definition CRYPTONOTE_BLOCK_FUTURE_TIME_LIMIT :: u64 where [config_simps]: "CRYPTONOTE_BLOCK_FUTURE_TIME_LIMIT = DIFFICULTY_TARGET * 7"
definition CRYPTONOTE_BLOCK_FUTURE_TIME_LIMIT_V1 :: u64 where [config_simps]: "CRYPTONOTE_BLOCK_FUTURE_TIME_LIMIT_V1 = DIFFICULTY_TARGET * 3"
definition BLOCKCHAIN_TIMESTAMP_CHECK_WINDOW :: u64 where [config_simps]: "BLOCKCHAIN_TIMESTAMP_CHECK_WINDOW = 60"
definition BLOCKCHAIN_TIMESTAMP_CHECK_WINDOW_V1 :: u64 where [config_simps]: "BLOCKCHAIN_TIMESTAMP_CHECK_WINDOW_V1 = 11"
definition CRYPTONOTE_REWARD_BLOCKS_WINDOW :: u64 where [config_simps]: "CRYPTONOTE_REWARD_BLOCKS_WINDOW = 100"
definition CRYPTONOTE_COINBASE_BLOB_RESERVED_SIZE :: u64 where [config_simps]: "CRYPTONOTE_COINBASE_BLOB_RESERVED_SIZE = 600"
definition DEFAULT_DUST_THRESHOLD :: u64 where [config_simps]: "DEFAULT_DUST_THRESHOLD = 1"
definition FREE_REG_PER_BLOCK :: u64 where [config_simps]: "FREE_REG_PER_BLOCK = 100"
definition FREE_REG_POOL_LIMIT :: u64 where [config_simps]: "FREE_REG_POOL_LIMIT = FREE_REG_PER_BLOCK * 20"
definition MAX_TRANSACTION_SIZE_LIMIT :: u64 where [config_simps]: "MAX_TRANSACTION_SIZE_LIMIT = of_nat MAX_PQ_TX_SIZE"
definition DIFFICULTY_CUT :: u64 where [config_simps]: "DIFFICULTY_CUT = 0"
definition DIFFICULTY_LAG :: u64 where [config_simps]: "DIFFICULTY_LAG = 0"
definition MAX_BLOCK_SIZE_INITIAL :: u64 where [config_simps]: "MAX_BLOCK_SIZE_INITIAL = 1000000"
definition MAX_BLOCK_SIZE_GROWTH_SPEED_NUMERATOR :: u64 where [config_simps]: "MAX_BLOCK_SIZE_GROWTH_SPEED_NUMERATOR = 512 * 1024"
definition MAX_BLOCK_SIZE_GROWTH_SPEED_DENOMINATOR :: u64 where [config_simps]: "MAX_BLOCK_SIZE_GROWTH_SPEED_DENOMINATOR = 365 * 24 * 60 * 60 div DIFFICULTY_TARGET"
definition CRYPTONOTE_LOCKED_TX_ALLOWED_DELTA_BLOCKS :: u64 where [config_simps]: "CRYPTONOTE_LOCKED_TX_ALLOWED_DELTA_BLOCKS = 1"
definition CRYPTONOTE_LOCKED_TX_ALLOWED_DELTA_SECONDS :: u64 where [config_simps]: "CRYPTONOTE_LOCKED_TX_ALLOWED_DELTA_SECONDS = DIFFICULTY_TARGET * CRYPTONOTE_LOCKED_TX_ALLOWED_DELTA_BLOCKS"
definition CRYPTONOTE_MEMPOOL_TX_LIVETIME :: u64 where [config_simps]: "CRYPTONOTE_MEMPOOL_TX_LIVETIME = 60 * 60 * 24"
definition CRYPTONOTE_MEMPOOL_TX_FROM_ALT_BLOCK_LIVETIME :: u64 where [config_simps]: "CRYPTONOTE_MEMPOOL_TX_FROM_ALT_BLOCK_LIVETIME = 60 * 60 * 24 * 7"
definition CRYPTONOTE_NUMBER_OF_PERIODS_TO_FORGET_TX_DELETED_FROM_POOL :: u64 where [config_simps]: "CRYPTONOTE_NUMBER_OF_PERIODS_TO_FORGET_TX_DELETED_FROM_POOL = 7"
definition UPGRADE_HEIGHT_V2 :: u32 where [config_simps]: "UPGRADE_HEIGHT_V2 = 4294967294"
definition UPGRADE_HEIGHT_V3 :: u32 where [config_simps]: "UPGRADE_HEIGHT_V3 = 4294967294"
definition UPGRADE_HEIGHT_V4 :: u32 where [config_simps]: "UPGRADE_HEIGHT_V4 = 4294967294"
definition UPGRADE_HEIGHT_V5 :: u32 where [config_simps]: "UPGRADE_HEIGHT_V5 = 4294967294"
definition UPGRADE_HEIGHT_V6 :: u32 where [config_simps]: "UPGRADE_HEIGHT_V6 = 4294967294"
definition UPGRADE_HEIGHT_V7 :: u32 where [config_simps]: "UPGRADE_HEIGHT_V7 = 4294967294"
definition UPGRADE_HEIGHT_V8 :: u32 where [config_simps]: "UPGRADE_HEIGHT_V8 = 4294967294"
definition PQ_DELIVERY_V2_HEIGHT :: u32 where [config_simps]: "PQ_DELIVERY_V2_HEIGHT = 4294967294"
definition PQ_DELIVERY_V2_HEIGHT_TESTNET :: u32 where [config_simps]: "PQ_DELIVERY_V2_HEIGHT_TESTNET = 4294967294"
definition UPGRADE_VOTING_THRESHOLD :: u32 where [config_simps]: "UPGRADE_VOTING_THRESHOLD = 90"
definition UPGRADE_VOTING_WINDOW :: u32 where [config_simps]: "UPGRADE_VOTING_WINDOW = ucast EXPECTED_NUMBER_OF_BLOCKS_PER_DAY"
definition UPGRADE_WINDOW :: u32 where [config_simps]: "UPGRADE_WINDOW = ucast EXPECTED_NUMBER_OF_BLOCKS_PER_DAY"
definition CRYPTONOTE_BLOCKS_FILENAME :: string where [config_simps]: "CRYPTONOTE_BLOCKS_FILENAME = ''blocks.dat''"
definition CRYPTONOTE_BLOCKINDEXES_FILENAME :: string where [config_simps]: "CRYPTONOTE_BLOCKINDEXES_FILENAME = ''blockindexes.dat''"
definition CRYPTONOTE_BLOCKSCACHE_FILENAME :: string where [config_simps]: "CRYPTONOTE_BLOCKSCACHE_FILENAME = ''blockscache.dat''"
definition CRYPTONOTE_BLOCKCHAIN_INDICES_FILENAME :: string where [config_simps]: "CRYPTONOTE_BLOCKCHAIN_INDICES_FILENAME = ''blockchainindices.dat''"
definition CRYPTONOTE_POOLDATA_FILENAME :: string where [config_simps]: "CRYPTONOTE_POOLDATA_FILENAME = ''poolstate.bin''"
definition GENESIS_BLOCK_TIMESTAMP :: u64 where [config_simps]: "GENESIS_BLOCK_TIMESTAMP = 1784123353"

section \<open>Fee floor\<close>

definition pqTxExtraSurcharge :: "u64 \<Rightarrow> u64 \<Rightarrow> u64" where
  "pqTxExtraSurcharge minFee extraSize =
     (if extraSize \<le> TX_EXTRA_FEE_FREE_BYTES then 0
      else let chargeable = extraSize - TX_EXTRA_FEE_FREE_BYTES
           in minFee * ((chargeable + TX_EXTRA_FEE_CHUNK_BYTES - 1) div TX_EXTRA_FEE_CHUNK_BYTES))"

definition pqTxFeeFloor :: "u64 \<Rightarrow> u64 \<Rightarrow> u64" where
  "pqTxFeeFloor minFee extraSize = minFee + pqTxExtraSurcharge minFee extraSize"

text \<open>
  Within the extra-size cap the fee floor is the flat fee plus one flat fee for every
  started chunk of 100 bytes beyond the free 3200, computed without wrap-around as long as ten
  flat fees fit in 64 bits.
\<close>

theorem fee_floor_exact:
  assumes "n \<le> MAX_EXTRA_SIZE_PQ" and "unat minFee * 10 < 2 ^ 64"
  shows "unat (pqTxFeeFloor minFee (of_nat n)) = unat minFee * (1 + (n - 3200 + 99) div 100)"
proof -
  have n: "n \<le> 4096" using assms(1) by (simp add: MAX_EXTRA_SIZE_PQ_def)
  have un: "unat (of_nat n :: u64) = n" using n by (simp add: unat_of_nat)
  show ?thesis
  proof (cases "n \<le> 3200")
    case True
    then have "(of_nat n :: u64) \<le> 3200" by (simp add: word_le_nat_alt un)
    then show ?thesis using True by (simp add: pqTxFeeFloor_def pqTxExtraSurcharge_def config_simps)
  next
    case False
    let ?k = "(n - 3200 + 99) div 100"
    have gt: "\<not> (of_nat n :: u64) \<le> 3200" using False by (simp add: word_le_nat_alt un)
    have sub: "(of_nat n - 3200 + 100 - 1 :: u64) = of_nat (n - 3200 + 99)"
      using False by (simp add: of_nat_diff)
    have dv: "(of_nat a div 100 :: u64) = of_nat (a div 100)" if "a < 2 ^ 64" for a
      using that by (simp only: word_arith_nat_div unat_of_nat) simp
    have "((of_nat n - 3200 + 100 - 1) div 100 :: u64) = of_nat ?k"
      unfolding sub using n by (intro dv) simp
    then have eq: "pqTxFeeFloor minFee (of_nat n) = minFee * of_nat (1 + ?k)"
      using gt by (simp add: pqTxFeeFloor_def pqTxExtraSurcharge_def config_simps distrib_left)
    have k: "1 + ?k \<le> 10" using n by simp
    have "unat minFee * (1 + ?k) \<le> unat minFee * 10" using k by (rule mult_le_mono2)
    then have lt: "unat minFee * (1 + ?k) < 2 ^ 64" using assms(2) by linarith
    have "unat (of_nat (1 + ?k) :: u64) = 1 + ?k" using k by (simp only: unat_of_nat) simp
    then show ?thesis
      unfolding eq using lt by (simp only: unat_word_ariths) simp
  qed
qed

lemma fee_floor_exact_witness:
  "unat (pqTxFeeFloor MINIMUM_FEE (of_nat 4096)) = unat MINIMUM_FEE * (1 + (4096 - 3200 + 99) div 100)"
  by (rule fee_floor_exact) (simp_all add: config_simps)

end
