(* ===== verification/Pq_Validation.thy ===== *)
theory Pq_Validation
  imports Config Tx_Extra Pq_Derive
begin

text \<open>
  Consensus validation of post-quantum transfers and free registrations:
  src/src/CryptoNoteCore/PqValidation.h and PqValidation.cpp.  The functions are context free:
  the outputs an input refers to are handed in as \<open>PqResolvedInput\<close>s.  The hash functions,
  ML-DSA verification and the yespower hash are the fields of the record \<open>pq_crypto\<close>.  A
  rejection carries the message the code reports.
\<close>

section \<open>Data\<close>

record 's pq_crypto =
  sha3_256 :: "bytes \<Rightarrow> hash"
  inc_init :: 's
  inc_absorb :: "'s \<Rightarrow> bytes \<Rightarrow> 's"
  inc_finalize :: "'s \<Rightarrow> hash"
  dsa_verify :: "bytes \<Rightarrow> bytes \<Rightarrow> bytes \<Rightarrow> bool"
  y_slow_hash :: "bytes \<Rightarrow> hash \<Rightarrow> hash option"

record PqResolvedInput =
  r_spendCommit :: hash
  r_amount :: u64
  r_exists :: bool
  r_isPqOutput :: bool
  r_isCoinbase :: bool

record PqSigningContext =
  useV2 :: bool
  chainId :: hash
  groupedAuth :: bool
  ctx_txType :: byte

section \<open>Unsigned form and nullifiers\<close>

definition pqInputFieldsValid :: "PqInput \<Rightarrow> bool" where
  "pqInputFieldsValid i \<longleftrightarrow> length (authPub i) = PQ_AUTH_PUB_SIZE \<and> length (rhoReveal i) = PQ_RHO_SIZE"

definition pqOutputFieldsValid :: "PqOutput \<Rightarrow> bool" where
  "pqOutputFieldsValid out \<longleftrightarrow> length (kemCt out) = PQ_KEM_CIPHERTEXT_SIZE \<and>
     length (encPayload out) = PQ_ENC_PAYLOAD_SIZE"

text \<open>\<open>boost::get\<close>: reading the wrong variant throws.\<close>

definition get_PqInput_of :: "TransactionInput \<Rightarrow> PqInput res" where
  "get_PqInput_of i = (case i of InPq p \<Rightarrow> Inr p | InBase _ \<Rightarrow> Inl ''boost::bad_get'')"

definition get_PqOutput_of :: "TransactionOutputTarget \<Rightarrow> PqOutput res" where
  "get_PqOutput_of t = (case t of OutPq out \<Rightarrow> Inr out | _ \<Rightarrow> Inl ''boost::bad_get'')"

definition digestInput :: "PqInput \<Rightarrow> DigestInput" where
  "digestInput p = \<lparr>di_prevTxid = prevTxid p, di_prevOutIndex = prevOutIndex p, di_authPub = authPub p,
     di_rhoReveal = rhoReveal p, di_keyRef = keyRef p\<rparr>"

definition digestOutput :: "TransactionOutput \<Rightarrow> PqOutput \<Rightarrow> DigestOutput" where
  "digestOutput out po = \<lparr>do_type = 0x10, do_amount = amount out, do_unlockHeight = outUnlockHeight out,
     do_kemCt = kemCt po, do_encPayload = encPayload po, do_spendCommit = spendCommit po\<rparr>"

fun digestInputs :: "TransactionInput list \<Rightarrow> DigestInput list res" where
  "digestInputs [] = Inr []"
| "digestInputs (i # is) =
     (case get_PqInput_of i of Inl e \<Rightarrow> Inl e
      | Inr p \<Rightarrow> (case digestInputs is of Inl e \<Rightarrow> Inl e | Inr ds \<Rightarrow> Inr (digestInput p # ds)))"

fun digestOutputs :: "TransactionOutput list \<Rightarrow> DigestOutput list res" where
  "digestOutputs [] = Inr []"
| "digestOutputs (out # outs) =
     (case get_PqOutput_of (target out) of Inl e \<Rightarrow> Inl e
      | Inr po \<Rightarrow> (case digestOutputs outs of Inl e \<Rightarrow> Inl e | Inr ds \<Rightarrow> Inr (digestOutput out po # ds)))"

definition pqUnsignedTx :: "Transaction \<Rightarrow> u64 \<Rightarrow> UnsignedTx res" where
  "pqUnsignedTx tx fee =
     (case digestInputs (inputs tx) of Inl e \<Rightarrow> Inl e
      | Inr ins \<Rightarrow> (case digestOutputs (outputs tx) of Inl e \<Rightarrow> Inl e
          | Inr outs \<Rightarrow> Inr \<lparr>ut_version = version tx, ut_txType = txType tx,
              ut_unlockHeight = unlockHeight tx, ut_inputs = ins, ut_outputs = outs,
              ut_extra = extra tx, ut_fee = fee\<rparr>))"

definition pqNullifier :: "(bytes \<Rightarrow> hash) \<Rightarrow> PqInput \<Rightarrow> hash" where
  "pqNullifier sha3 i =
     (if \<not> pqInputFieldsValid i then NULL_HASH
      else nullifier sha3 (authPub i) (rhoReveal i) (prevTxid i) (prevOutIndex i))"

section \<open>Shape of a transfer\<close>

fun semantic_inputs :: "TransactionInput list \<Rightarrow> nat list \<Rightarrow> nat \<Rightarrow> nat res" where
  "semantic_inputs ins [] keyInputs = Inr keyInputs"
| "semantic_inputs ins (i # is) keyInputs =
     (case ins ! i of
        InBase _ \<Rightarrow> Inl ''TX_PQ input is not a PqInput''
      | InPq p \<Rightarrow>
          if \<not> pqInputFieldsValid p then Inl ''PqInput field has wrong length''
          else if keyRef p = PQ_NO_KEY_REF then semantic_inputs ins is (keyInputs + 1)
          else if i \<le> unat (keyRef p) then
            Inl ''PqInput key reference does not name an earlier input''
          else (case get_PqInput_of (ins ! unat (keyRef p)) of
              Inl e \<Rightarrow> Inl e
            | Inr q \<Rightarrow>
                if keyRef q \<noteq> PQ_NO_KEY_REF then
                  Inl ''PqInput key reference names another key reference''
                else if authPub p \<noteq> authPub q then
                  Inl ''PqInput key reference does not match the referenced key''
                else semantic_inputs ins is keyInputs))"

fun semantic_outputs :: "TransactionOutput list \<Rightarrow> unit res" where
  "semantic_outputs [] = Inr ()"
| "semantic_outputs (out # outs) =
     (case target out of
        OutPq po \<Rightarrow>
          if amount out = 0 then Inl ''PQ output with zero amount''
          else if \<not> pqOutputFieldsValid po then Inl ''PqOutput field has wrong length''
          else semantic_outputs outs
      | _ \<Rightarrow> Inl ''TX_PQ output is not a PqOutput'')"

definition checkPqTransactionSemantic :: "Transaction \<Rightarrow> unit res" where
  "checkPqTransactionSemantic tx =
     (if \<not> isPqTransfer (txType tx) then Inl ''not a PQ transfer subtype''
      else if inputs tx = [] \<or> outputs tx = [] then Inl ''TX_PQ with empty inputs or outputs''
      else if MAX_PQ_GROUPED_INPUTS_PER_TX < length (inputs tx) then Inl ''too many PQ inputs''
      else if MAX_PQ_OUTPUTS_PER_TX < length (outputs tx) then Inl ''too many PQ outputs''
      else if unlockHeight tx \<noteq> 0 then Inl ''PQ tx must have unlockHeight == 0''
      else case semantic_inputs (inputs tx) [0..<length (inputs tx)] 0 of
        Inl e \<Rightarrow> Inl e
      | Inr keyInputs \<Rightarrow>
          if MAX_PQ_INPUTS_PER_TX < keyInputs then Inl ''too many key-carrying PQ inputs''
          else if length (pqSignatures tx) \<noteq> keyInputs then
            Inl ''pqSignatures count must equal the key-carrying input count''
          else if MAX_EXTRA_SIZE_PQ < length (extra tx) then Inl ''tx_extra exceeds MAX_EXTRA_SIZE_PQ''
          else case semantic_outputs (outputs tx) of
            Inl e \<Rightarrow> Inl e
          | Inr _ \<Rightarrow>
              if MAX_PQ_TX_SIZE < length (snd (toBinaryArray put_Transaction tx)) then
                Inl ''PQ tx exceeds MAX_PQ_TX_SIZE''
              else Inr ())"

section \<open>Free registrations\<close>

definition FREE_REG_POW_DOMAIN :: string where
  "FREE_REG_POW_DOMAIN = ''discrete-pq-free-reg-pow-v1''"

definition freeRegPow_buf :: "bytes \<Rightarrow> bytes \<Rightarrow> hash \<Rightarrow> u64 \<Rightarrow> bytes" where
  "freeRegPow_buf viewPub spendPub refBlockHash n =
     ascii FREE_REG_POW_DOMAIN @ viewPub @ spendPub @ refBlockHash @ le_bytes 8 n"

definition lead64 :: "hash \<Rightarrow> u64" where
  "lead64 h = fold (\<lambda>b acc. push_bit 8 acc OR ucast b) (take 8 h) 0"

definition checkFreeRegPow :: "(bytes \<Rightarrow> hash \<Rightarrow> hash option) \<Rightarrow> bytes \<Rightarrow> bytes \<Rightarrow> hash \<Rightarrow> u64 \<Rightarrow> u64 \<Rightarrow> bool" where
  "checkFreeRegPow yhash viewPub spendPub refBlockHash n tgt =
     (case yhash (freeRegPow_buf viewPub spendPub refBlockHash n) (replicate HASH_SIZE 0) of
        None \<Rightarrow> False
      | Some h \<Rightarrow> lead64 h \<le> tgt)"

fun count_reg_fields :: "TransactionExtraField list \<Rightarrow> nat \<Rightarrow> nat \<Rightarrow> (nat \<times> nat) res" where
  "count_reg_fields [] regCount powCount = Inr (regCount, powCount)"
| "count_reg_fields (f # fs) regCount powCount =
     (if as_pqReg f \<noteq> None then count_reg_fields fs (regCount + 1) powCount
      else if as_pow f \<noteq> None then count_reg_fields fs regCount (powCount + 1)
      else Inl ''TX_FREE_REG: unexpected tx_extra field'')"

definition checkFreeRegTransactionShape :: "Transaction \<Rightarrow> unit res" where
  "checkFreeRegTransactionShape tx =
     (if txType tx \<noteq> TX_FREE_REG then Inl ''not a TX_FREE_REG subtype''
      else if inputs tx \<noteq> [] \<or> outputs tx \<noteq> [] then Inl ''TX_FREE_REG must have no inputs or outputs''
      else if pqSignatures tx \<noteq> [] then Inl ''TX_FREE_REG must not carry pqSignatures''
      else if unlockHeight tx \<noteq> 0 then Inl ''TX_FREE_REG must have unlockHeight == 0''
      else case parseTransactionExtra (extra tx) of (ok, fs) \<Rightarrow>
        if \<not> ok then Inl ''TX_FREE_REG: malformed tx_extra''
        else case count_reg_fields fs 0 0 of
          Inl e \<Rightarrow> Inl e
        | Inr (regCount, powCount) \<Rightarrow>
            if regCount \<noteq> 1 \<or> powCount \<noteq> 1 then
              Inl ''TX_FREE_REG must have exactly one registration and one PoW tag''
            else if \<not> isPowTagLastField (extra tx) then
              Inl ''TX_FREE_REG: PoW tag is not the final tx_extra field''
            else Inr ())"

definition checkFreeRegTransactionPow :: "(bytes \<Rightarrow> hash \<Rightarrow> hash option) \<Rightarrow> Transaction \<Rightarrow> u64 \<Rightarrow> unit res" where
  "checkFreeRegTransactionPow yhash tx powTarget =
     (case (getPqAccountRegistrationFromExtra (extra tx), getPowTagFromExtra (extra tx)) of
        (Some (viewPub, spendPub), Some (refBlockHash, n)) \<Rightarrow>
          if \<not> checkFreeRegPow yhash viewPub spendPub refBlockHash n powTarget then
            Inl ''TX_FREE_REG: anti-spam PoW not satisfied''
          else Inr ()
      | _ \<Rightarrow> Inl ''TX_FREE_REG: missing registration or PoW tag'')"

definition checkFreeRegTransactionSemantic :: "(bytes \<Rightarrow> hash \<Rightarrow> hash option) \<Rightarrow> Transaction \<Rightarrow> u64 \<Rightarrow> unit res" where
  "checkFreeRegTransactionSemantic yhash tx powTarget =
     (case checkFreeRegTransactionShape tx of
        Inl e \<Rightarrow> Inl e
      | Inr _ \<Rightarrow> checkFreeRegTransactionPow yhash tx powTarget)"

section \<open>Signing context\<close>

definition pqTransferTypeForHeight :: "u32 \<Rightarrow> u32 \<Rightarrow> byte" where
  "pqTransferTypeForHeight height deliveryV2Height = (if deliveryV2Height \<le> height then TX_PQ_V2 else TX_PQ)"

definition pqSigningContextForHeight :: "u32 \<Rightarrow> hash \<Rightarrow> PqSigningContext" where
  "pqSigningContextForHeight height genesisId =
     \<lparr>useV2 = PQ_TRANSCRIPT_V2_HEIGHT \<le> height, chainId = genesisId,
      groupedAuth = PQ_GROUPED_AUTH_HEIGHT \<le> height, ctx_txType = TX_PQ\<rparr>"

section \<open>Inputs, balance and signatures\<close>

fun auth_structure :: "bool \<Rightarrow> TransactionInput list \<Rightarrow> nat list \<Rightarrow> u32 list \<Rightarrow> u32 list res" where
  "auth_structure keyRefsAllowed ins [] signers = Inr signers"
| "auth_structure keyRefsAllowed ins (i # is) signers =
     (case ins ! i of
        InBase _ \<Rightarrow> Inl ''TX_PQ input is not a PqInput''
      | InPq p \<Rightarrow>
          if keyRef p = PQ_NO_KEY_REF then auth_structure keyRefsAllowed ins is (signers @ [of_nat i])
          else if \<not> keyRefsAllowed then Inl ''key-reference inputs are not active at this height''
          else if i \<le> unat (keyRef p) then Inl ''key reference does not name an earlier input''
          else (case get_PqInput_of (ins ! unat (keyRef p)) of
              Inl e \<Rightarrow> Inl e
            | Inr q \<Rightarrow>
                if keyRef q \<noteq> PQ_NO_KEY_REF \<or> authPub q \<noteq> authPub p then
                  Inl ''key reference does not match a key-carrying input''
                else auth_structure keyRefsAllowed ins is signers))"

fun spend_inputs :: "(bytes \<Rightarrow> hash) \<Rightarrow> (TransactionInput \<times> PqResolvedInput) list \<Rightarrow>
    hash list \<Rightarrow> u64 \<Rightarrow> (hash list \<times> u64) res" where
  "spend_inputs sha3 [] computed sumIn = Inr (computed, sumIn)"
| "spend_inputs sha3 ((i, r) # irs) computed sumIn =
     (case get_PqInput_of i of
        Inl e \<Rightarrow> Inl e
      | Inr p \<Rightarrow>
          if \<not> pqInputFieldsValid p then Inl ''PqInput field has wrong length''
          else if \<not> r_exists r then Inl ''referenced output does not exist''
          else if \<not> r_isPqOutput r then Inl ''referenced output is not spendable by a PQ input''
          else if spendCommitHash sha3 (authPub p) (rhoReveal p) \<noteq> r_spendCommit r then
            Inl ''spend_commit mismatch''
          else let nf = pqNullifier sha3 p in
            if nf \<in> set computed then Inl ''duplicate nullifier within transaction''
            else if sumIn + r_amount r < sumIn then Inl ''input amount overflow''
            else spend_inputs sha3 irs (computed @ [nf]) (sumIn + r_amount r))"

fun sum_outputs :: "TransactionOutput list \<Rightarrow> u64 \<Rightarrow> u64 res" where
  "sum_outputs [] sumOut = Inr sumOut"
| "sum_outputs (out # outs) sumOut =
     (if sumOut + amount out < sumOut then Inl ''output amount overflow''
      else sum_outputs outs (sumOut + amount out))"

definition signing_digests :: "'s pq_crypto \<Rightarrow> PqSigningContext \<Rightarrow> UnsignedTx \<Rightarrow> u32 list \<Rightarrow> hash list" where
  "signing_digests C ctx u signers =
     (if useV2 ctx
      then txSigningDigestsV2 (inc_init C) (inc_absorb C) (inc_finalize C) u (chainId ctx) signers
      else replicate (length signers) (txSigningDigest (sha3_256 C) u))"

fun verify_signatures :: "'s pq_crypto \<Rightarrow> TransactionInput list \<Rightarrow> (u32 \<times> hash \<times> bytes) list \<Rightarrow> unit res" where
  "verify_signatures C ins [] = Inr ()"
| "verify_signatures C ins ((k, digest, sg) # rest) =
     (case get_PqInput_of (ins ! unat k) of
        Inl e \<Rightarrow> Inl e
      | Inr p \<Rightarrow>
          if \<not> dsa_verify C (authPub p) digest sg then Inl ''ML-DSA signature verification failed''
          else verify_signatures C ins rest)"

definition checkPqTransactionInputs ::
  "'s pq_crypto \<Rightarrow> Transaction \<Rightarrow> PqResolvedInput list \<Rightarrow> u64 \<Rightarrow> PqSigningContext \<Rightarrow> hash list res" where
  "checkPqTransactionInputs C tx resolved minFee signing =
     (if length resolved \<noteq> length (inputs tx) then Inl ''resolved inputs size mismatch''
      else case auth_structure (groupedAuth signing \<and> useV2 signing) (inputs tx) [0..<length (inputs tx)] [] of
        Inl e \<Rightarrow> Inl e
      | Inr signers \<Rightarrow>
          if length (pqSignatures tx) \<noteq> length signers then
            Inl ''pqSignatures count must equal the key-carrying input count''
          else case spend_inputs (sha3_256 C) (zip (inputs tx) resolved) [] 0 of
            Inl e \<Rightarrow> Inl e
          | Inr (computed, sumIn) \<Rightarrow>
              (case sum_outputs (outputs tx) 0 of
                 Inl e \<Rightarrow> Inl e
               | Inr sumOut \<Rightarrow>
                   if sumIn < sumOut then Inl ''outputs exceed inputs''
                   else let fee = sumIn - sumOut in
                     if minFee \<noteq> 0 \<and> fee < pqTxFeeFloor minFee (of_nat (length (extra tx))) then
                       Inl ''fee below minimum''
                     else case pqUnsignedTx tx fee of
                       Inl e \<Rightarrow> Inl e
                     | Inr u \<Rightarrow>
                         (case verify_signatures C (inputs tx)
                                 (zip signers (zip (signing_digests C signing u signers) (pqSignatures tx))) of
                            Inl e \<Rightarrow> Inl e
                          | Inr _ \<Rightarrow> Inr computed)))"

section \<open>What the loops decide\<close>

text \<open>The authorization of input \<open>i\<close>: its own key, or a reference to an earlier carrier of the same key.\<close>

definition auth_ok :: "bool \<Rightarrow> TransactionInput list \<Rightarrow> nat \<Rightarrow> bool" where
  "auth_ok keyRefsAllowed ins i =
     (case ins ! i of
        InBase _ \<Rightarrow> False
      | InPq p \<Rightarrow> keyRef p = PQ_NO_KEY_REF \<or>
          keyRefsAllowed \<and> unat (keyRef p) < i \<and>
          (case ins ! unat (keyRef p) of
             InBase _ \<Rightarrow> False
           | InPq q \<Rightarrow> keyRef q = PQ_NO_KEY_REF \<and> authPub q = authPub p))"

lemma auth_structure_step:
  "auth_ok al ins i \<Longrightarrow> auth_structure al ins (i # is) acc
     = auth_structure al ins is (acc @ (if carriesKey (ins ! i) then [of_nat i] else []))"
  "\<not> auth_ok al ins i \<Longrightarrow> \<exists>e. auth_structure al ins (i # is) acc = Inl e"
  by (auto simp: auth_ok_def get_PqInput_of_def split: TransactionInput.splits)

lemma auth_structure_iff:
  "auth_structure al ins idxs acc = Inr sg \<longleftrightarrow>
     (\<forall>i \<in> set idxs. auth_ok al ins i) \<and>
     sg = acc @ map of_nat (filter (\<lambda>i. carriesKey (ins ! i)) idxs)"
proof (induction idxs arbitrary: acc)
  case (Cons i idxs)
  show ?case
  proof (cases "auth_ok al ins i")
    case True
    then show ?thesis by (simp add: auth_structure_step(1) Cons.IH del: auth_structure.simps)
  next
    case False
    with auth_structure_step(2) [OF False, of idxs acc] show ?thesis by auto
  qed
qed auto

definition spendable :: "(bytes \<Rightarrow> hash) \<Rightarrow> PqInput \<Rightarrow> PqResolvedInput \<Rightarrow> bool" where
  "spendable sha3 p r \<longleftrightarrow> pqInputFieldsValid p \<and> r_exists r \<and> r_isPqOutput r \<and>
     spendCommitHash sha3 (authPub p) (rhoReveal p) = r_spendCommit r"

lemma spend_inputs_iff:
  "distinct computed \<Longrightarrow>
   spend_inputs sha3 (zip (map InPq ps) rs) computed sumIn = Inr (nfs, tot) \<longleftrightarrow>
     (\<forall>(p, r) \<in> set (zip ps rs). spendable sha3 p r) \<and>
     nfs = computed @ map (pqNullifier sha3) (take (length rs) ps) \<and> distinct nfs \<and>
     unat sumIn + (\<Sum>r \<leftarrow> take (length ps) rs. unat (r_amount r)) < 2 ^ 64 \<and>
     unat tot = unat sumIn + (\<Sum>r \<leftarrow> take (length ps) rs. unat (r_amount r))"
proof (induction ps arbitrary: rs computed sumIn)
  case Nil
  then show ?case using unsigned_less [of sumIn, where ?'a = nat] by (auto simp: word_unat_eq_iff)
next
  case (Cons p ps)
  show ?case
  proof (cases rs)
    case Nil
    then show ?thesis
      using Cons.prems unsigned_less [of sumIn, where ?'a = nat] by (auto simp: word_unat_eq_iff)
  next
    case (Cons r rs')
    show ?thesis
    proof (cases "spendable sha3 p r \<and> pqNullifier sha3 p \<notin> set computed \<and> \<not> sumIn + r_amount r < sumIn")
      case True
      then have add: "unat (sumIn + r_amount r) = unat sumIn + unat (r_amount r)"
        by (intro unat_add_exact) (simp add: word_add_overflow_iff not_le)
      have "distinct (computed @ [pqNullifier sha3 p])" using True Cons.prems by simp
      note IH = Cons.IH [OF this, of rs' "sumIn + r_amount r"]
      show ?thesis
        using True IH by (auto simp: Cons get_PqInput_of_def spendable_def Let_def add)
    next
      case False
      then show ?thesis
        using word_add_overflow_iff [of sumIn "r_amount r"]
        by (auto simp: Cons get_PqInput_of_def spendable_def Let_def not_le)
    qed
  qed
qed

lemma sum_outputs_iff:
  "sum_outputs outs s = Inr t \<longleftrightarrow>
     unat s + (\<Sum>out \<leftarrow> outs. unat (amount out)) < 2 ^ 64 \<and>
     unat t = unat s + (\<Sum>out \<leftarrow> outs. unat (amount out))"
proof (induction outs arbitrary: s)
  case Nil
  then show ?case using unsigned_less [of s, where ?'a = nat] by (auto simp: word_unat_eq_iff)
next
  case (Cons out outs)
  show ?case
  proof (cases "s + amount out < s")
    case True
    then show ?thesis using word_add_overflow_iff [of s "amount out"] by simp
  next
    case False
    then have "unat (s + amount out) = unat s + unat (amount out)"
      by (intro unat_add_exact) (simp add: word_add_overflow_iff not_le)
    then show ?thesis using False Cons.IH [of "s + amount out"] by (simp add: add.assoc)
  qed
qed

lemma verify_signatures_iff:
  "verify_signatures C ins ts = Inr u \<longleftrightarrow>
     (\<forall>(k, d, sg) \<in> set ts. \<exists>p. ins ! unat k = InPq p \<and> dsa_verify C (authPub p) d sg)"
  by (induction ts) (auto simp: get_PqInput_of_def split: TransactionInput.splits if_splits)

text \<open>The digest the signer at input \<open>j\<close> signs.\<close>

definition signed_digest :: "'s pq_crypto \<Rightarrow> PqSigningContext \<Rightarrow> UnsignedTx \<Rightarrow> u32 \<Rightarrow> hash" where
  "signed_digest C ctx u j =
     (if useV2 ctx
      then inc_finalize C (inc_absorb C (inc_absorb C (inc_init C) (txSigningPrefixV2 u (chainId ctx)))
             (appendLe32 [] j))
      else txSigningDigest (sha3_256 C) u)"

lemma signing_digests_map: "signing_digests C ctx u sgs = map (signed_digest C ctx u) sgs"
  by (simp add: signing_digests_def signed_digest_def [abs_def] txSigningDigestsV2_def Let_def map_replicate_const)

lemma auth_all_pq:
  assumes "\<forall>i < length ins. auth_ok al ins i"
  obtains ps where "ins = map InPq ps"
proof -
  have one: "\<exists>p. ins ! i = InPq p" if "auth_ok al ins i" for i
    using that by (cases "ins ! i") (simp_all add: auth_ok_def)
  have "\<exists>p. x = InPq p" if "x \<in> set ins" for x
    using assms one that by (auto simp: in_set_conv_nth)
  then have "\<exists>ps. ins = map InPq ps" by (simp add: ex_map_conv)
  then show thesis using that by blast
qed

lemma digestInputs_map: "digestInputs (map InPq ps) = Inr (map digestInput ps)"
  by (induction ps) (simp_all add: get_PqInput_of_def)

section \<open>The declarative rule\<close>

text \<open>
  What acceptance of a transfer means, without loops or machine words: every input owns or
  references a key, spends an existing output committed to that key, nullifiers are distinct,
  the amounts balance with a sufficient fee, and each key-carrying input has its signature.
\<close>

definition key_inputs :: "PqInput list \<Rightarrow> nat list" where
  "key_inputs ps = filter (\<lambda>j. keyRef (ps ! j) = PQ_NO_KEY_REF) [0..<length ps]"

definition in_total :: "PqResolvedInput list \<Rightarrow> nat" where
  "in_total rs = (\<Sum>r \<leftarrow> rs. unat (r_amount r))"

definition out_total :: "TransactionOutput list \<Rightarrow> nat" where
  "out_total outs = (\<Sum>out \<leftarrow> outs. unat (amount out))"

definition signatures_ok :: "'s pq_crypto \<Rightarrow> PqSigningContext \<Rightarrow> UnsignedTx \<Rightarrow> PqInput list \<Rightarrow> bytes list \<Rightarrow> bool" where
  "signatures_ok C ctx u ps sigs \<longleftrightarrow>
     list_all2 (\<lambda>j sg. dsa_verify C (authPub (ps ! j)) (signed_digest C ctx u (of_nat j)) sg) (key_inputs ps) sigs"

definition transfer_rule ::
  "'s pq_crypto \<Rightarrow> Transaction \<Rightarrow> PqResolvedInput list \<Rightarrow> u64 \<Rightarrow> PqSigningContext \<Rightarrow> hash list \<Rightarrow> bool" where
  "transfer_rule C tx resolved minFee ctx nfs \<longleftrightarrow>
     (\<exists>ps fee u.
        inputs tx = map InPq ps \<and> length resolved = length ps \<and>
        (\<forall>i < length ps. auth_ok (groupedAuth ctx \<and> useV2 ctx) (inputs tx) i) \<and>
        (\<forall>i < length ps. spendable (sha3_256 C) (ps ! i) (resolved ! i)) \<and>
        nfs = map (pqNullifier (sha3_256 C)) ps \<and> distinct nfs \<and>
        in_total resolved < 2 ^ 64 \<and> in_total resolved = out_total (outputs tx) + unat fee \<and>
        (minFee \<noteq> 0 \<longrightarrow> pqTxFeeFloor minFee (of_nat (length (extra tx))) \<le> fee) \<and>
        pqUnsignedTx tx fee = Inr u \<and> signatures_ok C ctx u ps (pqSignatures tx))"

lemma all_zip3:
  "length xs = length ys \<Longrightarrow> length ys = length zs \<Longrightarrow>
   (\<forall>(x, y, z) \<in> set (zip xs (zip ys zs)). P x y z) \<longleftrightarrow> (\<forall>i < length xs. P (xs ! i) (ys ! i) (zs ! i))"
  by (induction xs ys zs rule: list_induct3) (simp_all add: nth_Cons' All_less_Suc2)

lemma signatures_iff:
  assumes "length ps < 2 ^ 32" and "length sigs = length (key_inputs ps)"
  shows "verify_signatures C (map InPq ps) (zip (map of_nat (key_inputs ps))
       (zip (signing_digests C ctx u (map of_nat (key_inputs ps))) sigs)) = Inr v \<longleftrightarrow>
     signatures_ok C ctx u ps sigs"
proof -
  let ?K = "key_inputs ps"
  have "map InPq ps ! unat (of_nat (?K ! i) :: u32) = InPq (ps ! (?K ! i))" if i: "i < length ?K" for i
  proof -
    have "?K ! i \<in> set ?K" using i by (rule nth_mem)
    then have "?K ! i < length ps" by (simp add: key_inputs_def)
    then show ?thesis using assms(1) by (simp add: unat_of_nat)
  qed
  then show ?thesis
    using assms(2)
    by (simp add: verify_signatures_iff signatures_ok_def signing_digests_map all_zip3 list_all2_conv_all_nth)
qed

lemma key_signers:
  "filter (\<lambda>i. carriesKey (map InPq ps ! i)) [0..<length ps] = key_inputs ps"
  unfolding key_inputs_def by (rule filter_cong) simp_all

lemma all_zip_nth: "length xs = length ys \<Longrightarrow> (\<forall>(x, y) \<in> set (zip xs ys). P x y) \<longleftrightarrow> (\<forall>i < length xs. P (xs ! i) (ys ! i))"
  by (fastforce simp: set_zip)

lemma check_inputs_stages:
  "checkPqTransactionInputs C tx resolved minFee ctx = Inr nfs \<longleftrightarrow>
     (\<exists>sg sumIn sumOut u v. length resolved = length (inputs tx) \<and>
        auth_structure (groupedAuth ctx \<and> useV2 ctx) (inputs tx) [0..<length (inputs tx)] [] = Inr sg \<and>
        length (pqSignatures tx) = length sg \<and>
        spend_inputs (sha3_256 C) (zip (inputs tx) resolved) [] 0 = Inr (nfs, sumIn) \<and>
        sum_outputs (outputs tx) 0 = Inr sumOut \<and> sumOut \<le> sumIn \<and>
        (minFee \<noteq> 0 \<longrightarrow> pqTxFeeFloor minFee (of_nat (length (extra tx))) \<le> sumIn - sumOut) \<and>
        pqUnsignedTx tx (sumIn - sumOut) = Inr u \<and>
        verify_signatures C (inputs tx) (zip sg (zip (signing_digests C ctx u sg) (pqSignatures tx))) = Inr v)"
  unfolding checkPqTransactionInputs_def
  by (auto simp: Let_def not_less split: sum.split prod.split if_split)

lemma spend_all:
  assumes "length rs = length ps"
  shows "spend_inputs sha3 (zip (map InPq ps) rs) [] 0 = Inr (nfs, s) \<longleftrightarrow>
    (\<forall>i < length ps. spendable sha3 (ps ! i) (rs ! i)) \<and> nfs = map (pqNullifier sha3) ps \<and> distinct nfs \<and>
    in_total rs < 2 ^ 64 \<and> unat s = in_total rs"
  using assms spend_inputs_iff [of "[]" sha3 ps rs 0 nfs s]
  by (simp add: in_total_def all_zip_nth)

lemma input_check_sound:
  assumes chk: "checkPqTransactionInputs C tx resolved minFee ctx = Inr nfs" and n: "length (inputs tx) < 2 ^ 32"
  shows "transfer_rule C tx resolved minFee ctx nfs"
proof -
  from chk obtain sg sumIn sumOut u v where
    len: "length resolved = length (inputs tx)"
    and au: "auth_structure (groupedAuth ctx \<and> useV2 ctx) (inputs tx) [0..<length (inputs tx)] [] = Inr sg"
    and sl: "length (pqSignatures tx) = length sg"
    and sp: "spend_inputs (sha3_256 C) (zip (inputs tx) resolved) [] 0 = Inr (nfs, sumIn)"
    and so: "sum_outputs (outputs tx) 0 = Inr sumOut" "sumOut \<le> sumIn"
    and fee: "minFee \<noteq> 0 \<longrightarrow> pqTxFeeFloor minFee (of_nat (length (extra tx))) \<le> sumIn - sumOut"
    and u: "pqUnsignedTx tx (sumIn - sumOut) = Inr u"
    and vs: "verify_signatures C (inputs tx) (zip sg (zip (signing_digests C ctx u sg) (pqSignatures tx))) = Inr v"
    unfolding check_inputs_stages by blast
  from au have auth: "\<forall>i < length (inputs tx). auth_ok (groupedAuth ctx \<and> useV2 ctx) (inputs tx) i"
    by (simp add: auth_structure_iff)
  then obtain ps where ps: "inputs tx = map InPq ps" by (rule auth_all_pq)
  have sg: "sg = map of_nat (key_inputs ps)"
    using au by (simp add: auth_structure_iff ps key_signers del: nth_map)
  have bal: "unat (sumIn - sumOut) = in_total resolved - out_total (outputs tx)"
    "out_total (outputs tx) \<le> in_total resolved"
    using sp so len by (simp_all add: ps spend_all sum_outputs_iff out_total_def unat_sub word_le_nat_alt)
  have "signatures_ok C ctx u ps (pqSignatures tx)"
    using vs sl n signatures_iff [of ps "pqSignatures tx" C ctx u v] by (simp add: sg ps)
  then show ?thesis
    unfolding transfer_rule_def using sp len auth fee u bal
    by (intro exI [of _ ps] exI [of _ "sumIn - sumOut"] exI [of _ u]) (auto simp: ps spend_all)
qed

lemma input_check_complete:
  assumes rule: "transfer_rule C tx resolved minFee ctx nfs" and n: "length (inputs tx) < 2 ^ 32"
  shows "checkPqTransactionInputs C tx resolved minFee ctx = Inr nfs"
proof -
  from rule obtain ps fee u where ps: "inputs tx = map InPq ps" and len: "length resolved = length ps"
    and auth: "\<forall>i < length ps. auth_ok (groupedAuth ctx \<and> useV2 ctx) (inputs tx) i"
    and sp: "\<forall>i < length ps. spendable (sha3_256 C) (ps ! i) (resolved ! i)"
      "nfs = map (pqNullifier (sha3_256 C)) ps" "distinct nfs"
    and bal: "in_total resolved < 2 ^ 64" "in_total resolved = out_total (outputs tx) + unat fee"
    and fl: "minFee \<noteq> 0 \<longrightarrow> pqTxFeeFloor minFee (of_nat (length (extra tx))) \<le> fee"
    and u: "pqUnsignedTx tx fee = Inr u" and so: "signatures_ok C ctx u ps (pqSignatures tx)"
    unfolding transfer_rule_def by blast
  define a b :: u64 where "a = of_nat (in_total resolved)" and "b = of_nat (out_total (outputs tx))"
  have un: "unat (of_nat k :: u64) = k" if "k < 2 ^ 64" for k using that by (simp add: unat_of_nat)
  have ab: "unat a = in_total resolved" "unat b = out_total (outputs tx)"
    unfolding a_def b_def using bal by (simp_all only: un)
  have "b \<le> a" using ab bal by (simp add: word_le_nat_alt)
  moreover from this have "a - b = fee" using ab bal by (simp add: word_unat_eq_iff unat_sub)
  moreover have sl: "length (pqSignatures tx) = length (key_inputs ps)"
    using so by (simp add: signatures_ok_def list_all2_lengthD)
  moreover have "auth_structure (groupedAuth ctx \<and> useV2 ctx) (inputs tx) [0..<length (inputs tx)] []
                 = Inr (map of_nat (key_inputs ps))"
    using auth by (simp add: auth_structure_iff ps key_signers del: nth_map)
  moreover have "spend_inputs (sha3_256 C) (zip (inputs tx) resolved) [] 0 = Inr (nfs, a)"
    using sp bal ab len by (simp add: ps spend_all)
  moreover have "sum_outputs (outputs tx) 0 = Inr b"
    using ab bal by (simp add: sum_outputs_iff out_total_def)
  ultimately show ?thesis
    unfolding check_inputs_stages
    using len fl u so n signatures_iff [of ps "pqSignatures tx" C ctx u "()"]
    by (intro exI [of _ "map of_nat (key_inputs ps)"] exI [of _ a] exI [of _ b] exI [of _ u] exI [of _ "()"])
      (simp add: ps)
qed

section \<open>Properties\<close>


definition toy_crypto :: "bytes pq_crypto" where
  "toy_crypto = \<lparr>sha3_256 = (\<lambda>b. b), inc_init = [], inc_absorb = (@), inc_finalize = (\<lambda>b. b),
     dsa_verify = (\<lambda>pub d sg. sg = d), y_slow_hash = (\<lambda>b seed. Some [0])\<rparr>"

definition sample_pq_input :: PqInput where
  "sample_pq_input = \<lparr>prevTxid = replicate 32 7, prevOutIndex = 3, authPub = replicate 1952 5,
     rhoReveal = replicate 32 1, keyRef = PQ_NO_KEY_REF\<rparr>"

definition sample_pq_output :: TransactionOutput where
  "sample_pq_output = \<lparr>amount = 900, outUnlockHeight = 0,
     target = OutPq \<lparr>kemCt = replicate 1088 1, encPayload = replicate 56 2, spendCommit = replicate 32 3\<rparr>\<rparr>"

definition sample_resolved :: PqResolvedInput where
  "sample_resolved = \<lparr>r_spendCommit = spendCommit_buf (replicate 1952 5) (replicate 32 1),
     r_amount = 1000, r_exists = True, r_isPqOutput = True, r_isCoinbase = False\<rparr>"

definition sample_v1 :: PqSigningContext where
  "sample_v1 = \<lparr>useV2 = False, chainId = replicate 32 0, groupedAuth = False, ctx_txType = TX_PQ\<rparr>"

definition sample_unsigned_transfer :: UnsignedTx where
  "sample_unsigned_transfer = \<lparr>ut_version = 1, ut_txType = 1, ut_unlockHeight = 0,
     ut_inputs = [digestInput sample_pq_input],
     ut_outputs = [digestOutput sample_pq_output
        \<lparr>kemCt = replicate 1088 1, encPayload = replicate 56 2, spendCommit = replicate 32 3\<rparr>],
     ut_extra = [], ut_fee = 100\<rparr>"

definition sample_transfer :: Transaction where
  "sample_transfer = \<lparr>version = 1, txType = 1, unlockHeight = 0, inputs = [InPq sample_pq_input],
     outputs = [sample_pq_output], extra = [], pqSignatures = [txSigningBuf sample_unsigned_transfer]\<rparr>"

lemma sample_transfer_rule:
  "transfer_rule toy_crypto sample_transfer [sample_resolved] 1 sample_v1
     [pqNullifier (\<lambda>b. b) sample_pq_input]"
proof -
  have k: "key_inputs [sample_pq_input] = [0]"
    by (simp add: key_inputs_def sample_pq_input_def)
  have u: "pqUnsignedTx sample_transfer 100 = Inr sample_unsigned_transfer"
    by (simp add: pqUnsignedTx_def sample_transfer_def sample_unsigned_transfer_def get_PqInput_of_def
        get_PqOutput_of_def sample_pq_output_def)
  have "signatures_ok toy_crypto sample_v1 sample_unsigned_transfer [sample_pq_input] (pqSignatures sample_transfer)"
    by (simp add: signatures_ok_def k toy_crypto_def signed_digest_def sample_v1_def txSigningDigest_def
        sample_transfer_def)
  moreover have "spendable (sha3_256 toy_crypto) sample_pq_input sample_resolved"
    by (simp add: spendable_def sample_pq_input_def sample_resolved_def pqInputFieldsValid_def size_defs
        toy_crypto_def spendCommitHash_def)
  moreover have "auth_ok (groupedAuth sample_v1 \<and> useV2 sample_v1) (inputs sample_transfer) 0"
    by (simp add: auth_ok_def sample_transfer_def sample_pq_input_def)
  ultimately show ?thesis
    unfolding transfer_rule_def using u
    by (intro exI [of _ "[sample_pq_input]"] exI [of _ 100] exI [of _ sample_unsigned_transfer])
      (simp add: sample_transfer_def toy_crypto_def in_total_def out_total_def sample_resolved_def
         sample_pq_output_def pqTxFeeFloor_def pqTxExtraSurcharge_def)
qed


text \<open>
  C5. No value is created: when the check accepts, the referenced amounts add up (as integers,
  below 2^64) to the output amounts plus a fee, and with a minimum fee configured that fee
  reaches the floor for the transaction's extra size.
\<close>

theorem accepted_transfer_conserves_value:
  assumes "checkPqTransactionInputs C tx resolved minFee ctx = Inr nfs" and "length (inputs tx) < 2 ^ 32"
  shows "\<exists>fee. in_total resolved = out_total (outputs tx) + unat fee \<and> in_total resolved < 2 ^ 64 \<and>
           (minFee \<noteq> 0 \<longrightarrow> pqTxFeeFloor minFee (of_nat (length (extra tx))) \<le> fee)"
  using input_check_sound [OF assms] by (auto simp: transfer_rule_def)

lemma accepted_transfer_conserves_value_witness:
  "\<exists>fee. in_total [sample_resolved] = out_total (outputs sample_transfer) + unat fee \<and>
     in_total [sample_resolved] < 2 ^ 64 \<and>
     ((1 :: u64) \<noteq> 0 \<longrightarrow> pqTxFeeFloor 1 (of_nat (length (extra sample_transfer))) \<le> fee)"
  by (rule accepted_transfer_conserves_value
      [OF input_check_complete [OF sample_transfer_rule]]) (simp_all add: sample_transfer_def)

text \<open>
  C6. Every spent output is authorized: when the check accepts, the output behind every input
  is committed to the key and rho that the input reveals, the reported nullifiers are those of
  the inputs and pairwise different, and for every input there is a signature in the
  transaction that verifies under the very key of that input, over the digest of the whole
  unsigned transaction.
\<close>

theorem accepted_transfer_authorizes_every_input:
  assumes "checkPqTransactionInputs C tx resolved minFee ctx = Inr nfs" and "length (inputs tx) < 2 ^ 32"
  shows "\<exists>ps fee u. inputs tx = map InPq ps \<and> pqUnsignedTx tx fee = Inr u \<and>
     nfs = map (pqNullifier (sha3_256 C)) ps \<and> distinct nfs \<and>
     (\<forall>i < length ps. spendCommitHash (sha3_256 C) (authPub (ps ! i)) (rhoReveal (ps ! i)) = r_spendCommit (resolved ! i) \<and>
        (\<exists>k < length (pqSignatures tx). \<exists>j.
           dsa_verify C (authPub (ps ! i)) (signed_digest C ctx u j) (pqSignatures tx ! k)))"
proof -
  obtain ps fee u where ps: "inputs tx = map InPq ps"
    and auth: "\<forall>i < length ps. auth_ok (groupedAuth ctx \<and> useV2 ctx) (inputs tx) i"
    and sp: "\<forall>i < length ps. spendable (sha3_256 C) (ps ! i) (resolved ! i)"
      "nfs = map (pqNullifier (sha3_256 C)) ps" "distinct nfs"
    and u: "pqUnsignedTx tx fee = Inr u" and so: "signatures_ok C ctx u ps (pqSignatures tx)"
    using input_check_sound [OF assms] unfolding transfer_rule_def by blast
  have carrier: "\<exists>j < length ps. keyRef (ps ! j) = PQ_NO_KEY_REF \<and> authPub (ps ! j) = authPub (ps ! i)"
    if i: "i < length ps" for i
  proof (cases "keyRef (ps ! i) = PQ_NO_KEY_REF")
    case False
    have "auth_ok (groupedAuth ctx \<and> useV2 ctx) (map InPq ps) i" using auth i ps by simp
    with False i show ?thesis
      by (auto simp: auth_ok_def split: TransactionInput.splits intro!: exI [of _ "unat (keyRef (ps ! i))"])
  qed (use i in blast)
  have signed: "\<exists>k < length (pqSignatures tx). \<exists>j.
      dsa_verify C (authPub (ps ! i)) (signed_digest C ctx u j) (pqSignatures tx ! k)" if "i < length ps" for i
  proof -
    obtain j where j: "j < length ps" "keyRef (ps ! j) = PQ_NO_KEY_REF" "authPub (ps ! j) = authPub (ps ! i)"
      using carrier \<open>i < length ps\<close> by blast
    then have "j \<in> set (key_inputs ps)" by (simp add: key_inputs_def)
    then obtain k where "k < length (key_inputs ps)" "key_inputs ps ! k = j" by (auto simp: in_set_conv_nth)
    with so j(3) show ?thesis
      unfolding signatures_ok_def list_all2_conv_all_nth by metis
  qed
  show ?thesis
    using ps u sp signed by (intro exI [of _ ps] exI [of _ fee] exI [of _ u]) (simp add: spendable_def)
qed

lemma accepted_transfer_authorizes_every_input_witness:
  "\<exists>ps fee u. inputs sample_transfer = map InPq ps \<and> pqUnsignedTx sample_transfer fee = Inr u \<and>
     [pqNullifier (\<lambda>b. b) sample_pq_input] = map (pqNullifier (sha3_256 toy_crypto)) ps \<and>
     distinct [pqNullifier (\<lambda>b. b) sample_pq_input] \<and>
     (\<forall>i < length ps. spendCommitHash (sha3_256 toy_crypto) (authPub (ps ! i)) (rhoReveal (ps ! i))
          = r_spendCommit ([sample_resolved] ! i) \<and>
        (\<exists>k < length (pqSignatures sample_transfer). \<exists>j.
           dsa_verify toy_crypto (authPub (ps ! i)) (signed_digest toy_crypto sample_v1 u j)
             (pqSignatures sample_transfer ! k)))"
  by (rule accepted_transfer_authorizes_every_input
      [OF input_check_complete [OF sample_transfer_rule]]) (simp_all add: sample_transfer_def)

end
