(* ===== verification/Int_Util.thy ===== *)
theory Int_Util
  imports Prelude
begin

text \<open>
  The 128-bit helpers of src/src/Common/int-util.h and the block-size penalty of
  src/src/CryptoNoteCore/CryptoNoteBasicImpl.cpp, which multiplies and divides with them.  Out
  parameters are returned as tuples.  The lemmas show that the schoolbook multiplication and the
  long division in base 2^32 are exact although every intermediate value is a 64-bit word.
\<close>

section \<open>Definitions\<close>

definition hi_dword :: "u64 \<Rightarrow> u64" where "hi_dword val = drop_bit 32 val"

definition lo_dword :: "u64 \<Rightarrow> u64" where "lo_dword val = val AND 0xFFFFFFFF"

text \<open>The result is \<open>(product_hi, product_lo)\<close>.\<close>

definition mul128 :: "u64 \<Rightarrow> u64 \<Rightarrow> u64 \<times> u64" where
  "mul128 multiplier multiplicand =
     (let a = hi_dword multiplier; b = lo_dword multiplier;
          c = hi_dword multiplicand; d = lo_dword multiplicand;
          ac = a * c; ad = a * d; bc = b * c; bd = b * d;
          adbc = ad + bc;
          adbc_carry = (if adbc < ad then 1 else 0);
          product_lo = bd + push_bit 32 adbc;
          product_lo_carry = (if product_lo < bd then 1 else 0);
          product_hi = ac + drop_bit 32 adbc + push_bit 32 adbc_carry + product_lo_carry
      in (product_hi, product_lo))"

text \<open>The quotient and the updated remainder.\<close>

definition div_with_reminder :: "u64 \<Rightarrow> u32 \<Rightarrow> u32 \<Rightarrow> u64 \<times> u32" where
  "div_with_reminder dividend divisor remainder =
     (let dividend = dividend OR push_bit 32 (ucast remainder)
      in (dividend div ucast divisor, ucast (dividend mod ucast divisor)))"

text \<open>The result is \<open>(quotient_hi, quotient_lo, remainder)\<close>.\<close>

definition div128_32 :: "u64 \<Rightarrow> u64 \<Rightarrow> u32 \<Rightarrow> u64 \<times> u64 \<times> u32" where
  "div128_32 dividend_hi dividend_lo divisor =
     (let (q3, r) = div_with_reminder (hi_dword dividend_hi) divisor 0;
          (q2, r) = div_with_reminder (lo_dword dividend_hi) divisor r;
          (q1, r) = div_with_reminder (hi_dword dividend_lo) divisor r;
          (q0, r) = div_with_reminder (lo_dword dividend_lo) divisor r
      in (push_bit 32 q3 OR q2, push_bit 32 q1 OR q0, r))"

definition getPenalizedAmount :: "u64 \<Rightarrow> u64 \<Rightarrow> u64 \<Rightarrow> u64" where
  "getPenalizedAmount amount medianSize currentBlockSize =
     (if amount = 0 then 0
      else if currentBlockSize \<le> medianSize then amount
      else let multiplicand = (2 * medianSize - currentBlockSize) * currentBlockSize;
               (productHi, productLo) = mul128 amount multiplicand;
               (hi, lo, _) = div128_32 productHi productLo (ucast medianSize);
               (hi, lo, _) = div128_32 hi lo (ucast medianSize)
           in lo)"

section \<open>Exactness of the 128-bit helpers\<close>

abbreviation wide :: "u64 \<Rightarrow> u64 \<Rightarrow> nat" where
  "wide hi lo \<equiv> unat hi * 2 ^ 64 + unat lo"

lemma unat_dwords:
  "unat (hi_dword v) = unat v div 2 ^ 32" "unat (lo_dword v) = unat v mod 2 ^ 32"
  "unat (hi_dword v) < 2 ^ 32" "unat (lo_dword v) < 2 ^ 32"
  "unat v = unat (hi_dword v) * 2 ^ 32 + unat (lo_dword v)"
proof -
  show hi: "unat (hi_dword v) = unat v div 2 ^ 32" by (simp add: hi_dword_def unat_drop_bit_div)
  have "lo_dword v = take_bit 32 v"
    by (simp add: lo_dword_def take_bit_eq_mask mask_eq_exp_minus_1)
  then show lo: "unat (lo_dword v) = unat v mod 2 ^ 32" by (simp only: unat_take_bit_mod)
  show "unat (hi_dword v) < 2 ^ 32"
    using unsigned_less [of v, where ?'a = nat] unfolding hi by (intro less_mult_imp_div_less) simp
  show "unat (lo_dword v) < 2 ^ 32" unfolding lo by simp
  show "unat v = unat (hi_dword v) * 2 ^ 32 + unat (lo_dword v)" unfolding hi lo by simp
qed

lemma dword_product_bound:
  assumes "a < 2 ^ 32" "b < (2 :: nat) ^ 32"
  shows "a * b < 2 ^ 64"
proof -
  have "a * b < 2 ^ 32 * 2 ^ 32" using assms by (rule mult_strict_mono') simp_all
  then show ?thesis by (simp flip: power_add)
qed

lemma schoolbook:
  fixes A B C D s c l k :: nat
  assumes "s + c * 2 ^ 64 = A * D + B * C" and "l + k * 2 ^ 64 = B * D + s mod 2 ^ 32 * 2 ^ 32"
  shows "(A * C + s div 2 ^ 32 + c * 2 ^ 32 + k) * 2 ^ 64 + l = (A * 2 ^ 32 + B) * (C * 2 ^ 32 + D)"
proof -
  define q r where qr: "q = s div 2 ^ 32" "r = s mod 2 ^ 32"
  have "s = q * 2 ^ 32 + r" unfolding qr by simp
  then have "(q * 2 ^ 32 + r + c * 2 ^ 64) * 2 ^ 32 = (A * D + B * C) * 2 ^ 32"
    using assms(1) by simp
  then show ?thesis using assms(2) unfolding qr [symmetric] by (simp add: algebra_simps)
qed

lemma high_part_bound: "e * 2 ^ 64 + l < 2 ^ 64 * 2 ^ 64 \<Longrightarrow> e < (2 :: nat) ^ 64"
  using mult_le_mono1 [of "2 ^ 64" e "2 ^ 64"] by (cases "e < 2 ^ 64") simp_all

lemma mul128_exact:
  assumes "mul128 x y = (hi, lo)"
  shows "wide hi lo = unat x * unat y"
proof -
  define a b c d where abcd: "a = hi_dword x" "b = lo_dword x" "c = hi_dword y" "d = lo_dword y"
  define s where "s = a * d + b * c"
  define k :: u64 where "k = (if s < a * d then 1 else 0)"
  define l where "l = b * d + push_bit 32 s"
  define m :: u64 where "m = (if l < b * d then 1 else 0)"
  let ?E = "unat a * unat c + unat s div 2 ^ 32 + unat k * 2 ^ 32 + unat m"
  have "mul128 x y = (a * c + drop_bit 32 s + push_bit 32 k + m, l)"
    unfolding mul128_def Let_def abcd s_def k_def l_def m_def ..
  with assms have res: "lo = l" "hi = a * c + drop_bit 32 s + push_bit 32 k + m" by simp_all
  have small: "unat a < 2 ^ 32" "unat b < 2 ^ 32" "unat c < 2 ^ 32" "unat d < 2 ^ 32"
    unfolding abcd by (rule unat_dwords)+
  have prods: "unat (a * c) = unat a * unat c" "unat (a * d) = unat a * unat d"
    "unat (b * c) = unat b * unat c" "unat (b * d) = unat b * unat d"
    using dword_product_bound small by (auto intro!: unat_mult_exact)
  have S: "unat s + unat k * 2 ^ 64 = unat a * unat d + unat b * unat c"
    using add_with_carry [of "a * d" "b * c"] by (simp add: s_def k_def prods split: if_splits)
  have P: "unat (push_bit 32 s) = unat s mod 2 ^ 32 * 2 ^ 32"
    using mult_mod_left [of "unat s" "2 ^ 32" "2 ^ 32"] by (simp add: unat_push_bit_mod)
  have L: "unat l + unat m * 2 ^ 64 = unat b * unat d + unat s mod 2 ^ 32 * 2 ^ 32"
    using add_with_carry [of "b * d" "push_bit 32 s"] unfolding l_def [symmetric] P prods
    by (simp add: m_def split: if_splits)
  have E: "?E * 2 ^ 64 + unat l = unat x * unat y"
    using schoolbook [OF S L] unat_dwords(5) [of x] unat_dwords(5) [of y] unfolding abcd by simp
  also have "\<dots> < 2 ^ 64 * 2 ^ 64"
    using unsigned_less [of x, where ?'a = nat] unsigned_less [of y, where ?'a = nat]
    by (intro mult_strict_mono') simp_all
  finally have "?E < 2 ^ 64" by (rule high_part_bound)
  then have "unat (of_nat ?E :: u64) = ?E" by (rule unat_of_nat_u64)
  moreover have k: "unat (push_bit 32 k) = unat k * 2 ^ 32" by (simp add: k_def unat_push_bit_mod)
  have "of_nat ?E = (of_nat (unat (a * c)) + of_nat (unat (drop_bit 32 s)) +
      of_nat (unat (push_bit 32 k)) + of_nat (unat m) :: u64)"
    by (simp only: prods unat_drop_bit_div k of_nat_add)
  then have "hi = of_nat ?E" unfolding res by (simp only: of_nat_unat ucast_id)
  ultimately have "unat hi = ?E" by (simp only:)
  then show ?thesis using E res by simp
qed

lemma long_division_step:
  fixes n d b x :: nat
  shows "(n * b + x) div d = n div d * b + (n mod d * b + x) div d"
    and "(n * b + x) mod d = (n mod d * b + x) mod d"
proof -
  have "n * b = (n div d * d + n mod d) * b" by simp
  then have eq: "n * b + x = n mod d * b + x + n div d * b * d" by (simp only: algebra_simps)
  show "(n * b + x) div d = n div d * b + (n mod d * b + x) div d"
    unfolding eq by (cases "d = 0") simp_all
  show "(n * b + x) mod d = (n mod d * b + x) mod d" unfolding eq by simp
qed

lemma div_with_reminder_exact:
  assumes "div_with_reminder x d r = (q, r')" and "unat x < 2 ^ 32" and "unat r < unat d"
  shows "unat q = (unat r * 2 ^ 32 + unat x) div unat d" and "unat r' = (unat r * 2 ^ 32 + unat x) mod unat d"
    and "unat q < 2 ^ 32" and "unat r' < unat d"
proof -
  let ?v = "unat r * 2 ^ 32 + unat x"
  have r: "unat r < 2 ^ 32" and d: "unat d < 2 ^ 32"
    using unsigned_less [of r, where ?'a = nat] unsigned_less [of d, where ?'a = nat] by simp_all
  have v: "?v < 2 ^ 64"
  proof -
    have "?v < (unat r + 1) * 2 ^ 32" using assms(2) by simp
    also have "\<dots> \<le> 2 ^ 32 * 2 ^ 32" using r by (intro mult_le_mono1) simp
    finally show ?thesis by (simp flip: power_add)
  qed
  have c: "(ucast r :: u64) = of_nat (unat r)" by simp
  have v': "unat x + unat r * 2 ^ 32 < 2 ^ LENGTH(64)"
    unfolding len_u64 add.commute [of "unat x"] by (rule v)
  have w: "unat (x OR push_bit 32 (ucast r)) = ?v"
    using unat_or_push_bit [OF assms(2) v'] by (simp only: c add.commute)
  have ud: "unat (ucast d :: u64) = unat d" using d by (simp add: unat_ucast_mod)
  show q: "unat q = ?v div unat d"
    using assms(1) w ud by (auto simp: div_with_reminder_def Let_def unat_div)
  have "?v mod unat d < unat d" using assms(3) by simp
  with d have m: "?v mod unat d < 2 ^ 32" by (rule less_trans [rotated])
  show r': "unat r' = ?v mod unat d"
    using assms(1) w ud mod_less [OF m]
    by (auto simp: div_with_reminder_def Let_def unat_ucast_mod unat_mod)
  show "unat r' < unat d" unfolding r' using assms(3) by simp
  have "?v < unat d * 2 ^ 32"
  proof -
    have "?v < (unat r + 1) * 2 ^ 32" using assms(2) by simp
    also have "\<dots> \<le> unat d * 2 ^ 32" using assms(3) by (intro mult_le_mono1) simp
    finally show ?thesis .
  qed
  then show "unat q < 2 ^ 32" unfolding q by (intro less_mult_imp_div_less) (simp add: mult.commute)
qed

lemma join_dwords:
  fixes p q :: u64
  assumes "unat p < 2 ^ 32" "unat q < 2 ^ 32"
  shows "unat (push_bit 32 p OR q) = unat p * 2 ^ 32 + unat q"
proof -
  have "unat (q OR push_bit 32 (of_nat (unat p))) = unat q + unat p * 2 ^ 32"
    by (rule unat_or_push_bit [OF assms(2)]) (use assms in \<open>simp add: len_u64\<close>)
  then show ?thesis by (simp only: of_nat_unat ucast_id or.commute add.commute)
qed

lemma div128_32_exact:
  assumes "div128_32 hi lo d = (qh, ql, r)" and "d \<noteq> 0"
  shows "wide qh ql = wide hi lo div unat d" and "unat r = wide hi lo mod unat d"
proof -
  obtain q3 r3 where 3: "div_with_reminder (hi_dword hi) d 0 = (q3, r3)" by fastforce
  obtain q2 r2 where 2: "div_with_reminder (lo_dword hi) d r3 = (q2, r2)" by fastforce
  obtain q1 r1 where 1: "div_with_reminder (hi_dword lo) d r2 = (q1, r1)" by fastforce
  obtain q0 r0 where 0: "div_with_reminder (lo_dword lo) d r1 = (q0, r0)" by fastforce
  have d: "unat (0 :: u32) < unat d" using assms(2) by (simp add: unat_gt_0)
  note e3 = div_with_reminder_exact [OF 3 unat_dwords(3) d]
  note e2 = div_with_reminder_exact [OF 2 unat_dwords(4) e3(4)]
  note e1 = div_with_reminder_exact [OF 1 unat_dwords(3) e2(4)]
  note e0 = div_with_reminder_exact [OF 0 unat_dwords(4) e1(4)]
  have res: "qh = push_bit 32 q3 OR q2" "ql = push_bit 32 q1 OR q0" "r = r0"
    using assms(1) by (simp_all add: div128_32_def 3 2 1 0)
  define n3 where "n3 = unat (hi_dword hi)"
  define n2 where "n2 = n3 * 2 ^ 32 + unat (lo_dword hi)"
  define n1 where "n1 = n2 * 2 ^ 32 + unat (hi_dword lo)"
  define n0 where "n0 = n1 * 2 ^ 32 + unat (lo_dword lo)"
  have s3: "n3 div unat d = unat q3" "n3 mod unat d = unat r3" using e3 by (simp_all add: n3_def)
  have s2: "n2 div unat d = unat q3 * 2 ^ 32 + unat q2" "n2 mod unat d = unat r2"
    unfolding n2_def long_division_step [of n3] s3 e2 by (rule refl)+
  have s1: "n1 div unat d = (unat q3 * 2 ^ 32 + unat q2) * 2 ^ 32 + unat q1" "n1 mod unat d = unat r1"
    unfolding n1_def long_division_step [of n2] s2 e1 by (rule refl)+
  have s0: "n0 div unat d = ((unat q3 * 2 ^ 32 + unat q2) * 2 ^ 32 + unat q1) * 2 ^ 32 + unat q0"
    "n0 mod unat d = unat r0"
    unfolding n0_def long_division_step [of n1] s1 e0 by (rule refl)+
  have n0: "n0 = wide hi lo"
    unfolding n0_def n1_def n2_def n3_def unat_dwords(5) [of hi] unat_dwords(5) [of lo]
    by (simp add: algebra_simps)
  show "wide qh ql = wide hi lo div unat d"
    unfolding res join_dwords [OF e3(3) e2(3)] join_dwords [OF e1(3) e0(3)] n0 [symmetric] s0
    by (simp add: algebra_simps)
  show "unat r = wide hi lo mod unat d" unfolding res n0 [symmetric] s0 ..
qed

section \<open>The block-size penalty\<close>

lemma penalty_factor:
  fixes m c :: nat
  assumes "m < c" and "c \<le> 2 * m"
  shows "(2 * m - c) * c < m * m"
proof -
  obtain k where k: "c = m + k" "0 < k" using assms(1) less_imp_add_positive by blast
  then have "2 * m - c = m - k" "k \<le> m" using assms(2) by simp_all
  moreover have "(m - k) * (m + k) = m * m - k * k" using \<open>k \<le> m\<close> by (simp add: algebra_simps)
  ultimately show ?thesis using k by (simp add: mult_le_mono)
qed

lemma penalty_product_fits:
  fixes m c :: nat
  assumes "m < c" and "c \<le> 2 * m" and "m < 2 ^ 32"
  shows "(2 * m - c) * c < 2 ^ 64"
proof -
  have "(2 * m - c) * c < m * m" using assms(1,2) by (rule penalty_factor)
  also have "\<dots> < 2 ^ 64" using assms(3) by (intro dword_product_bound)
  finally show ?thesis .
qed

lemma wide_low: "wide hi lo < 2 ^ 64 \<Longrightarrow> unat lo = wide hi lo"
  by (cases "unat hi") simp_all

lemma penalized_big:
  assumes "m < c" and c: "unat c \<le> 2 * unat m" and m: "unat m < 2 ^ 32" and a: "a \<noteq> 0"
  shows "unat (getPenalizedAmount a m c) = unat a * ((2 * unat m - unat c) * unat c) div (unat m * unat m) \<and>
         unat (getPenalizedAmount a m c) < unat a"
proof -
  let ?f = "(2 * unat m - unat c) * unat c" and ?d = "ucast m :: u32"
  have mc: "unat m < unat c" using assms(1) by (simp add: word_less_nat_alt)
  have m2: "unat (2 * m) = 2 * unat m" using m by (subst unat_mult_exact) simp_all
  have "unat (2 * m - c) = 2 * unat m - unat c"
    using c m2 by (simp add: unat_sub word_le_nat_alt)
  then have f: "unat ((2 * m - c) * c) = ?f"
    using penalty_product_fits [OF mc c m] by (subst unat_mult_exact) simp_all
  obtain h1 l1 where 1: "mul128 a ((2 * m - c) * c) = (h1, l1)" by fastforce
  obtain h2 l2 r2 where 2: "div128_32 h1 l1 ?d = (h2, l2, r2)" by (metis prod_cases3)
  obtain h3 l3 r3 where 3: "div128_32 h2 l2 ?d = (h3, l3, r3)" by (metis prod_cases3)
  have d: "unat ?d = unat m" using m by (simp add: unat_ucast_mod)
  have "m \<noteq> 0" using c mc by auto
  then have "?d \<noteq> 0" using d by (metis unat_0 unat_eq_zero)
  note e = mul128_exact [OF 1] div128_32_exact(1) [OF 2 this] div128_32_exact(1) [OF 3 this]
  have w: "wide h3 l3 = unat a * ?f div (unat m * unat m)"
    unfolding e d f by (simp only: div_mult2_eq)
  have lt: "unat a * ?f div (unat m * unat m) < unat a"
    using penalty_factor [OF mc c] a by (intro less_mult_imp_div_less) (simp add: unat_gt_0)
  then have "wide h3 l3 < 2 ^ 64"
    unfolding w using unsigned_less [of a, where ?'a = nat] by simp
  then have l3: "unat l3 = unat a * ?f div (unat m * unat m)"
    using wide_low [of h3 l3] unfolding w by (simp only:)
  have "\<not> c \<le> m" using assms(1) by simp
  then have "getPenalizedAmount a m c = l3" using a by (simp add: getPenalizedAmount_def 1 2 3 del: not_le)
  then show ?thesis using l3 lt by (simp only:)
qed

text \<open>
  The block-size penalty is exact: within the sizes the code asserts, the result is
  \<open>amount * (2 * median - size) * size / median^2\<close>, rounded down once, although it is computed
  by a 128-bit product and two long divisions; an oversized block is always penalized, and the
  two assertions at the end of the function hold.
\<close>

theorem penalized_amount_exact:
  assumes "unat c \<le> 2 * unat m" and "unat m < 2 ^ 32"
  shows "unat (getPenalizedAmount a m c)
       = (if c \<le> m then unat a else unat a * ((2 * unat m - unat c) * unat c) div (unat m * unat m)) \<and>
         (m < c \<and> a \<noteq> 0 \<longrightarrow> getPenalizedAmount a m c < a)"
proof (cases "a = 0 \<or> c \<le> m")
  case True
  then show ?thesis by (auto simp: getPenalizedAmount_def)
next
  case False
  then show ?thesis
    using penalized_big [of m c a] assms by (simp add: word_less_nat_alt not_le)
qed

lemma penalized_amount_exact_witness:
  "unat (getPenalizedAmount 1000 1000000 1500000) = 750"
  using penalized_amount_exact [of 1500000 1000000 1000] by simp

end
