(* ===== verification/Base58.thy ===== *)
theory Base58
  imports Int_Util Streams
begin

text \<open>
  The block-wise Base58 of src/src/Common/Base58.cpp.  A block of 1 to 8 bytes is written as a
  big-endian number in a fixed number of digits; \<open>encode\<close> cuts the data into full blocks and a
  last block, \<open>decode\<close> cuts the text by the encoded sizes.  Pointers into the result are lists
  here: a block function returns the characters or bytes it writes.  The main result is that
  \<open>decode\<close> accepts exactly the images of \<open>encode\<close>.
\<close>

section \<open>Tables\<close>

definition alphabet :: string where
  "alphabet = ''123456789ABCDEFGHJKLMNPQRSTUVWXYZabcdefghijkmnopqrstuvwxyz''"

definition alphabet_size :: nat where "alphabet_size = 58"

definition encoded_block_sizes :: "nat list" where
  "encoded_block_sizes = [0, 2, 3, 5, 6, 7, 9, 10, 11]"

definition full_block_size :: nat where "full_block_size = 8"
definition full_encoded_block_size :: nat where "full_encoded_block_size = 11"
definition addr_checksum_size :: nat where "addr_checksum_size = 4"

definition char_index :: "char \<Rightarrow> nat" where
  "char_index c = of_char c - of_char (alphabet ! 0)"

text \<open>The two tables as their constructors fill them; \<open>None\<close> stands for the entry -1.\<close>

definition reverse_alphabet_data :: "nat option list" where
  "reverse_alphabet_data =
     fold (\<lambda>i t. t[char_index (alphabet ! i) := Some i]) [0..<alphabet_size]
       (replicate (char_index (alphabet ! (alphabet_size - 1)) + 1) None)"

definition reverse_alphabet :: "char \<Rightarrow> nat option" where
  "reverse_alphabet letter =
     (if of_char letter < (of_char (alphabet ! 0) :: nat) then None
      else if char_index letter < length reverse_alphabet_data
      then reverse_alphabet_data ! char_index letter else None)"

definition decoded_block_sizes_data :: "nat option list" where
  "decoded_block_sizes_data =
     fold (\<lambda>i t. t[encoded_block_sizes ! i := Some i]) [0..<full_block_size + 1]
       (replicate (encoded_block_sizes ! full_block_size + 1) None)"

definition decoded_block_sizes :: "nat \<Rightarrow> nat option" where
  "decoded_block_sizes n = decoded_block_sizes_data ! n"

section \<open>Blocks\<close>

definition uint_8be_to_64 :: "bytes \<Rightarrow> u64" where
  "uint_8be_to_64 bs = foldl (\<lambda>res b. push_bit 8 res OR ucast b) 0 bs"

definition uint_64_to_8be :: "u64 \<Rightarrow> nat \<Rightarrow> bytes" where
  "uint_64_to_8be num sz = drop (8 - sz) (rev (le_bytes 8 num))"

text \<open>The loop of \<open>encode_block\<close>; \<open>k\<close> is the C++ index plus one.\<close>

function encode_block_loop :: "u64 \<Rightarrow> nat \<Rightarrow> string \<Rightarrow> string" where
  "encode_block_loop num k res =
     (if 0 < num then
        encode_block_loop (num div 58) (k - 1) (res[k - 1 := alphabet ! unat (num mod 58)])
      else res)"
  by pat_completeness auto
termination
proof (relation "measure (\<lambda>(num, k, res). unat num)")
  fix num :: u64 and k :: nat and res :: string
  assume "0 < num"
  then have "0 < unat num" by (simp add: unat_gt_0)
  then show "((num div 58, k - 1, res[k - 1 := alphabet ! unat (num mod 58)]), (num, k, res))
       \<in> measure (\<lambda>(num, k, res). unat num)"
    by (simp add: unat_div)
qed simp

declare encode_block_loop.simps [simp del]

definition encode_block :: "bytes \<Rightarrow> string" where
  "encode_block block =
     (let n = encoded_block_sizes ! length block
      in encode_block_loop (uint_8be_to_64 block) n (replicate n (alphabet ! 0)))"

text \<open>The loop of \<open>decode_block\<close> walks the block from its end; the argument is reversed.\<close>

fun decode_block_loop :: "string \<Rightarrow> u64 \<Rightarrow> u64 \<Rightarrow> u64 option" where
  "decode_block_loop [] res_num order = Some res_num"
| "decode_block_loop (c # cs) res_num order =
     (case reverse_alphabet c of
        None \<Rightarrow> None
      | Some digit \<Rightarrow>
          let (product_hi, product_lo) = mul128 order (of_nat digit);
              tmp = res_num + product_lo
          in if tmp < res_num \<or> 0 \<noteq> product_hi then None
             else decode_block_loop cs tmp (order * 58))"

definition decode_block :: "string \<Rightarrow> bytes option" where
  "decode_block block =
     (case decoded_block_sizes (length block) of
        None \<Rightarrow> None
      | Some res_size \<Rightarrow>
          if res_size = 0 then None
          else case decode_block_loop (rev block) 0 1 of
            None \<Rightarrow> None
          | Some res_num \<Rightarrow>
              if res_size < full_block_size \<and> push_bit (8 * res_size) 1 \<le> res_num then None
              else Some (uint_64_to_8be res_num res_size))"

section \<open>Texts\<close>

definition sub_block :: "nat \<Rightarrow> nat \<Rightarrow> 'a list \<Rightarrow> 'a list" where
  "sub_block i n xs = take n (drop i xs)"

definition encode :: "bytes \<Rightarrow> string" where
  "encode d =
     (if d = [] then []
      else let full_block_count = length d div full_block_size;
               last_block_size = length d mod full_block_size
           in concat (map (\<lambda>i. encode_block (sub_block (i * full_block_size) full_block_size d)) [0..<full_block_count]) @
              (if 0 < last_block_size
               then encode_block (sub_block (full_block_count * full_block_size) last_block_size d) else []))"

fun concat_options :: "'a list option list \<Rightarrow> 'a list option" where
  "concat_options [] = Some []"
| "concat_options (x # xs) =
     (case x of None \<Rightarrow> None | Some a \<Rightarrow>
        (case concat_options xs of None \<Rightarrow> None | Some b \<Rightarrow> Some (a @ b)))"

definition decode :: "string \<Rightarrow> bytes option" where
  "decode enc =
     (if enc = [] then Some []
      else let full_block_count = length enc div full_encoded_block_size;
               last_block_size = length enc mod full_encoded_block_size
           in case decoded_block_sizes last_block_size of
                None \<Rightarrow> None
              | Some _ \<Rightarrow>
                  concat_options
                    (map (\<lambda>i. decode_block (sub_block (i * full_encoded_block_size) full_encoded_block_size enc))
                       [0..<full_block_count] @
                     (if 0 < last_block_size
                      then [decode_block (sub_block (full_block_count * full_encoded_block_size) last_block_size enc)]
                      else [])))"

definition encode_addr :: "(bytes \<Rightarrow> bytes) \<Rightarrow> u64 \<Rightarrow> bytes \<Rightarrow> string" where
  "encode_addr cn_fast_hash tag d =
     (let buf = get_varint_data tag @ d
      in encode (buf @ take addr_checksum_size (cn_fast_hash buf)))"

definition decode_addr :: "(bytes \<Rightarrow> bytes) \<Rightarrow> string \<Rightarrow> (u64 \<times> bytes) option" where
  "decode_addr cn_fast_hash addr =
     (case decode addr of
        None \<Rightarrow> None
      | Some addr_data \<Rightarrow>
          if length addr_data \<le> addr_checksum_size then None
          else let checksum = drop (length addr_data - addr_checksum_size) addr_data;
                   addr_data = take (length addr_data - addr_checksum_size) addr_data;
                   expected = take addr_checksum_size (cn_fast_hash addr_data)
               in if expected \<noteq> checksum then None
                  else case read_varint addr_data of (n, tag, _) \<Rightarrow>
                    if n \<le> 0 then None else Some (tag, drop (nat n) addr_data))"

section \<open>The tables are inverses\<close>

lemma fold_table:
  assumes "inj_on f (set is)" and "\<forall>i \<in> set is. f i < length t" and "j < length t"
  shows "fold (\<lambda>i t. t[f i := Some i]) is t ! j = Some i \<longleftrightarrow>
         i \<in> set is \<and> f i = j \<or> j \<notin> f ` set is \<and> t ! j = Some i"
  using assms
proof (induction "is" arbitrary: t)
  case (Cons a "is")
  then show ?case
    by (cases "f a = j") (auto simp: inj_on_def)
qed simp

lemma length_fold_update: "length (fold (\<lambda>i t. t[f i := g i]) is t) = length t"
  by (induction "is" arbitrary: t) simp_all

lemma alphabet_codes:
  "map of_char alphabet = ([49, 50, 51, 52, 53, 54, 55, 56, 57, 65, 66, 67, 68, 69, 70, 71, 72, 74, 75, 76, 77, 78,
     80, 81, 82, 83, 84, 85, 86, 87, 88, 89, 90, 97, 98, 99, 100, 101, 102, 103, 104, 105, 106, 107, 109, 110, 111,
     112, 113, 114, 115, 116, 117, 118, 119, 120, 121, 122] :: nat list)"
  by (simp add: alphabet_def)

lemma alphabet_facts:
  "length alphabet = 58" "distinct alphabet" "c \<in> set alphabet \<Longrightarrow> 49 \<le> (of_char c :: nat)"
  "c \<in> set alphabet \<Longrightarrow> of_char c \<le> (122 :: nat)" "of_char (alphabet ! 0) = (49 :: nat)"
  "of_char (alphabet ! 57) = (122 :: nat)"
proof -
  show l: "length alphabet = 58" using arg_cong [OF alphabet_codes, of length] by simp
  have "distinct (map of_char alphabet :: nat list)" unfolding alphabet_codes by simp
  then show "distinct alphabet" by (simp add: distinct_map)
  have "list_all (\<lambda>n. 49 \<le> n \<and> n \<le> 122) (map of_char alphabet :: nat list)" unfolding alphabet_codes by simp
  then show "c \<in> set alphabet \<Longrightarrow> 49 \<le> (of_char c :: nat)" "c \<in> set alphabet \<Longrightarrow> of_char c \<le> (122 :: nat)"
    by (auto simp: list_all_iff)
  show "of_char (alphabet ! 0) = (49 :: nat)" "of_char (alphabet ! 57) = (122 :: nat)"
    using nth_map [of 0 alphabet "of_char :: char \<Rightarrow> nat"] nth_map [of 57 alphabet "of_char :: char \<Rightarrow> nat"] l
    unfolding alphabet_codes by simp_all
qed

lemma reverse_alphabet_iff: "reverse_alphabet c = Some i \<longleftrightarrow> i < 58 \<and> alphabet ! i = c"
proof -
  let ?f = "\<lambda>i. char_index (alphabet ! i)"
  have mem: "alphabet ! i \<in> set alphabet" if "i < 58" for i using that by (simp add: alphabet_facts(1))
  have code: "of_char (alphabet ! i) = ?f i + 49" if "i < 58" for i
    using alphabet_facts(3) [OF mem [OF that]] by (simp add: char_index_def alphabet_facts(5))
  have inj: "inj_on ?f (set [0..<58])"
  proof (rule inj_onI)
    fix i j assume ij: "i \<in> set [0..<58]" "j \<in> set [0..<58]" "?f i = ?f j"
    then have "(of_char (alphabet ! i) :: nat) = of_char (alphabet ! j)" by (simp add: code)
    then show "i = j" using ij alphabet_facts(1,2) by (simp add: nth_eq_iff_index_eq)
  qed
  have bound: "\<forall>i \<in> set [0..<58]. ?f i < 74"
  proof
    fix i assume "i \<in> set [0..<58]"
    then show "?f i < 74" using alphabet_facts(4) [OF mem, of i] code [of i] by simp
  qed
  have len: "length reverse_alphabet_data = 74"
    by (simp add: reverse_alphabet_data_def length_fold_update char_index_def alphabet_size_def alphabet_facts)
  have tab: "reverse_alphabet_data ! j = Some i \<longleftrightarrow> i < 58 \<and> ?f i = j" if "j < 74" for j
    using fold_table [OF inj, of "replicate 74 None" j i] bound that
    by (simp add: reverse_alphabet_data_def alphabet_size_def char_index_def alphabet_facts)
  show ?thesis
  proof (cases "49 \<le> (of_char c :: nat) \<and> char_index c < 74")
    case True
    then have "of_char c = char_index c + (49 :: nat)" by (simp add: char_index_def alphabet_facts(5))
    then have "?f i = char_index c \<longleftrightarrow> (of_char (alphabet ! i) :: nat) = of_char c" if "i < 58"
      using code [OF that] by simp
    then have "?f i = char_index c \<longleftrightarrow> alphabet ! i = c" if "i < 58" using that by simp
    with True tab [of "char_index c"] show ?thesis
      by (auto simp: reverse_alphabet_def len alphabet_facts(5))
  next
    case False
    then have "alphabet ! i \<noteq> c" if "i < 58" for i
      using mem [OF that] bound that alphabet_facts(3) by auto
    with False show ?thesis by (auto simp: reverse_alphabet_def len alphabet_facts(5))
  qed
qed

lemma block_sizes_iff:
  assumes "m \<le> 11"
  shows "decoded_block_sizes m = Some n \<longleftrightarrow> n < 9 \<and> encoded_block_sizes ! n = m"
proof -
  have "inj_on ((!) encoded_block_sizes) (set [0..<9])"
    using inj_on_nth [of encoded_block_sizes "set [0..<9]"] by (simp add: encoded_block_sizes_def)
  moreover have "\<forall>i \<in> set [0..<9]. encoded_block_sizes ! i < 12"
    by (auto simp: encoded_block_sizes_def less_Suc_eq numeral_eq_Suc)
  ultimately show ?thesis
    using fold_table [of "(!) encoded_block_sizes" "[0..<9]" "replicate 12 None" m n] assms
    by (simp add: decoded_block_sizes_def decoded_block_sizes_data_def full_block_size_def
        encoded_block_sizes_def less_Suc_eq_le)
qed

section \<open>Digits\<close>

definition digit58 :: "char \<Rightarrow> nat" where "digit58 c = the (reverse_alphabet c)"

fun le58 :: "string \<Rightarrow> nat" where
  "le58 [] = 0"
| "le58 (c # cs) = digit58 c + 58 * le58 cs"

fun le_digits :: "nat \<Rightarrow> nat \<Rightarrow> string" where
  "le_digits 0 n = []"
| "le_digits (Suc k) n = alphabet ! (n mod 58) # le_digits k (n div 58)"

abbreviation valid58 :: "string \<Rightarrow> bool" where
  "valid58 cs \<equiv> set cs \<subseteq> set alphabet"

lemma digit58_alphabet [simp]: "i < 58 \<Longrightarrow> digit58 (alphabet ! i) = i"
proof -
  assume "i < 58"
  then have "reverse_alphabet (alphabet ! i) = Some i" by (simp add: reverse_alphabet_iff)
  then show ?thesis by (simp add: digit58_def)
qed

lemma valid_digit:
  "c \<in> set alphabet \<Longrightarrow> reverse_alphabet c = Some (digit58 c) \<and> digit58 c < 58 \<and> alphabet ! digit58 c = c"
  by (auto simp: in_set_conv_nth alphabet_facts reverse_alphabet_iff)

lemma invalid_digit: "c \<notin> set alphabet \<Longrightarrow> reverse_alphabet c = None"
proof (cases "reverse_alphabet c")
  case (Some i)
  then have "i < length alphabet" "alphabet ! i = c" by (simp_all add: reverse_alphabet_iff alphabet_facts)
  moreover assume "c \<notin> set alphabet"
  ultimately show ?thesis using nth_mem [of i alphabet] by simp
qed

lemma length_le_digits [simp]: "length (le_digits k n) = k"
  by (induction k arbitrary: n) simp_all

lemma valid_le_digits: "valid58 (le_digits k n)"
  by (induction k arbitrary: n) (simp_all add: alphabet_facts)

lemma le58_le_digits: "n < 58 ^ k \<Longrightarrow> le58 (le_digits k n) = n"
  by (induction k arbitrary: n) (simp_all add: less_mult_imp_div_less mult.commute)

lemma le_digits_le58: "valid58 cs \<Longrightarrow> le_digits (length cs) (le58 cs) = cs"
  by (induction cs) (auto dest!: valid_digit)

lemma le_digits_zero: "le_digits k 0 = replicate k (alphabet ! 0)"
  by (induction k) simp_all

lemma replicate_update_last: "(replicate (Suc k) a @ s)[k := x] = replicate k a @ x # s"
  by (induction k) simp_all

lemma encode_block_loop_eq:
  "unat num < 58 ^ k \<Longrightarrow>
   encode_block_loop num k (replicate k (alphabet ! 0) @ s) = rev (le_digits k (unat num)) @ s"
proof (induction k arbitrary: num s)
  case 0
  then have "num = 0" by (simp add: unat_eq_zero)
  then show ?case by (simp add: encode_block_loop.simps)
next
  case (Suc k)
  show ?case
  proof (cases "num = 0")
    case True
    then show ?thesis by (simp add: encode_block_loop.simps le_digits_zero flip: replicate_append_same)
  next
    case False
    then have "0 < num" by (simp add: word_greater_zero_iff)
    moreover have "unat (num div 58) < 58 ^ k"
      using Suc.prems by (simp add: unat_div less_mult_imp_div_less mult.commute)
    ultimately show ?thesis
      using Suc.IH [of "num div 58" "alphabet ! unat (num mod 58) # s"]
      by (subst encode_block_loop.simps) (simp add: replicate_update_last unat_div unat_mod del: replicate.simps)
  qed
qed

lemma decode_step:
  fixes r order :: u64
  assumes "mul128 order (of_nat d) = (hi, lo)" and "d < 58"
  shows "(r + lo < r \<or> 0 \<noteq> hi) \<longleftrightarrow> 2 ^ 64 \<le> unat r + unat order * d"
    and "unat r + unat order * d < 2 ^ 64 \<Longrightarrow> unat (r + lo) = unat r + unat order * d"
proof -
  have "unat (of_nat d :: u64) = d" using assms(2) by (intro unat_of_nat_u64) simp
  with mul128_exact [OF assms(1)] have w: "wide hi lo = unat order * d" by simp
  have ov: "r + lo < r \<longleftrightarrow> 2 ^ 64 \<le> unat r + unat lo" using word_add_overflow_iff [of r lo] by simp
  have hi: "hi = 0 \<longleftrightarrow> unat order * d < 2 ^ 64"
  proof
    assume "hi = 0"
    then show "unat order * d < 2 ^ 64"
      using w unsigned_less [of lo, where ?'a = nat] by simp
  next
    assume "unat order * d < 2 ^ 64"
    then have "unat hi = 0" using w by (cases "unat hi") simp_all
    then show "hi = 0" by (simp add: unat_eq_zero)
  qed
  have lo: "unat lo = unat order * d" if "hi = 0" using that w by simp
  show "(r + lo < r \<or> 0 \<noteq> hi) \<longleftrightarrow> 2 ^ 64 \<le> unat r + unat order * d"
  proof (cases "hi = 0")
    case True
    with ov lo show ?thesis by simp
  next
    case False
    then have "2 ^ 64 \<le> unat order * d" using hi by (simp only: not_less)
    then show ?thesis using False by auto
  qed
  assume s: "unat r + unat order * d < 2 ^ 64"
  then have "hi = 0" unfolding hi by linarith
  with s lo show "unat (r + lo) = unat r + unat order * d" by (subst unat_add_exact) simp_all
qed

lemma decode_block_loop_eq:
  assumes "j + length cs \<le> 11" and "cs \<noteq> [] \<longrightarrow> unat order = 58 ^ j"
  shows "decode_block_loop cs r order =
    (if valid58 cs \<and> unat r + 58 ^ j * le58 cs < 2 ^ 64 then Some (of_nat (unat r + 58 ^ j * le58 cs)) else None)"
  using assms
proof (induction cs arbitrary: j r order)
  case (Cons c cs)
  show ?case
  proof (cases "c \<in> set alphabet")
    case True
    let ?d = "digit58 c"
    obtain hi lo where m: "mul128 order (of_nat ?d) = (hi, lo)" by fastforce
    have d: "reverse_alphabet c = Some ?d" "?d < 58" using valid_digit [OF True] by simp_all
    have o: "unat order = 58 ^ j" using Cons.prems by simp
    note st = decode_step [OF m d(2), of r, unfolded o]
    have total: "unat r + 58 ^ j * le58 (c # cs) = unat r + 58 ^ j * ?d + 58 ^ Suc j * le58 cs"
      by (simp add: algebra_simps)
    show ?thesis
    proof (cases "unat r + 58 ^ j * ?d < 2 ^ 64")
      case small: True
      have "unat (order * 58) = 58 ^ Suc j" if "cs \<noteq> []"
      proof -
        have "j \<le> 9" using Cons.prems(1) that by (cases cs) simp_all
        then have "(58 :: nat) ^ Suc j \<le> 58 ^ 10" by (intro power_increasing) simp_all
        then have "unat order * unat (58 :: u64) < 2 ^ LENGTH(64)" unfolding o by simp
        from unat_mult_exact [OF this] show ?thesis by (simp add: o)
      qed
      then have "decode_block_loop cs (r + lo) (order * 58) =
        (if valid58 cs \<and> unat (r + lo) + 58 ^ Suc j * le58 cs < 2 ^ 64
         then Some (of_nat (unat (r + lo) + 58 ^ Suc j * le58 cs)) else None)"
        using Cons.prems(1) by (intro Cons.IH) simp_all
      moreover have "\<not> (r + lo < r \<or> 0 \<noteq> hi)" using st(1) small by simp
      ultimately show ?thesis
        using True d m st(2) [OF small] unfolding total by (simp del: power_Suc of_nat_add)
    next
      case False
      then have "r + lo < r \<or> 0 \<noteq> hi" using st(1) by simp
      moreover have "\<not> unat r + 58 ^ j * le58 (c # cs) < 2 ^ 64" unfolding total using False by linarith
      ultimately show ?thesis using d m by (simp del: le58.simps)
    qed
  qed (simp add: invalid_digit)
next
  case Nil
  have "unat r < 2 ^ 64" using unsigned_less [of r, where ?'a = nat] by simp
  then show ?case by simp
qed

section \<open>Blocks are exact\<close>

lemma uint_8be_to_64_eq: "uint_8be_to_64 bs = le_value (rev bs)"
  by (induction bs rule: rev_induct) (simp_all add: uint_8be_to_64_def or.commute)

lemma take_le_bytes: "n \<le> m \<Longrightarrow> take n (le_bytes m v) = le_bytes n v"
proof (induction n arbitrary: m v)
  case (Suc n)
  then show ?case by (cases m) simp_all
qed simp

lemma uint_64_to_8be_eq: "n \<le> 8 \<Longrightarrow> uint_64_to_8be v n = rev (le_bytes n v)"
  by (simp add: uint_64_to_8be_def drop_rev take_le_bytes)

lemma le_value_bound: "length bs \<le> 8 \<Longrightarrow> unat (le_value bs :: u64) < 2 ^ (8 * length bs)"
proof -
  assume "length bs \<le> 8"
  then have "le_value bs = (take_bit (8 * length bs) (le_value bs) :: u64)"
    using le_value_le_bytes [of "length bs" "le_value bs :: u64"] by simp
  then have "unat (le_value bs :: u64) = unat (le_value bs :: u64) mod 2 ^ (8 * length bs)"
    by (metis unat_take_bit_mod)
  then show ?thesis by (metis mod_less_divisor zero_less_numeral zero_less_power)
qed

lemma nth_block_sizes:
  "encoded_block_sizes ! 1 = 2" "encoded_block_sizes ! 2 = 3" "encoded_block_sizes ! 3 = 5"
  "encoded_block_sizes ! 4 = 6" "encoded_block_sizes ! 5 = 7" "encoded_block_sizes ! 6 = 9"
  "encoded_block_sizes ! 7 = 10" "encoded_block_sizes ! 8 = 11"
  by (simp_all add: encoded_block_sizes_def)

lemma block_size_cases:
  assumes "0 < n" and "n \<le> 8"
  obtains "n = 1" | "n = 2" | "n = 3" | "n = 4" | "n = 5" | "n = 6" | "n = 7" | "n = (8 :: nat)"
  using assms by linarith

lemma block_fits:
  assumes "0 < n" and "n \<le> 8"
  shows "(2 :: nat) ^ (8 * n) \<le> 58 ^ (encoded_block_sizes ! n) \<and> encoded_block_sizes ! n \<le> 11 \<and>
         0 < encoded_block_sizes ! n \<and> (encoded_block_sizes ! n = 11 \<longleftrightarrow> n = 8)"
  using assms by (cases rule: block_size_cases) (simp_all only: nth_block_sizes, simp_all)

lemma encode_block_eq:
  assumes "0 < length b" and "length b \<le> 8"
  shows "encode_block b = rev (le_digits (encoded_block_sizes ! length b) (unat (le_value (rev b) :: u64)))"
proof -
  have "unat (le_value (rev b) :: u64) < 58 ^ (encoded_block_sizes ! length b)"
    using le_value_bound [of "rev b"] block_fits [of "length b"] assms by simp
  from encode_block_loop_eq [OF this, of "[]"] show ?thesis
    by (simp add: encode_block_def uint_8be_to_64_eq)
qed

lemma length_encode_block:
  "0 < length b \<Longrightarrow> length b \<le> 8 \<Longrightarrow> length (encode_block b) = encoded_block_sizes ! length b"
  by (simp add: encode_block_eq)

lemma decode_block_eq:
  assumes n: "0 < n" "n \<le> 8" and s: "length s = encoded_block_sizes ! n"
  shows "decode_block s = (if valid58 s \<and> le58 (rev s) < 2 ^ (8 * n)
           then Some (rev (le_bytes n (of_nat (le58 (rev s)) :: u64))) else None)"
proof -
  let ?v = "le58 (rev s)"
  have sz: "decoded_block_sizes (length s) = Some n"
    using block_sizes_iff [of "length s" n] block_fits [OF n] n s by simp
  have loop: "decode_block_loop (rev s) 0 1 = (if valid58 s \<and> ?v < 2 ^ 64 then Some (of_nat ?v) else None)"
    using decode_block_loop_eq [of 0 "rev s" 1 0] block_fits [OF n] s by simp
  have le: "(2 :: nat) ^ (8 * n) \<le> 2 ^ 64" using n by (intro power_increasing) simp_all
  have over: "push_bit (8 * n) 1 \<le> (of_nat ?v :: u64) \<longleftrightarrow> 2 ^ (8 * n) \<le> ?v" if "?v < 2 ^ 64" "n < 8"
  proof -
    have "(2 :: nat) ^ (8 * n) < 2 ^ 64" using that(2) by (intro power_strict_increasing) simp_all
    then have "unat (of_nat (2 ^ (8 * n)) :: u64) = 2 ^ (8 * n)" by (rule unat_of_nat_u64)
    moreover have "(push_bit (8 * n) 1 :: u64) = of_nat (2 ^ (8 * n))" by simp
    ultimately have "unat (push_bit (8 * n) 1 :: u64) = 2 ^ (8 * n)" by (simp only:)
    then show ?thesis using unat_of_nat_u64 [OF that(1)] by (simp add: word_le_nat_alt)
  qed
  show ?thesis
  proof (cases "valid58 s \<and> ?v < 2 ^ 64")
    case True
    then have "(n < 8 \<and> push_bit (8 * n) 1 \<le> (of_nat ?v :: u64)) \<longleftrightarrow> \<not> ?v < 2 ^ (8 * n)"
      using over n by (cases "n = 8") (simp_all add: not_less)
    with True show ?thesis
      using n by (simp add: decode_block_def sz loop full_block_size_def uint_64_to_8be_eq)
  next
    case False
    then have "\<not> (valid58 s \<and> ?v < 2 ^ (8 * n))" using le by linarith
    with False show ?thesis using n by (simp add: decode_block_def sz loop)
  qed
qed

lemma encode_decode_block:
  assumes "0 < length b" and "length b \<le> 8"
  shows "decode_block (encode_block b) = Some b"
proof -
  let ?v = "le_value (rev b) :: u64" and ?e = "encoded_block_sizes ! length b"
  have v: "unat ?v < 2 ^ (8 * length b)" using le_value_bound [of "rev b"] assms(2) by simp
  then have "unat ?v < 58 ^ ?e" using block_fits [OF assms] by simp
  then have "le58 (rev (encode_block b)) = unat ?v" by (simp add: encode_block_eq [OF assms] le58_le_digits)
  moreover have "valid58 (encode_block b)" using valid_le_digits by (simp add: encode_block_eq [OF assms])
  ultimately show ?thesis
    using decode_block_eq [OF assms length_encode_block [OF assms]] v assms
      le_bytes_le_value [of "rev b", where ?'w = 64] by simp
qed

lemma decode_encode_block:
  assumes "decode_block s = Some b" and "length s \<le> 11"
  shows "0 < length b" "length b \<le> 8" "s = encode_block b"
proof -
  obtain n where "decoded_block_sizes (length s) = Some n" and pos: "n \<noteq> 0"
    using assms(1) by (auto simp: decode_block_def split: option.splits if_splits)
  then have n: "0 < n" "n \<le> 8" "length s = encoded_block_sizes ! n"
    using block_sizes_iff [OF assms(2), of n] by simp_all
  let ?v = "of_nat (le58 (rev s)) :: u64"
  have v: "valid58 s" "le58 (rev s) < 2 ^ (8 * n)" "b = rev (le_bytes n ?v)"
    using assms(1) unfolding decode_block_eq [OF n] by (auto split: if_splits)
  then show len: "0 < length b" "length b \<le> 8" using n by simp_all
  have "(2 :: nat) ^ (8 * n) \<le> 2 ^ 64" using n by (intro power_increasing) simp_all
  with v(2) have u: "unat ?v = le58 (rev s)" by (intro unat_of_nat_u64) simp
  have "unat (take_bit (8 * n) ?v) = unat ?v" using v(2) u unat_take_bit_mod [of "8 * n" ?v] by simp
  then have "le_value (rev b) = ?v" using v(3) le_value_le_bytes [of n ?v] by (simp add: unat_eq_zero word_unat_eq_iff)
  then have "encode_block b = rev (le_digits (length s) (le58 (rev s)))"
    using encode_block_eq [OF len] u v(3) n(3) by simp
  then show "s = encode_block b"
    using le_digits_le58 [of "rev s"] v(1) by simp
qed

section \<open>Texts are exact\<close>

lemma sub_block_drop: "sub_block (i + k) n xs = sub_block i n (drop k xs)"
  by (simp add: sub_block_def add.commute)

lemma upt_Suc_shift: "map f [0..<Suc n] = f 0 # map (\<lambda>i. f (Suc i)) [0..<n]"
  by (simp add: map_upt_Suc del: upt_Suc)

lemma encode_Nil [simp]: "encode [] = []" by (simp add: encode_def)

lemma encode_small: "d \<noteq> [] \<Longrightarrow> length d < 8 \<Longrightarrow> encode d = encode_block d"
  by (simp add: encode_def full_block_size_def sub_block_def)

lemma encode_step:
  assumes "8 \<le> length d"
  shows "encode d = encode_block (take 8 d) @ encode (drop 8 d)"
proof -
  have dv: "length d div 8 = Suc (length (drop 8 d) div 8)" "length d mod 8 = length (drop 8 d) mod 8"
    using assms by (simp_all add: le_div_geq le_mod_geq)
  have "d \<noteq> []" using assms by auto
  then show ?thesis
    unfolding encode_def full_block_size_def Let_def dv upt_Suc_shift mult_Suc add.commute [of 8] sub_block_drop
    by (auto simp: sub_block_def)
qed

lemma decode_small:
  assumes "s \<noteq> []" and "length s < 11"
  shows "decode s = decode_block s"
proof (cases "decoded_block_sizes (length s)")
  case None
  then show ?thesis using assms by (simp add: decode_def full_encoded_block_size_def decode_block_def)
next
  case (Some n)
  then show ?thesis using assms
    by (simp add: decode_def full_encoded_block_size_def sub_block_def split: option.splits)
qed

lemma decode_step11:
  assumes "11 \<le> length s"
  shows "decode s = Some d \<longleftrightarrow>
         (\<exists>a b. d = a @ b \<and> decode_block (take 11 s) = Some a \<and> decode (drop 11 s) = Some b)"
proof -
  have dv: "length s div 11 = Suc (length (drop 11 s) div 11)" "length s mod 11 = length (drop 11 s) mod 11"
    using assms by (simp_all add: le_div_geq le_mod_geq)
  have "s \<noteq> []" using assms by auto
  moreover have "decoded_block_sizes 0 = Some 0" using block_sizes_iff [of 0 0] by (simp add: encoded_block_sizes_def)
  ultimately show ?thesis
    unfolding decode_def full_encoded_block_size_def Let_def dv upt_Suc_shift mult_Suc add.commute [of 11] sub_block_drop
    by (auto simp: sub_block_def split: option.splits)
qed

lemma length_encode_big: "8 \<le> length d \<Longrightarrow> 11 \<le> length (encode d)"
  by (simp add: encode_step length_encode_block nth_block_sizes)

lemma length_encode_small: "d \<noteq> [] \<Longrightarrow> length d < 8 \<Longrightarrow> length (encode d) < 11"
  using block_fits [of "length d"] by (simp add: encode_small length_encode_block)

lemma base58_decode: "decode s = Some d \<longleftrightarrow> s = encode d"
proof (induction "length s" arbitrary: s d rule: less_induct)
  case less
  consider "s = []" | "s \<noteq> []" "length s < 11" | "11 \<le> length s" by linarith
  then show ?case
  proof cases
    case 1
    have "encode d = [] \<longleftrightarrow> d = []"
      using length_encode_big [of d] length_encode_block [of d] block_fits [of "length d"] encode_small [of d]
      by (cases "length d < 8") (auto simp: encode_def)
    with 1 show ?thesis by (auto simp: decode_def)
  next
    case 2
    have "decode_block s = Some d \<longleftrightarrow> s = encode d"
    proof
      assume "decode_block s = Some d"
      then have d: "0 < length d" "length d \<le> 8" "s = encode_block d" using decode_encode_block 2 by auto
      then have "length d \<noteq> 8" using 2(2) length_encode_block [of d] by (auto simp: nth_block_sizes)
      with d show "s = encode d" using encode_small [of d] by simp
    next
      assume s: "s = encode d"
      then have "length d < 8" using 2 length_encode_big [of d] by (cases "length d < 8") simp_all
      moreover have "d \<noteq> []" using s 2 by (auto simp: encode_def)
      ultimately show "decode_block s = Some d" using s encode_small [of d] encode_decode_block [of d] by simp
    qed
    then show ?thesis using decode_small [OF 2] by simp
  next
    case 3
    have IH: "decode (drop 11 s) = Some b \<longleftrightarrow> drop 11 s = encode b" for b using less 3 by simp
    show ?thesis unfolding decode_step11 [OF 3] IH
    proof
      assume "\<exists>a b. d = a @ b \<and> decode_block (take 11 s) = Some a \<and> drop 11 s = encode b"
      then obtain a b where ab: "d = a @ b" "decode_block (take 11 s) = Some a" "drop 11 s = encode b" by blast
      have a: "0 < length a" "length a \<le> 8" "take 11 s = encode_block a"
        using decode_encode_block [OF ab(2)] by simp_all
      then have "encoded_block_sizes ! length a = length (take 11 s)" using length_encode_block [of a] by simp
      then have "length a = 8" using 3 block_fits [OF a(1,2)] by simp
      then show "s = encode d" using ab a(3) encode_step [of d] append_take_drop_id [of 11 s] by simp
    next
      assume s: "s = encode d"
      then have d: "8 \<le> length d"
        using 3 length_encode_small [of d] by (cases "d = []"; cases "length d < 8") simp_all
      then have "take 11 s = encode_block (take 8 d)" "drop 11 s = encode (drop 8 d)"
        using s encode_step [OF d] length_encode_block [of "take 8 d"] by (simp_all add: nth_block_sizes)
      then show "\<exists>a b. d = a @ b \<and> decode_block (take 11 s) = Some a \<and> drop 11 s = encode b"
        using d encode_decode_block [of "take 8 d"] by (intro exI [of _ "take 8 d"] exI [of _ "drop 8 d"]) simp
    qed
  qed
qed

text \<open>
  C34. Base58 decoding is exact: a text decodes to some bytes if and only if it is the encoding
  of those bytes.  So every byte string survives a round trip and no second text decodes to the
  same bytes, for any length and any last block.
\<close>

theorem base58_exact: "decode s = Some d \<longleftrightarrow> s = encode d"
  by (rule base58_decode)

lemma addr_round_trip:
  assumes "\<And>x. addr_checksum_size \<le> length (H x)"
  shows "decode_addr H (encode_addr H tag d) = Some (tag, d)"
proof -
  let ?buf = "get_varint_data tag @ d"
  have "decode (encode_addr H tag d) = Some (?buf @ take addr_checksum_size (H ?buf))"
    by (subst base58_decode) (simp add: encode_addr_def)
  moreover have "get_varint_data tag \<noteq> []"
    by (simp add: get_varint_data_def write_varint_eq writeVarint_vint)
  ultimately show ?thesis
    using assms [of ?buf] by (simp add: decode_addr_def Let_def read_varint_data min_absorb2)
qed

text \<open>
  An address text gives back its tag and its data: decoding an encoded address verifies the
  checksum and returns exactly what was encoded, for every tag and every data, with any hash of
  at least four bytes.
\<close>

theorem decode_addr_encode_addr:
  assumes "\<And>x. addr_checksum_size \<le> length (H x)"
  shows "decode_addr H (encode_addr H tag d) = Some (tag, d)"
  using assms by (rule addr_round_trip)

lemma decode_addr_encode_addr_witness:
  "decode_addr (\<lambda>bs. rev (take 32 (bs @ replicate 32 0))) (encode_addr (\<lambda>bs. rev (take 32 (bs @ replicate 32 0))) 0x3445db [1, 2, 3])
     = Some (0x3445db, [1, 2, 3])"
  by (rule decode_addr_encode_addr) (simp add: addr_checksum_size_def)

end
