(* ===== verification/Format_Utils.thy ===== *)
theory Format_Utils
  imports Tx_Extra Merkle Pq_Derive Config Base58
begin

text \<open>
  The transaction and block helpers of src/src/CryptoNoteCore/CryptoNoteFormatUtils.cpp: amount
  and type checks, output offsets, the block-hashing blob, the block identity and the
  proof-of-work chain (header digest, signing message, signature tape, final hash), and signed
  messages.  The hash functions, the memory-hard function and the signature scheme are the
  fields of \<open>pow_crypto\<close>, an argument of every definition that uses one of them.
\<close>

record 'k pow_crypto =
  pw_fast_hash :: "bytes \<Rightarrow> hash"
  pw_shake256 :: "bytes \<Rightarrow> nat \<Rightarrow> bytes"
  pw_sha3_256 :: "bytes \<Rightarrow> hash"
  pw_yespower :: "bytes \<Rightarrow> nat \<Rightarrow> nat \<Rightarrow> bytes \<Rightarrow> bytes \<Rightarrow> bytes option"
  pw_dsa_sign :: "'k \<Rightarrow> bytes \<Rightarrow> bytes"
  pw_dsa_verify :: "bytes \<Rightarrow> bytes \<Rightarrow> bytes \<Rightarrow> bool"

section \<open>Transactions\<close>

definition parseAndValidateTransactionFromBinaryArray ::
  "(bytes \<Rightarrow> hash) \<Rightarrow> bytes \<Rightarrow> (Transaction \<times> hash \<times> hash) option" where
  "parseAndValidateTransactionFromBinaryArray H tx_blob =
     (case fromBinaryArray get_Transaction tx_blob of
        None \<Rightarrow> None
      | Some tx \<Rightarrow> Some (tx, H tx_blob, snd (getObjectHash H put_TransactionPrefix (TransactionPrefix.truncate tx))))"

fun power_loop :: "nat \<Rightarrow> u64 \<Rightarrow> u64 \<Rightarrow> u64" where
  "power_loop 0 a tot = tot"
| "power_loop (Suc n) a tot = power_loop n a (tot * a)"

definition power_integral :: "u64 \<Rightarrow> u64 \<Rightarrow> u64" where
  "power_integral a b = (if b = 0 then 1 else power_loop (unat b - 1) a a)"

definition get_outs_money_amount :: "Transaction \<Rightarrow> u64" where
  "get_outs_money_amount tx = fold (\<lambda>o' s. s + amount o') (outputs tx) 0"

definition get_tx_fee :: "Transaction \<Rightarrow> u64 option" where
  "get_tx_fee tx =
     (let amount_in = 0; amount_out = fold (\<lambda>o' s. s + amount o') (outputs tx) 0
      in if \<not> amount_out \<le> amount_in then None else Some (amount_in - amount_out))"

definition get_tx_fee_value :: "Transaction \<Rightarrow> u64" where
  "get_tx_fee_value tx = (case get_tx_fee tx of None \<Rightarrow> 0 | Some r \<Rightarrow> r)"

definition get_inputs_money_amount :: "Transaction \<Rightarrow> bool \<times> u64" where
  "get_inputs_money_amount tx = (True, 0)"

definition get_block_height :: "Block \<Rightarrow> u32" where
  "get_block_height b =
     (case inputs (baseTransaction b) of
        [InBase i] \<Rightarrow> blockIndex i
      | _ \<Rightarrow> 0)"

definition check_inputs_types_supported :: "'a TransactionPrefix_scheme \<Rightarrow> bool" where
  "check_inputs_types_supported tx =
     (let pqInputs = TRANSACTION_VERSION_1 \<le> version tx \<and> isPqTransfer (txType tx)
      in list_all (\<lambda>i. case i of InPq _ \<Rightarrow> pqInputs | InBase _ \<Rightarrow> \<not> pqInputs) (inputs tx))"

fun check_outs_loop :: "byte \<Rightarrow> byte \<Rightarrow> TransactionOutput list \<Rightarrow> unit res" where
  "check_outs_loop ver ty [] = Inr ()"
| "check_outs_loop ver ty (out # outs) =
     (case target out of
        OutPq _ \<Rightarrow>
          if \<not> TRANSACTION_VERSION_1 \<le> ver then Inl ''Output with invalid type''
          else if \<not> isPqTransfer ty then Inl ''PqOutput is not allowed for this tx type''
          else if amount out = 0 then Inl ''Zero amount output''
          else check_outs_loop ver ty outs
      | OutCoinbase _ \<Rightarrow>
          if \<not> TRANSACTION_VERSION_1 \<le> ver then Inl ''Output with invalid type''
          else if ty \<noteq> TX_COINBASE then Inl ''CoinbaseOutput is not allowed outside coinbase transactions''
          else if amount out = 0 then Inl ''Zero amount coinbase output''
          else check_outs_loop ver ty outs
      | OutKey _ \<Rightarrow> Inl ''KeyOutput is not allowed in Discrete'')"

definition check_outs_valid :: "'a TransactionPrefix_scheme \<Rightarrow> unit res" where
  "check_outs_valid tx = check_outs_loop (version tx) (txType tx) (outputs tx)"

definition check_inputs_overflow :: "'a TransactionPrefix_scheme \<Rightarrow> bool" where
  "check_inputs_overflow tx = True"

fun outs_overflow_loop :: "TransactionOutput list \<Rightarrow> u64 \<Rightarrow> bool" where
  "outs_overflow_loop [] money = True"
| "outs_overflow_loop (out # outs) money =
     (if amount out + money < money then False else outs_overflow_loop outs (money + amount out))"

definition check_outs_overflow :: "'a TransactionPrefix_scheme \<Rightarrow> bool" where
  "check_outs_overflow tx = outs_overflow_loop (outputs tx) 0"

definition check_money_overflow :: "'a TransactionPrefix_scheme \<Rightarrow> bool" where
  "check_money_overflow tx \<longleftrightarrow> check_inputs_overflow tx \<and> check_outs_overflow tx"

definition short_hash_str :: "hash \<Rightarrow> string" where
  "short_hash_str h =
     (let res = toHex h
      in if length res = 64 then take 8 res @ ''....'' @ drop 56 res else res)"

section \<open>Output offsets\<close>

definition relative_output_offsets_to_absolute :: "u32 list \<Rightarrow> u32 list" where
  "relative_output_offsets_to_absolute off =
     foldl (\<lambda>res i. res[i := res ! i + res ! (i - 1)]) off [1..<length off]"

definition absolute_output_offsets_to_relative :: "u32 list \<Rightarrow> u32 list" where
  "absolute_output_offsets_to_relative off =
     (if off = [] then off
      else foldl (\<lambda>res i. res[i := res ! i - res ! (i - 1)]) (sort off) (rev [1..<length off]))"

text \<open>\<open>std::lower_bound\<close>: the first position whose element is not less than the value.\<close>

definition lower_bound :: "'a::linorder list \<Rightarrow> 'a \<Rightarrow> nat" where
  "lower_bound xs v = length (takeWhile (\<lambda>x. x < v) xs)"

text \<open>The table of Currency.cpp: 1 to 9 at every power of ten below 10^19, then 10^19.\<close>

definition PRETTY_AMOUNTS :: "u64 list" where
  "PRETTY_AMOUNTS = concat (map (\<lambda>k. map (\<lambda>d. of_nat (d * 10 ^ k)) [1..<10]) [0..<19]) @ [10000000000000000000]"

definition is_valid_decomposed_amount :: "u64 \<Rightarrow> bool" where
  "is_valid_decomposed_amount a =
     (let it = lower_bound PRETTY_AMOUNTS a
      in \<not> (it = length PRETTY_AMOUNTS \<or> a \<noteq> PRETTY_AMOUNTS ! it))"

text \<open>
  \<open>decompose_amount_into_digits\<close>; the calls of the two handlers are collected in order, a chunk
  as \<open>Inl\<close> and the dust as \<open>Inr\<close>.
\<close>

function decompose_loop :: "u64 \<Rightarrow> u64 \<Rightarrow> u64 \<Rightarrow> u64 \<Rightarrow> bool \<Rightarrow> (u64 + u64) list \<Rightarrow> u64 \<times> bool \<times> (u64 + u64) list" where
  "decompose_loop threshold amt order dust handled calls =
     (if amt = 0 then (dust, handled, calls)
      else let chunk = (amt mod 10) * order in
        if dust + chunk \<le> threshold
        then decompose_loop threshold (amt div 10) (order * 10) (dust + chunk) handled calls
        else let emit = \<not> handled \<and> dust \<noteq> 0;
                 calls1 = (if emit then calls @ [Inr dust] else calls);
                 calls2 = (if chunk \<noteq> 0 then calls1 @ [Inl chunk] else calls1)
             in decompose_loop threshold (amt div 10) (order * 10) dust (handled \<or> emit) calls2)"
  by pat_completeness auto
termination
  by (relation "measure (\<lambda>(t, a, _). unat a)") (auto simp: unat_div unat_gt_0 word_greater_zero_iff intro!: div_less_dividend)

declare decompose_loop.simps [simp del]

definition decompose_amount_into_digits :: "u64 \<Rightarrow> u64 \<Rightarrow> (u64 + u64) list" where
  "decompose_amount_into_digits amt dust_threshold =
     (if amt = 0 then []
      else case decompose_loop dust_threshold amt 1 0 False [] of
        (dust, handled, calls) \<Rightarrow> if \<not> handled \<and> dust \<noteq> 0 then calls @ [Inr dust] else calls)"

definition decomposeAmount :: "u64 \<Rightarrow> u64 \<Rightarrow> u64 list" where
  "decomposeAmount amt dustThreshold =
     map (\<lambda>c. case c of Inl a \<Rightarrow> a | Inr a \<Rightarrow> a) (decompose_amount_into_digits amt dustThreshold)"

section \<open>Blocks\<close>

definition get_tx_tree_hash :: "(bytes \<Rightarrow> hash) \<Rightarrow> Block \<Rightarrow> hash" where
  "get_tx_tree_hash H b =
     tree_hash H (snd (getObjectHash H put_Transaction (baseTransaction b)) # transactionHashes b)"

definition get_block_hashing_blob :: "(bytes \<Rightarrow> hash) \<Rightarrow> Block \<Rightarrow> bytes option" where
  "get_block_hashing_blob H b =
     (let (ok, ba) = toBinaryArray put_BlockHeader (BlockHeader.truncate b)
      in if \<not> ok then None
         else Some (ba @ get_tx_tree_hash H b @ get_varint_data (of_nat (length (transactionHashes b) + 1))))"

definition DISCRETE_POWER_HEADER_DOMAIN :: string where "DISCRETE_POWER_HEADER_DOMAIN = ''DiscretePower/v2/header''"
definition DISCRETE_POWER_MEMORY_DOMAIN :: string where "DISCRETE_POWER_MEMORY_DOMAIN = ''DiscretePower/v2/memory''"
definition DISCRETE_POWER_SIGN_DOMAIN :: string where "DISCRETE_POWER_SIGN_DOMAIN = ''DiscretePower/v2/sign''"
definition DISCRETE_POWER_FINAL_DOMAIN :: string where "DISCRETE_POWER_FINAL_DOMAIN = ''DiscretePower/v2/final''"
definition DISCRETE_POWER_WITNESS_DOMAIN :: string where "DISCRETE_POWER_WITNESS_DOMAIN = ''DiscretePower/v2/witness''"
definition DISCRETE_POWER_BLOCK_ID_DOMAIN :: string where "DISCRETE_POWER_BLOCK_ID_DOMAIN = ''DiscretePower/v2/block-id''"
definition DISCRETE_POWER_SIG_LEN :: nat where "DISCRETE_POWER_SIG_LEN = 3309"
definition DISCRETE_POWER_N :: nat where "DISCRETE_POWER_N = 4096"
definition DISCRETE_POWER_R :: nat where "DISCRETE_POWER_R = 32"

definition shake256Hash :: "'k pow_crypto \<Rightarrow> bytes \<Rightarrow> hash" where
  "shake256Hash P t = pw_shake256 P t 32"

definition witness_buf :: "bytes \<Rightarrow> bytes" where
  "witness_buf sg = ascii DISCRETE_POWER_WITNESS_DOMAIN @ sg"

definition get_block_signature_witness :: "'k pow_crypto \<Rightarrow> bytes \<Rightarrow> hash" where
  "get_block_signature_witness P sg = shake256Hash P (witness_buf sg)"

definition blockId_buf :: "bytes \<Rightarrow> hash \<Rightarrow> bytes" where
  "blockId_buf cB w =
     ascii DISCRETE_POWER_BLOCK_ID_DOMAIN @ le_bytes 8 (of_nat (length cB) :: u64) @ cB @ w"

definition discretePowerBlockId :: "'k pow_crypto \<Rightarrow> bytes \<Rightarrow> bytes \<Rightarrow> hash" where
  "discretePowerBlockId P cB sg = shake256Hash P (blockId_buf cB (get_block_signature_witness P sg))"

definition discretePowerHeaderFromBlob :: "'k pow_crypto \<Rightarrow> bytes \<Rightarrow> bytes" where
  "discretePowerHeaderFromBlob P blob = pw_shake256 P (ascii DISCRETE_POWER_HEADER_DOMAIN @ blob) 64"

definition discrete_power_memory_personalization :: "'k pow_crypto \<Rightarrow> bytes" where
  "discrete_power_memory_personalization P = pw_shake256 P (ascii DISCRETE_POWER_MEMORY_DOMAIN) 32"

definition discretePowerMemoryAndFinal :: "'k pow_crypto \<Rightarrow> bytes \<Rightarrow> bytes \<Rightarrow> hash option" where
  "discretePowerMemoryAndFinal P H sg =
     (let tape = take DISCRETE_POWER_SIG_LEN sg @ [0x80, 0, 0] in
      case pw_yespower P H DISCRETE_POWER_N DISCRETE_POWER_R (discrete_power_memory_personalization P) tape of
        None \<Rightarrow> None
      | Some y \<Rightarrow> Some (shake256Hash P (ascii DISCRETE_POWER_FINAL_DOMAIN @ H @ y)))"

definition discrete_power_sign_message :: "'k pow_crypto \<Rightarrow> bytes \<Rightarrow> bytes" where
  "discrete_power_sign_message P H = pw_shake256 P (ascii DISCRETE_POWER_SIGN_DOMAIN @ H) 64"

definition get_block_pow_header_hash :: "'k pow_crypto \<Rightarrow> Block \<Rightarrow> bytes option" where
  "get_block_pow_header_hash P b =
     (case get_block_hashing_blob (pw_fast_hash P) b of
        None \<Rightarrow> None | Some blob \<Rightarrow> Some (discretePowerHeaderFromBlob P blob))"

text \<open>The signature is produced whether or not the memory-hard step succeeds.\<close>

definition discrete_power_prove :: "'k pow_crypto \<Rightarrow> bytes \<Rightarrow> 'k \<Rightarrow> bytes \<times> hash option" where
  "discrete_power_prove P blob sk =
     (let H = discretePowerHeaderFromBlob P blob;
          m = discrete_power_sign_message P H;
          sg = pw_dsa_sign P sk m
      in (sg, discretePowerMemoryAndFinal P H sg))"

datatype DiscretePowerReject = RejectNone | BadLength | BadSignature

text \<open>The reject reason and, on success, the hash.\<close>

definition discrete_power_verify ::
  "'k pow_crypto \<Rightarrow> bytes \<Rightarrow> bytes \<Rightarrow> bytes \<Rightarrow> DiscretePowerReject \<times> hash option" where
  "discrete_power_verify P blob pk sg =
     (if length sg \<noteq> DISCRETE_POWER_SIG_LEN then (BadLength, None)
      else let H = discretePowerHeaderFromBlob P blob;
               m = discrete_power_sign_message P H
           in if \<not> pw_dsa_verify P pk m sg then (BadSignature, None)
              else (RejectNone, discretePowerMemoryAndFinal P H sg))"

definition get_block_longhash :: "'k pow_crypto \<Rightarrow> Block \<Rightarrow> hash option" where
  "get_block_longhash P b =
     (if length (signature b) \<noteq> DISCRETE_POWER_SIG_LEN then None
      else case get_block_hashing_blob (pw_fast_hash P) b of
        None \<Rightarrow> None
      | Some blob \<Rightarrow> discretePowerMemoryAndFinal P (discretePowerHeaderFromBlob P blob) (signature b))"

text \<open>
  The merge-mining parent block.  It is not on the wire and is reached only for block versions 2
  and 3, so it is a separate argument here instead of a field of the block.
\<close>

record ParentBlock =
  p_majorVersion :: byte
  p_minorVersion :: byte
  p_previousBlockHash :: hash
  p_transactionCount :: u16
  p_baseTransactionBranch :: "hash list"
  p_baseTransaction :: Transaction
  p_blockchainBranch :: "hash list"

definition put_ParentBlock_tail :: "ParentBlock \<Rightarrow> writer" where
  "put_ParentBlock_tail pb =
     (if length (p_baseTransactionBranch pb) \<noteq> tree_depth (unat (p_transactionCount pb)) then
        wfail ''Wrong miner transaction branch size''
      else
        wthen (wconcat (map put_hash (p_baseTransactionBranch pb)))
        (wthen (put_Transaction (p_baseTransaction pb))
        (case getMergeMiningTagFromExtra (extra (p_baseTransaction pb)) of
           None \<Rightarrow> wfail ''Can't get extra merge mining tag''
         | Some (depth, _) \<Rightarrow>
             if 8 * 32 < depth then wfail ''Wrong merge mining tag depth''
             else if unat depth \<noteq> length (p_blockchainBranch pb) then
               wfail ''Blockchain branch size must be equal to merge mining tag depth''
             else wconcat (map put_hash (p_blockchainBranch pb)))))"

definition put_ParentBlock :: "(bytes \<Rightarrow> hash) \<Rightarrow> bool \<Rightarrow> bool \<Rightarrow> ParentBlock \<Rightarrow> u64 \<Rightarrow> u32 \<Rightarrow> writer" where
  "put_ParentBlock H hashingSerialization headerOnly pb ts n =
     wthen (put_uint (p_majorVersion pb))
     (wthen (put_uint (p_minorVersion pb))
     (wthen (put_uint ts)
     (wthen (put_hash (p_previousBlockHash pb))
     (wthen (put_nonce n)
     (wthen
       (if hashingSerialization then
          case getObjectHash H put_Transaction (p_baseTransaction pb) of (ok, minerTxHash) \<Rightarrow>
            if \<not> ok then wfail ''Get transaction hash error''
            else put_hash (tree_hash_from_branch H (p_baseTransactionBranch pb)
                   (length (p_baseTransactionBranch pb)) minerTxHash None)
        else wout [])
     (wthen (put_uint (ucast (p_transactionCount pb) :: u64))
       (if p_transactionCount pb < 1 then wfail ''Wrong transactions number''
        else if headerOnly then wout []
        else put_ParentBlock_tail pb)))))))"

definition get_parent_block_hashing_blob :: "(bytes \<Rightarrow> hash) \<Rightarrow> ParentBlock \<Rightarrow> Block \<Rightarrow> bool \<times> bytes" where
  "get_parent_block_hashing_blob H pb b =
     toBinaryArray (\<lambda>pb. put_ParentBlock H True True pb (timestamp b) (nonce b)) pb"

definition get_block_hash :: "'k pow_crypto \<Rightarrow> ParentBlock \<Rightarrow> Block \<Rightarrow> hash option" where
  "get_block_hash P pb b =
     (case get_block_hashing_blob (pw_fast_hash P) b of
        None \<Rightarrow> None
      | Some ba \<Rightarrow>
          if majorVersion b = BLOCK_MAJOR_VERSION_2 \<or> majorVersion b = BLOCK_MAJOR_VERSION_3 then
            (case toBinaryArray (\<lambda>pb. put_ParentBlock (pw_fast_hash P) True False pb (timestamp b) (nonce b)) pb of
               (ok, parent_blob) \<Rightarrow>
                 if \<not> ok then None
                 else Some (discretePowerBlockId P (ba @ parent_blob) (signature b)))
          else Some (discretePowerBlockId P ba (signature b)))"

definition get_block_hash_value :: "'k pow_crypto \<Rightarrow> ParentBlock \<Rightarrow> Block \<Rightarrow> hash" where
  "get_block_hash_value P pb b = (case get_block_hash P pb b of None \<Rightarrow> NULL_HASH | Some p \<Rightarrow> p)"

definition get_aux_block_header_hash :: "(bytes \<Rightarrow> hash) \<Rightarrow> Block \<Rightarrow> (bool \<times> hash) option" where
  "get_aux_block_header_hash H b =
     (case get_block_hashing_blob H b of
        None \<Rightarrow> None | Some blob \<Rightarrow> Some (getObjectHash H put_string blob))"

section \<open>Signed messages\<close>

definition CRYPTONOTE_KEYS_SIGNATURE_BASE58_PREFIX :: u64 where
  "CRYPTONOTE_KEYS_SIGNATURE_BASE58_PREFIX = 176103705"

definition kPqMessageDomain :: string where "kPqMessageDomain = ''discrete-pq-message-v1''"

definition pqMessageDigest :: "'k pow_crypto \<Rightarrow> bytes \<Rightarrow> hash" where
  "pqMessageDigest P d = pw_sha3_256 P (ascii kPqMessageDomain @ d)"

definition signMessagePq :: "'k pow_crypto \<Rightarrow> bytes \<Rightarrow> 'k \<Rightarrow> string" where
  "signMessagePq P d spendSk =
     encode_addr (pw_fast_hash P) CRYPTONOTE_KEYS_SIGNATURE_BASE58_PREFIX
       (pw_dsa_sign P spendSk (pqMessageDigest P d))"

definition verifyMessagePq :: "'k pow_crypto \<Rightarrow> bytes \<Rightarrow> bytes \<Rightarrow> string \<Rightarrow> bool" where
  "verifyMessagePq P d spendPub sg =
     (case decode_addr (pw_fast_hash P) sg of
        None \<Rightarrow> False
      | Some (tag, decoded) \<Rightarrow>
          tag = CRYPTONOTE_KEYS_SIGNATURE_BASE58_PREFIX \<and> length decoded = PQ_SIGNATURE_SIZE \<and>
          pw_dsa_verify P spendPub (pqMessageDigest P d) decoded)"

section \<open>Amounts\<close>

lemma outs_overflow_loop_iff:
  "outs_overflow_loop outs money \<longleftrightarrow> unat money + sum_list (map (\<lambda>out. unat (amount out)) outs) < 2 ^ 64"
proof (induction outs arbitrary: money)
  case (Cons out outs)
  have ov: "amount out + money < money \<longleftrightarrow> 2 ^ 64 \<le> unat money + unat (amount out)"
    unfolding add.commute [of "amount out" money] using word_add_overflow_iff [of money "amount out"] by simp
  show ?case
  proof (cases "2 ^ 64 \<le> unat money + unat (amount out)")
    case False
    then have "unat (money + amount out) = unat money + unat (amount out)" by (intro unat_add_exact) simp
    with False ov Cons.IH show ?thesis by (simp add: add.assoc)
  qed (use ov in simp)
next
  case Nil
  show ?case using unsigned_less [of money, where ?'a = nat] by simp
qed

lemma fold_amounts_exact:
  "unat s + sum_list (map (\<lambda>out. unat (amount out)) outs) < 2 ^ 64 \<Longrightarrow>
   unat (fold (\<lambda>out s. s + amount out) outs s) = unat s + sum_list (map (\<lambda>out. unat (amount out)) outs)"
proof (induction outs arbitrary: s)
  case (Cons out outs)
  then have "unat (s + amount out) = unat s + unat (amount out)" by (intro unat_add_exact) simp
  then show ?case using Cons by (simp add: add.assoc)
qed simp

section \<open>Offsets\<close>

lemma prefix_sums_upto:
  assumes "1 \<le> k" and "k \<le> length off"
  shows "length (foldl (\<lambda>res i. res[i := res ! i + res ! (i - 1)]) off [1..<k]) = length off \<and>
    (\<forall>i < length off. foldl (\<lambda>res i. res[i := res ! i + res ! (i - 1)]) off [1..<k] ! i
       = (if i < k then sum_list (take (Suc i) off) else off ! i :: u32))"
  using assms
proof (induction k rule: nat_induct_at_least)
  case base
  then show ?case by (cases off) auto
next
  case (Suc k)
  let ?r = "foldl (\<lambda>res i. res[i := res ! i + res ! (i - 1)]) off [1..<k]"
  have IH: "length ?r = length off" "\<And>i. i < length off \<Longrightarrow> ?r ! i = (if i < k then sum_list (take (Suc i) off) else off ! i)"
    using Suc by simp_all
  have "take (Suc k) off = take k off @ [off ! k]" using Suc.prems by (simp add: take_Suc_conv_app_nth)
  then have "off ! k + sum_list (take (Suc (k - 1)) off) = sum_list (take (Suc k) off)"
    using Suc.hyps by (simp add: add.commute [of "off ! k"])
  then show ?case using Suc.hyps Suc.prems IH by (auto simp: nth_list_update less_Suc_eq)
qed

lemma relative_to_absolute_nth:
  "length (relative_output_offsets_to_absolute off) = length off \<and>
   (\<forall>i < length off. relative_output_offsets_to_absolute off ! i = sum_list (take (Suc i) off))"
proof (cases "off = []")
  case False
  then have "1 \<le> length off" by (cases off) simp_all
  from prefix_sums_upto [OF this order.refl] show ?thesis by (simp add: relative_output_offsets_to_absolute_def)
qed (simp add: relative_output_offsets_to_absolute_def)

lemma differences_from:
  assumes "k \<le> length xs" and "1 \<le> k"
  shows "length (foldl (\<lambda>res i. res[i := res ! i - res ! (i - 1)]) xs (rev [k..<length xs])) = length xs \<and>
    (\<forall>i < length xs. foldl (\<lambda>res i. res[i := res ! i - res ! (i - 1)]) xs (rev [k..<length xs]) ! i
       = (if k \<le> i then xs ! i - xs ! (i - 1) else xs ! i :: u32))"
  using assms
proof (induction k rule: inc_induct)
  case base
  show ?case by simp
next
  case (step k)
  let ?r = "foldl (\<lambda>res i. res[i := res ! i - res ! (i - 1)]) xs (rev [Suc k..<length xs])"
  have up: "rev [k..<length xs] = rev [Suc k..<length xs] @ [k]" using step.hyps by (simp add: upt_conv_Cons)
  have IH: "length ?r = length xs" "\<And>i. i < length xs \<Longrightarrow> ?r ! i = (if Suc k \<le> i then xs ! i - xs ! (i - 1) else xs ! i)"
    using step.IH step.prems by simp_all
  show ?case
    unfolding up foldl_append using IH step.hyps by (auto simp: nth_list_update le_less)
qed

lemma absolute_to_relative_nth:
  "length (absolute_output_offsets_to_relative off) = length off \<and>
   (\<forall>i < length off. absolute_output_offsets_to_relative off ! i
      = (if i = 0 then sort off ! 0 else sort off ! i - sort off ! (i - 1)))"
proof (cases "off = []")
  case False
  then have "1 \<le> length (sort off)" by (cases off) simp_all
  from differences_from [OF this order.refl] show ?thesis
    using False by (auto simp: absolute_output_offsets_to_relative_def)
qed (simp add: absolute_output_offsets_to_relative_def)

lemma sum_of_differences:
  fixes d s :: "u32 list"
  assumes "length d = length s" and "\<And>i. i < length s \<Longrightarrow> d ! i = (if i = 0 then s ! 0 else s ! i - s ! (i - 1))"
    and "i < length s"
  shows "sum_list (take (Suc i) d) = s ! i"
  using assms(3)
proof (induction i)
  case 0
  then have "take (Suc 0) d = [s ! 0]" using assms(1) assms(2) [of 0] by (simp add: take_Suc_conv_app_nth)
  then show ?case by simp
next
  case (Suc i)
  then have "take (Suc (Suc i)) d = take (Suc i) d @ [s ! Suc i - s ! i]"
    using assms by (simp add: take_Suc_conv_app_nth)
  then show ?case using Suc by simp
qed

lemma unat_sum_list_exact:
  "sum_list (map unat xs) < 2 ^ 32 \<Longrightarrow> unat (sum_list xs :: u32) = sum_list (map unat xs)"
proof (induction xs)
  case (Cons x xs)
  then show ?case by (subst sum_list.Cons, subst unat_add_exact) simp_all
qed simp

lemma sum_list_take_mono: "i \<le> j \<Longrightarrow> sum_list (take i xs) \<le> sum_list (take j (xs :: nat list))"
  by (metis le_add1 min.absorb1 sum_list_append take_add le_add_diff_inverse)

lemma absolute_sorted:
  assumes "sum_list (map unat off) < 2 ^ 32"
  shows "sorted (relative_output_offsets_to_absolute off)"
proof -
  have ex: "unat (sum_list (take i off)) = sum_list (take i (map unat off))" for i
  proof -
    have "sum_list (take i (map unat off)) \<le> sum_list (map unat off)"
      using sum_list_take_mono [of i "max i (length off)" "map unat off"] by simp
    then show ?thesis using assms unat_sum_list_exact [of "take i off"] by (simp add: take_map)
  qed
  show ?thesis
    using relative_to_absolute_nth [of off] sum_list_take_mono [of "Suc _" "Suc _" "map unat off"]
    by (auto simp: sorted_iff_nth_mono word_le_nat_alt ex)
qed

text \<open>
  Output offsets survive the two conversions: turning absolute offsets into differences and
  summing them up again gives the sorted offsets, for every list of 32-bit words, and the other
  way round the differences come back as long as their sum fits in 32 bits.
\<close>

theorem offsets_round_trip:
  "relative_output_offsets_to_absolute (absolute_output_offsets_to_relative off) = sort off \<and>
   (sum_list (map unat off) < 2 ^ 32 \<longrightarrow>
    absolute_output_offsets_to_relative (relative_output_offsets_to_absolute off) = off)"
proof (intro conjI impI)
  let ?d = "absolute_output_offsets_to_relative off"
  have "sum_list (take (Suc i) ?d) = sort off ! i" if "i < length off" for i
    using absolute_to_relative_nth [of off] that by (intro sum_of_differences) auto
  then show "relative_output_offsets_to_absolute ?d = sort off"
    using relative_to_absolute_nth [of ?d] absolute_to_relative_nth [of off] by (intro nth_equalityI) auto
next
  let ?a = "relative_output_offsets_to_absolute off"
  assume "sum_list (map unat off) < 2 ^ 32"
  then have "sort ?a = ?a" by (intro sorted_sort_id absolute_sorted)
  moreover have "?a ! i - ?a ! (i - 1) = off ! i" if "i < length off" "i \<noteq> 0" for i
  proof -
    have "take (Suc i) off = take (Suc (i - 1)) off @ [off ! i]" using that by (simp add: take_Suc_conv_app_nth)
    then show ?thesis using relative_to_absolute_nth [of off] that by simp
  qed
  moreover have "?a ! 0 = off ! 0" if "off \<noteq> []" using relative_to_absolute_nth [of off] that by (cases off) auto
  ultimately show "absolute_output_offsets_to_relative ?a = off"
    using absolute_to_relative_nth [of ?a] relative_to_absolute_nth [of off] by (intro nth_equalityI) auto
qed

lemma offsets_round_trip_witness:
  "absolute_output_offsets_to_relative (relative_output_offsets_to_absolute [3, 4, 5]) = [3, 4, 5]"
  using offsets_round_trip [of "[3, 4, 5]"] by simp

section \<open>Decomposition of amounts\<close>

lemma lower_bound_sorted:
  assumes "sorted xs"
  shows "(lower_bound xs v \<noteq> length xs \<and> xs ! lower_bound xs v = v) \<longleftrightarrow> v \<in> set xs"
  using assms
proof (induction xs)
  case (Cons x xs)
  consider "x < v" | "x = v" | "v < x" by (rule linorder_cases)
  then show ?case
  proof cases
    case 1
    with Cons show ?thesis by (auto simp: lower_bound_def)
  next
    case 3
    with Cons.prems show ?thesis by (auto simp: lower_bound_def)
  qed (simp add: lower_bound_def)
qed (simp add: lower_bound_def)

definition digit_amounts :: "nat \<Rightarrow> nat list" where
  "digit_amounts n = concat (map (\<lambda>k. map (\<lambda>d. d * 10 ^ k) [1..<10]) [0..<n])"

lemma digit_amounts_sorted: "sorted (digit_amounts n) \<and> (\<forall>x \<in> set (digit_amounts n). x < 10 ^ n)"
proof (induction n)
  case (Suc n)
  have st: "digit_amounts (Suc n) = digit_amounts n @ map (\<lambda>d. d * 10 ^ n) [1..<10]"
    by (simp add: digit_amounts_def)
  have "sorted_wrt (\<lambda>x y. x * 10 ^ n \<le> y * 10 ^ n) [1..<10 :: nat]"
    by (rule sorted_wrt_mono_rel [OF _ sorted_upt]) simp
  then have sd: "sorted (map (\<lambda>d. d * 10 ^ n) [1..<10 :: nat])" by (simp only: sorted_map)
  have new: "10 ^ n \<le> y \<and> y < 10 ^ Suc n" if "y \<in> set (map (\<lambda>d. d * 10 ^ n) [1..<10 :: nat])" for y
    using that by auto
  have "x \<le> y" if "x \<in> set (digit_amounts n)" "y \<in> set (map (\<lambda>d. d * 10 ^ n) [1..<10])" for x y
    using Suc that(1) new [OF that(2)] by (meson le_trans less_imp_le)
  moreover have "x < 10 ^ Suc n" if "x \<in> set (digit_amounts n)" for x
    using Suc that by (meson lessI less_trans one_less_numeral_iff power_strict_increasing semiring_norm(76))
  ultimately show ?case
    using Suc sd new unfolding st sorted_append set_append by blast
qed (simp add: digit_amounts_def)

lemma pretty_eq: "PRETTY_AMOUNTS = map of_nat (digit_amounts 19) @ [10000000000000000000]"
  by (simp add: PRETTY_AMOUNTS_def digit_amounts_def map_concat comp_def)

lemma pretty_sorted: "sorted PRETTY_AMOUNTS"
proof -
  have lt: "x < 10 ^ 19" if "x \<in> set (digit_amounts 19)" for x using digit_amounts_sorted that by blast
  have le: "unat (of_nat x :: u64) = x" if "x \<in> set (digit_amounts 19)" for x
    using lt [OF that] by (intro unat_of_nat_u64) simp
  have "sorted_wrt (\<lambda>x y. (of_nat x :: u64) \<le> of_nat y) (digit_amounts 19)"
    by (rule sorted_wrt_mono_rel [where P = "(\<le>)"])
      (use digit_amounts_sorted le in \<open>simp_all add: word_le_nat_alt\<close>)
  then have "sorted (map of_nat (digit_amounts 19) :: u64 list)" by (simp only: sorted_map)
  moreover have "of_nat x \<le> (10000000000000000000 :: u64)" if "x \<in> set (digit_amounts 19)" for x
    using le [OF that] lt [OF that] by (simp add: word_le_nat_alt)
  ultimately show ?thesis unfolding pretty_eq by (auto simp: sorted_append)
qed

lemma valid_amount_iff: "is_valid_decomposed_amount a \<longleftrightarrow> a \<in> set PRETTY_AMOUNTS"
  using lower_bound_sorted [OF pretty_sorted, of a] by (auto simp: is_valid_decomposed_amount_def Let_def)

lemma valid_digit_amount:
  assumes "0 < d" and "d < 10" and "d * 10 ^ k < 2 ^ 64"
  shows "is_valid_decomposed_amount (of_nat (d * 10 ^ k))"
proof (cases "k < 19")
  case True
  then have "d * 10 ^ k \<in> set (digit_amounts 19)" 
    using assms by (auto simp: digit_amounts_def intro!: bexI [of _ k])
  then have "of_nat (d * 10 ^ k) \<in> set (map of_nat (digit_amounts 19) :: u64 list)"
    unfolding set_map by (rule imageI)
  then show ?thesis unfolding valid_amount_iff pretty_eq set_append by blast
next
  case False
  have k: "k = 19"
  proof (rule ccontr)
    assume "k \<noteq> 19"
    then have "(10 :: nat) ^ 20 \<le> 10 ^ k" using False by (intro power_increasing) simp_all
    also have "\<dots> \<le> d * 10 ^ k" using assms(1) by simp
    finally show False using assms(3) by simp
  qed
  then have "d = 1" using assms by simp
  with k show ?thesis by (simp add: valid_amount_iff pretty_eq)
qed

definition chunks :: "('a + 'a) list \<Rightarrow> 'a list" where
  "chunks calls = map projl (filter isl calls)"

definition dusts :: "('a + 'a) list \<Rightarrow> 'a list" where
  "dusts calls = map projr (filter (\<lambda>c. \<not> isl c) calls)"

lemma calls_simps [simp]:
  "chunks [] = []" "dusts [] = []" "chunks (xs @ ys) = chunks xs @ chunks ys" "dusts (xs @ ys) = dusts xs @ dusts ys"
  "chunks (Inl c # cs) = c # chunks cs" "chunks (Inr c # cs) = chunks cs"
  "dusts (Inl c # cs) = dusts cs" "dusts (Inr c # cs) = c # dusts cs"
  by (simp_all add: chunks_def dusts_def)

lemma sum_calls:
  "sum_list (map unat (map (\<lambda>c. case c of Inl a \<Rightarrow> a | Inr a \<Rightarrow> a) calls))
     = sum_list (map unat (chunks calls)) + sum_list (map unat (dusts calls))"
  by (induction calls) (auto simp: chunks_def dusts_def split: sum.splits)

lemma set_calls: "(\<lambda>c. case c of Inl a \<Rightarrow> a | Inr a \<Rightarrow> a) ` set calls = set (chunks calls) \<union> set (dusts calls)"
  by (induction calls) (auto simp: chunks_def dusts_def split: sum.splits)

text \<open>
  The loop invariant: \<open>k\<close> digits are done, the rest, the dust and the chunks add up to the whole,
  and once a chunk was too big for the dust every later non-zero chunk is.
\<close>

definition dinv :: "u64 \<Rightarrow> nat \<Rightarrow> u64 \<Rightarrow> u64 \<Rightarrow> u64 \<Rightarrow> bool \<Rightarrow> (u64 + u64) list \<Rightarrow> nat \<Rightarrow> bool" where
  "dinv t tot amt order dust handled calls k \<longleftrightarrow>
     (amt \<noteq> 0 \<longrightarrow> unat order = 10 ^ k) \<and>
     unat amt * 10 ^ k + unat dust + sum_list (map unat (chunks calls)) = tot \<and>
     unat dust \<le> unat t \<and> (handled \<or> calls \<noteq> [] \<longrightarrow> unat t < unat dust + 10 ^ k) \<and>
     dusts calls = (if handled then [dust] else []) \<and> list_all is_valid_decomposed_amount (chunks calls)"

lemma dinv_step:
  assumes "dinv t tot amt order dust handled calls k" and "amt \<noteq> 0" and tot: "tot < 2 ^ 64"
  defines "chunk \<equiv> (amt mod 10) * order"
  shows "unat chunk = unat amt mod 10 * 10 ^ k" and "unat (dust + chunk) = unat dust + unat chunk"
    and "unat (amt div 10) * 10 ^ Suc k + unat chunk = unat amt * 10 ^ k"
    and "amt div 10 \<noteq> 0 \<longrightarrow> unat (order * 10) = 10 ^ Suc k"
proof -
  have o: "unat order = 10 ^ k" and s: "unat amt * 10 ^ k + unat dust \<le> tot"
    using assms(1,2) by (auto simp: dinv_def)
  have "unat amt mod 10 * 10 ^ k \<le> unat amt * 10 ^ k" by (intro mult_le_mono1) simp
  with s tot have fits: "unat amt mod 10 * 10 ^ k + unat dust < 2 ^ 64" by linarith
  then show c: "unat chunk = unat amt mod 10 * 10 ^ k"
    unfolding chunk_def by (subst unat_mult_exact) (simp_all add: unat_mod o)
  show "unat (dust + chunk) = unat dust + unat chunk"
    using fits by (intro unat_add_exact) (simp add: c)
  have "unat amt * 10 ^ k = (unat amt div 10 * 10 + unat amt mod 10) * 10 ^ k" by simp
  then show "unat (amt div 10) * 10 ^ Suc k + unat chunk = unat amt * 10 ^ k"
    unfolding c unat_div distrib_right by simp
  show "amt div 10 \<noteq> 0 \<longrightarrow> unat (order * 10) = 10 ^ Suc k"
  proof
    assume "amt div 10 \<noteq> 0"
    then have "unat (amt div 10) \<noteq> 0" by (simp only: unat_eq_zero) simp
    then have "10 \<le> unat amt" by (simp add: unat_div)
    then have "10 * 10 ^ k \<le> unat amt * 10 ^ k" by (rule mult_le_mono1)
    then have "10 * 10 ^ k < (2 :: nat) ^ 64" using s tot by linarith
    then have "unat order * unat (10 :: u64) < 2 ^ LENGTH(64)" unfolding o by simp
    from unat_mult_exact [OF this] show "unat (order * 10) = 10 ^ Suc k" by (simp add: o)
  qed
qed

lemma dinv_keep:
  assumes inv: "dinv t tot amt order dust handled calls k" and nz: "amt \<noteq> 0" and tot: "tot < 2 ^ 64"
    and le: "dust + (amt mod 10) * order \<le> t"
  shows "dinv t tot (amt div 10) (order * 10) (dust + (amt mod 10) * order) handled calls (Suc k)"
proof -
  let ?chunk = "(amt mod 10) * order"
  note st = dinv_step [OF inv nz tot]
  have le': "unat dust + unat ?chunk \<le> unat t" using le st(2) by (simp add: word_le_nat_alt)
  have z: "unat ?chunk = 0" if "handled \<or> calls \<noteq> []"
  proof (rule ccontr)
    assume "unat ?chunk \<noteq> 0"
    then have "unat amt mod 10 \<noteq> 0" unfolding st(1) by simp
    then have "1 * 10 ^ k \<le> unat ?chunk" unfolding st(1) by (intro mult_le_mono1) simp
    moreover have "unat t < unat dust + 10 ^ k" using inv that by (auto simp: dinv_def)
    ultimately show False using le' by linarith
  qed
  then have same: "dust + ?chunk = dust" if "handled \<or> calls \<noteq> []"
    using that by (simp add: unat_eq_zero)
  have p: "(10 :: nat) ^ k \<le> 10 ^ Suc k" by simp
  show ?thesis
    unfolding dinv_def st(2)
  proof (intro conjI)
    show "unat (amt div 10) * 10 ^ Suc k + (unat dust + unat ?chunk) + sum_list (map unat (chunks calls)) = tot"
      using inv st(3) unfolding dinv_def by linarith
    show "handled \<or> calls \<noteq> [] \<longrightarrow> unat t < unat dust + unat ?chunk + 10 ^ Suc k"
      using inv p unfolding dinv_def by linarith
    show "dusts calls = (if handled then [dust + ?chunk] else [])"
      using inv same unfolding dinv_def by (cases handled) simp_all
  qed (use inv st(4) le' in \<open>simp_all add: dinv_def\<close>)
qed

lemma dinv_emit:
  assumes inv: "dinv t tot amt order dust handled calls k" and nz: "amt \<noteq> 0" and tot: "tot < 2 ^ 64"
    and gt: "\<not> dust + (amt mod 10) * order \<le> t"
  defines "emit \<equiv> \<not> handled \<and> dust \<noteq> 0"
  defines "calls1 \<equiv> if emit then calls @ [Inr dust] else calls"
  shows "(amt mod 10) * order \<noteq> 0"
    and "dinv t tot (amt div 10) (order * 10) dust (handled \<or> emit) (calls1 @ [Inl ((amt mod 10) * order)]) (Suc k)"
proof -
  let ?chunk = "(amt mod 10) * order"
  note st = dinv_step [OF inv nz tot]
  have gt': "unat t < unat dust + unat ?chunk" using gt st(2) by (simp add: word_le_nat_alt)
  have nz': "unat ?chunk \<noteq> 0" using gt' inv by (auto simp: dinv_def)
  then show "?chunk \<noteq> 0" by (simp only: unat_eq_zero) simp
  have d: "unat amt mod 10 \<noteq> 0" using nz' unfolding st(1) by simp
  have "unat ?chunk < 2 ^ 64" using unsigned_less [of ?chunk, where ?'a = nat] by simp
  then have "is_valid_decomposed_amount (of_nat (unat amt mod 10 * 10 ^ k))"
    using d unfolding st(1) by (intro valid_digit_amount) simp_all
  moreover have "of_nat (unat amt mod 10 * 10 ^ k) = ?chunk" unfolding st(1) [symmetric] by simp
  ultimately have valid: "is_valid_decomposed_amount ?chunk" by (simp only:)
  have "unat ?chunk < 10 ^ Suc k" unfolding st(1) by simp
  then have big: "unat t < unat dust + 10 ^ Suc k" using gt' by linarith
  show "dinv t tot (amt div 10) (order * 10) dust (handled \<or> emit) (calls1 @ [Inl ?chunk]) (Suc k)"
    unfolding dinv_def
  proof (intro conjI)
    show "unat (amt div 10) * 10 ^ Suc k + unat dust + sum_list (map unat (chunks (calls1 @ [Inl ?chunk]))) = tot"
      using inv st(3) unfolding dinv_def calls1_def by (cases emit) simp_all
    show "dusts (calls1 @ [Inl ?chunk]) = (if handled \<or> emit then [dust] else [])"
      using inv unfolding dinv_def calls1_def emit_def by auto
    show "list_all is_valid_decomposed_amount (chunks (calls1 @ [Inl ?chunk]))"
      using inv valid unfolding dinv_def calls1_def by (cases emit) simp_all
  qed (use inv st(4) big in \<open>simp_all add: dinv_def\<close>)
qed

lemma decompose_loop_inv:
  assumes "dinv t tot amt order dust handled calls k" and "tot < 2 ^ 64"
    and "decompose_loop t amt order dust handled calls = (dust', handled', calls')"
  shows "\<exists>order' k'. dinv t tot 0 order' dust' handled' calls' k'"
  using assms
proof (induction t amt order dust handled calls arbitrary: k rule: decompose_loop.induct)
  case (1 t amt order dust handled calls)
  consider "amt = 0" | "amt \<noteq> 0" "dust + (amt mod 10) * order \<le> t" | "amt \<noteq> 0" "\<not> dust + (amt mod 10) * order \<le> t"
    by blast
  then show ?case
  proof cases
    case 1
    then show ?thesis using "1.prems" by (subst (asm) decompose_loop.simps) auto
  next
    case 2
    note dk = dinv_keep [OF "1.prems"(1) 2(1) "1.prems"(2) 2(2)]
    show ?thesis
      using "1.IH"(1) [OF 2(1) refl 2(2) dk "1.prems"(2)] "1.prems"(3) 2
      by (subst (asm) (2) decompose_loop.simps) (simp add: Let_def)
  next
    case 3
    note de = dinv_emit [OF "1.prems"(1) 3(1) "1.prems"(2) 3(2)]
    show ?thesis
      using "1.IH"(2) [OF 3(1) refl 3(2) refl refl refl _ "1.prems"(2), simplified de(1) simp_thms if_True, OF de(2)] "1.prems"(3) 3 de(1)
      by (subst (asm) (2) decompose_loop.simps) (simp add: Let_def)
  qed
qed

text \<open>
  Splitting an amount loses nothing: for every amount and dust threshold the parts add up to
  the amount, and every part is a digit times a power of ten unless it is dust within the
  threshold.
\<close>

theorem decompose_exact:
  "sum_list (map unat (decomposeAmount a t)) = unat a \<and>
   list_all (\<lambda>x. is_valid_decomposed_amount x \<or> x \<le> t) (decomposeAmount a t)"
proof (cases "a = 0")
  case False
  obtain dust handled calls where l: "decompose_loop t a 1 0 False [] = (dust, handled, calls)" by (metis prod_cases3)
  have "dinv t (unat a) a 1 0 False [] 0" by (simp add: dinv_def)
  moreover have "unat a < 2 ^ 64" using unsigned_less [of a, where ?'a = nat] by simp
  ultimately obtain order k where inv: "dinv t (unat a) 0 order dust handled calls k"
    using decompose_loop_inv l by blast
  let ?calls = "decompose_amount_into_digits a t"
  have "chunks ?calls = chunks calls" and "sum_list (map unat (dusts ?calls)) = unat dust"
    and "set (dusts ?calls) \<subseteq> {dust}"
    using False l inv by (auto simp: decompose_amount_into_digits_def dinv_def)
  then show ?thesis
    using inv unfolding decomposeAmount_def sum_calls list_all_iff set_map set_calls
    by (auto simp: dinv_def list_all_iff word_le_nat_alt)
qed (simp add: decomposeAmount_def decompose_amount_into_digits_def)

section \<open>Block identity\<close>

lemma varint_data_inject: "get_varint_data v = get_varint_data w \<longleftrightarrow> v = w"
proof
  assume eq: "get_varint_data v = get_varint_data w"
  have "fst (snd (read_varint (get_varint_data v @ []))) = fst (snd (read_varint (get_varint_data w @ [])))"
    by (simp only: eq)
  then show "v = w" by (simp only: read_varint_data fst_conv snd_conv)
qed simp

lemmas version_defs = BLOCK_MAJOR_VERSION_1_def BLOCK_MAJOR_VERSION_2_def BLOCK_MAJOR_VERSION_3_def BLOCK_MAJOR_VERSION_8_def

lemma hashing_blob_eq:
  "header_ok b \<Longrightarrow> get_block_hashing_blob H b = Some (fst (put_BlockHeader (BlockHeader.truncate b)) @
     get_tx_tree_hash H b @ get_varint_data (of_nat (length (transactionHashes b) + 1)))"
  using header_codec.enc_ok [of "BlockHeader.truncate b"]
  by (simp add: get_block_hashing_blob_def toBinaryArray_def)

lemma hashing_blob_Some: "header_ok b \<Longrightarrow> \<exists>bb. get_block_hashing_blob H b = Some bb"
  by (simp only: hashing_blob_eq) blast

lemma varint_data_length: "length (get_varint_data v) \<le> 10"
  by (simp add: get_varint_data_def write_varint_eq writeVarint_length)

lemma uint_image_length: "length (fst (put_uint (v :: 'w::len word))) \<le> 10"
  by (simp add: put_uint_def writeVarint_length)

lemma hashing_blob_length:
  assumes "header_ok b" and "length (get_tx_tree_hash H b) = HASH_SIZE" and "get_block_hashing_blob H b = Some bb"
  shows "length bb \<le> 200"
proof -
  have "length (fst (put_BlockHeader (BlockHeader.truncate b))) \<le> 70"
    using assms(1) uint_image_length [of "majorVersion b"] uint_image_length [of "minorVersion b"]
      uint_image_length [of "timestamp b"]
    unfolding header_truncate
    by (simp add: put_BlockHeader_def header_ok_def scalar_facts put_hash_def put_nonce_def put_binary_def size_defs)
  then show ?thesis
    using assms varint_data_length [of "of_nat (length (transactionHashes b) + 1)"]
    by (auto simp: hashing_blob_eq size_defs)
qed

lemma hashing_blob_inject:
  assumes "header_ok b" "header_ok c" and "length (get_tx_tree_hash H b) = HASH_SIZE" "length (get_tx_tree_hash H c) = HASH_SIZE"
    and "length (transactionHashes b) + 1 < 2 ^ 64" "length (transactionHashes c) + 1 < 2 ^ 64"
    and "get_block_hashing_blob H b = get_block_hashing_blob H c"
  shows "BlockHeader.truncate b = BlockHeader.truncate c \<and> get_tx_tree_hash H b = get_tx_tree_hash H c \<and>
         length (transactionHashes b) = length (transactionHashes c)"
proof -
  let ?n = "\<lambda>b. get_varint_data (of_nat (length (transactionHashes b) + 1) :: u64)"
  have eq: "fst (put_BlockHeader (BlockHeader.truncate b)) @ get_tx_tree_hash H b @ ?n b
          = fst (put_BlockHeader (BlockHeader.truncate c)) @ get_tx_tree_hash H c @ ?n c"
    using assms(7) unfolding hashing_blob_eq [OF assms(1)] hashing_blob_eq [OF assms(2)] by (rule option.inject [THEN iffD1])
  have "BlockHeader.truncate b = BlockHeader.truncate c \<and> get_tx_tree_hash H b @ ?n b = get_tx_tree_hash H c @ ?n c"
    using header_codec.prefix_free [OF _ _ eq] assms(1,2) by simp
  moreover from this have "get_tx_tree_hash H b = get_tx_tree_hash H c" "?n b = ?n c"
    using assms(3,4) by simp_all
  then have "unat (of_nat (length (transactionHashes b) + 1) :: u64) = unat (of_nat (length (transactionHashes c) + 1) :: u64)"
    by (simp only: varint_data_inject)
  then have "length (transactionHashes b) + 1 = length (transactionHashes c) + 1"
    using assms(5,6) by (simp only: unat_of_nat_u64)
  ultimately show ?thesis by simp
qed

lemma blockId_buf_inject:
  assumes "length cB < 2 ^ 64" "length cB' < 2 ^ 64"
  shows "blockId_buf cB w = blockId_buf cB' w' \<longleftrightarrow> cB = cB' \<and> w = w'"
proof
  assume "blockId_buf cB w = blockId_buf cB' w'"
  then have eq: "le_bytes 8 (of_nat (length cB) :: u64) = le_bytes 8 (of_nat (length cB') :: u64)" "cB @ w = cB' @ w'"
    by (simp_all add: blockId_buf_def append_eq_append_conv)
  then have "unat (of_nat (length cB) :: u64) = unat (of_nat (length cB') :: u64)"
    by (simp add: le_bytes_inject)
  then have "length cB = length cB'" using assms by (simp only: unat_of_nat_u64)
  with eq(2) show "cB = cB' \<and> w = w'" by simp
qed simp


definition sample_block :: "byte \<Rightarrow> Block" where
  "sample_block n = \<lparr>majorVersion = 1, minorVersion = 0, nonce = 70, timestamp = 1784123353,
     previousBlockHash = replicate 32 0, baseTransaction = sample_tx, signature = replicate 3309 n,
     transactionHashes = [replicate 32 7]\<rparr>"

definition toy_pow :: "nat pow_crypto" where
  "toy_pow = \<lparr>pw_fast_hash = (\<lambda>x. take 32 (x @ replicate 32 0)), pw_shake256 = (\<lambda>x n. x),
     pw_sha3_256 = (\<lambda>x. take 32 (x @ replicate 32 0)), pw_yespower = (\<lambda>h n r p t. Some (rev t)),
     pw_dsa_sign = (\<lambda>k m. replicate 3309 (of_nat (k + length m))),
     pw_dsa_verify = (\<lambda>pk m sg. sg = replicate 3309 (of_nat (length pk + length m)))\<rparr>"

lemma toy_hash_length [simp]: "length (pw_fast_hash toy_pow x) = HASH_SIZE"
  by (simp add: toy_pow_def size_defs min_def)

lemma sample_header_ok [simp]: "header_ok (sample_block n)" "majorVersion (sample_block n) = BLOCK_MAJOR_VERSION_1"
  by (simp_all add: sample_block_def header_ok_def version_defs size_defs)


section \<open>Proof of work and signed messages\<close>

lemma blob_ignores_signature [simp]:
  "get_block_hashing_blob H (b\<lparr>signature := sg\<rparr>) = get_block_hashing_blob H b"
proof -
  have "get_tx_tree_hash H (b\<lparr>signature := sg\<rparr>) = get_tx_tree_hash H b"
    "transactionHashes (b\<lparr>signature := sg\<rparr>) = transactionHashes b"
    "BlockHeader.truncate (b\<lparr>signature := sg\<rparr>) = BlockHeader.truncate b"
    by (simp_all add: get_tx_tree_hash_def BlockHeader.defs)
  then show ?thesis unfolding get_block_hashing_blob_def by (simp only:)
qed

text \<open>
  C36. What a miner proves, every verifier accepts with the same hash: for a signature scheme
  that verifies its own signatures and signs in the fixed length, the verifier runs to the end
  on the proof and returns the prover's hash, and so does the hash of the block that carries the
  signature.
\<close>

theorem pow_prove_then_verify:
  assumes "\<And>m. pw_dsa_verify P pk m (pw_dsa_sign P sk m)" and "\<And>m. length (pw_dsa_sign P sk m) = DISCRETE_POWER_SIG_LEN"
    and "get_block_hashing_blob (pw_fast_hash P) b = Some blob" and "discrete_power_prove P blob sk = (sg, h)"
  shows "discrete_power_verify P blob pk sg = (RejectNone, h) \<and> get_block_longhash P (b\<lparr>signature := sg\<rparr>) = h"
  using assms by (auto simp: discrete_power_prove_def discrete_power_verify_def get_block_longhash_def Let_def)

lemma pow_prove_then_verify_witness:
  "\<exists>blob sg h. discrete_power_prove toy_pow blob 3 = (sg, Some h) \<and>
     discrete_power_verify toy_pow blob [0, 0, 0] sg = (RejectNone, Some h) \<and>
     get_block_longhash toy_pow ((sample_block 1)\<lparr>signature := sg\<rparr>) = Some h"
proof -
  obtain blob where b: "get_block_hashing_blob (pw_fast_hash toy_pow) (sample_block 1) = Some blob"
    using hashing_blob_Some [OF sample_header_ok(1)] by blast
  obtain sg h where p: "discrete_power_prove toy_pow blob 3 = (sg, h)" by fastforce
  then have "h \<noteq> None"
    by (auto simp: discrete_power_prove_def discretePowerMemoryAndFinal_def toy_pow_def Let_def)
  moreover have "discrete_power_verify toy_pow blob [0, 0, 0] sg = (RejectNone, h) \<and>
     get_block_longhash toy_pow ((sample_block 1)\<lparr>signature := sg\<rparr>) = h"
    by (rule pow_prove_then_verify [OF _ _ b p]) (simp_all add: toy_pow_def DISCRETE_POWER_SIG_LEN_def numeral_3_eq_3)
  ultimately show ?thesis using p by auto
qed

text \<open>
  A bad proof costs no memory-hard work: when the verifier rejects for the length or for the
  signature, its answer does not depend on the memory-hard function at all.
\<close>

theorem pow_rejects_before_memory_work:
  assumes "fst (discrete_power_verify P blob pk sg) \<noteq> RejectNone"
  shows "discrete_power_verify (P\<lparr>pw_yespower := f\<rparr>) blob pk sg = discrete_power_verify P blob pk sg \<and>
         snd (discrete_power_verify P blob pk sg) = None"
  using assms
  by (auto simp: discrete_power_verify_def Let_def discretePowerHeaderFromBlob_def
      discrete_power_sign_message_def split: if_splits)

lemma pow_rejects_before_memory_work_witness:
  "discrete_power_verify (toy_pow\<lparr>pw_yespower := (\<lambda>h n r p t. None)\<rparr>) [1] [0] (replicate 3309 0) = (BadSignature, None)"
  using pow_rejects_before_memory_work [of toy_pow "[1]" "[0]" "replicate 3309 0" "\<lambda>h n r p t. None"]
  by (simp add: discrete_power_verify_def toy_pow_def DISCRETE_POWER_SIG_LEN_def discrete_power_sign_message_def
      discretePowerHeaderFromBlob_def DISCRETE_POWER_SIGN_DOMAIN_def DISCRETE_POWER_HEADER_DOMAIN_def ascii_def)

text \<open>
  A signed message verifies: the text \<open>signMessagePq\<close> prints is accepted for the same message
  by the matching public key, through the Base58 encoding and its checksum.
\<close>

theorem signed_message_verifies:
  assumes "\<And>m. pw_dsa_verify P pk m (pw_dsa_sign P sk m)" and "\<And>m. length (pw_dsa_sign P sk m) = PQ_SIGNATURE_SIZE"
    and "\<And>x. addr_checksum_size \<le> length (pw_fast_hash P x)"
  shows "verifyMessagePq P d pk (signMessagePq P d sk)"
  using assms by (simp add: verifyMessagePq_def signMessagePq_def addr_round_trip)

lemma signed_message_verifies_witness: "verifyMessagePq toy_pow [1, 2] [0, 0, 0] (signMessagePq toy_pow [1, 2] 3)"
  by (rule signed_message_verifies)
    (simp_all add: toy_pow_def size_defs addr_checksum_size_def numeral_3_eq_3)

end
