(* ===== verification/Genesis.thy ===== *)
theory Genesis
  imports Tx_Extra Pq_Derive Config Strings
begin

text \<open>
  The genesis coinbase of src/src/CryptoNoteCore/GenesisTreasuryReserve.cpp: 21 stripped coinbase
  outputs with staggered unlock heights, the headline and, on the test network, a marker in the
  extra field.  The generated table of recipient keys and SHA3 are arguments.
\<close>

definition GENESIS_TREASURY_RESERVE_BATCHES :: nat where "GENESIS_TREASURY_RESERVE_BATCHES = 21"
definition GENESIS_TREASURY_RESERVE_BATCH_ATOMS :: u64 where "GENESIS_TREASURY_RESERVE_BATCH_ATOMS = 5000000"
definition GENESIS_TREASURY_RESERVE_UNLOCK_STEP :: u64 where "GENESIS_TREASURY_RESERVE_UNLOCK_STEP = 87600"
definition GENESIS_TESTNET_MARKER :: string where "GENESIS_TESTNET_MARKER = ''discrete-testnet-genesis-v1''"

definition kGenesisMessage :: bytes where
  "kGenesisMessage = ascii ''Reuters 08/Jul/2026 '' @ [0xE2, 0x80, 0x94] @
     ascii '' Crypto firms prepare defenses as quantum threat to encryption draws nearer''"

definition decodeFixedHex :: "nat \<Rightarrow> string \<Rightarrow> string \<Rightarrow> bytes res" where
  "decodeFixedHex n hex what =
     (if hex = [] then
        Inl (''Genesis Treasury Reserve recipient key not provisioned ('' @ what @
             ''). Run: admin-tools --treasury-reserve-accounts and rebuild.'')
      else case fromHex hex n of
        None \<Rightarrow> Inl (''Genesis Treasury Reserve recipient key has wrong size ('' @ what @ '')'')
      | Some out \<Rightarrow>
          if length out \<noteq> n then Inl (''Genesis Treasury Reserve recipient key has wrong size ('' @ what @ '')'')
          else Inr out)"

definition genesis_output :: "(bytes \<Rightarrow> hash) \<Rightarrow> bytes \<Rightarrow> nat \<Rightarrow> TransactionOutput" where
  "genesis_output sha3 spendPub i =
     \<lparr>amount = GENESIS_TREASURY_RESERVE_BATCH_ATOMS,
      outUnlockHeight = of_nat i * GENESIS_TREASURY_RESERVE_UNLOCK_STEP,
      target = OutCoinbase \<lparr>cbSpendCommit = spendCommitHash sha3 spendPub (coinbaseRho sha3 spendPub 0 (of_nat i))\<rparr>\<rparr>"

fun genesis_outputs :: "(bytes \<Rightarrow> hash) \<Rightarrow> string list \<Rightarrow> nat list \<Rightarrow> TransactionOutput list res" where
  "genesis_outputs sha3 keys [] = Inr []"
| "genesis_outputs sha3 keys (i # is) =
     (case decodeFixedHex PQ_AUTH_PUB_SIZE (keys ! i) ''spendPub'' of
        Inl e \<Rightarrow> Inl e
      | Inr spendPub \<Rightarrow>
          case genesis_outputs sha3 keys is of
            Inl e \<Rightarrow> Inl e
          | Inr outs \<Rightarrow> Inr (genesis_output sha3 spendPub i # outs))"

definition genesis_extra :: "bool \<Rightarrow> bytes" where
  "genesis_extra testnet =
     (let e1 = snd (addExtraNonceToTransactionExtra [] kGenesisMessage);
          e2 = (if testnet then snd (addExtraNonceToTransactionExtra e1 (ascii GENESIS_TESTNET_MARKER)) else e1)
      in snd (addPqMinerSpendPubToExtra e2 (replicate PQ_AUTH_PUB_SIZE 0)))"

definition buildGenesisTreasuryReserveCoinbase :: "(bytes \<Rightarrow> hash) \<Rightarrow> string list \<Rightarrow> bool \<Rightarrow> Transaction res" where
  "buildGenesisTreasuryReserveCoinbase sha3 keys testnet =
     (case genesis_outputs sha3 keys [0..<GENESIS_TREASURY_RESERVE_BATCHES] of
        Inl e \<Rightarrow> Inl e
      | Inr outs \<Rightarrow> Inr \<lparr>version = TRANSACTION_VERSION_1, txType = TX_COINBASE, unlockHeight = 0,
          inputs = [InBase \<lparr>blockIndex = 0\<rparr>], outputs = outs, extra = genesis_extra testnet,
          pqSignatures = []\<rparr>)"

section \<open>The genesis transaction\<close>

lemma decodeFixedHex_toHex: "length b = n \<Longrightarrow> b \<noteq> [] \<Longrightarrow> decodeFixedHex n (toHex b) what = Inr b"
proof -
  assume "length b = n" and "b \<noteq> []"
  moreover from this have "toHex b \<noteq> []" by (metis length_0_conv length_toHex mult_eq_0_iff zero_neq_numeral)
  ultimately show ?thesis by (simp add: decodeFixedHex_def fromHex_def fromHex_loop_toHex)
qed

lemma genesis_outputs_eq:
  assumes "\<forall>i \<in> set is. i < length pubs" and "\<forall>p \<in> set pubs. length p = PQ_AUTH_PUB_SIZE"
  shows "genesis_outputs sha3 (map toHex pubs) is = Inr (map (\<lambda>i. genesis_output sha3 (pubs ! i) i) is)"
  using assms(1)
proof (induction "is")
  case (Cons i "is")
  then have "pubs ! i \<in> set pubs" by simp
  then have l: "length (pubs ! i) = PQ_AUTH_PUB_SIZE" using assms(2) by blast
  then have "pubs ! i \<noteq> []" by (auto simp: size_defs)
  with l Cons show ?case by (simp add: decodeFixedHex_toHex)
qed simp

lemma genesis_output_simps [simp]:
  "amount (genesis_output sha3 p i) = GENESIS_TREASURY_RESERVE_BATCH_ATOMS"
  "outUnlockHeight (genesis_output sha3 p i) = of_nat i * GENESIS_TREASURY_RESERVE_UNLOCK_STEP"
  by (simp_all add: genesis_output_def)

lemma genesis_output_target:
  "(\<And>x. length (sha3 x) = HASH_SIZE) \<Longrightarrow> target_ok (target (genesis_output sha3 p i))"
  by (simp add: genesis_output_def target_ok_def spendCommitHash_def)

lemma length_ascii [simp]: "length (ascii s) = length s" by (simp add: ascii_def)

lemma genesis_extra_eq:
  "genesis_extra t = TX_EXTRA_NONCE # of_nat (length kGenesisMessage) # kGenesisMessage @
     (if t then TX_EXTRA_NONCE # of_nat (length GENESIS_TESTNET_MARKER) # ascii GENESIS_TESTNET_MARKER else []) @
     TX_EXTRA_TAG_PQ_MINER_SPEND_PUB # replicate PQ_AUTH_PUB_SIZE 0"
  by (simp add: genesis_extra_def addExtraNonceToTransactionExtra_def addPqMinerSpendPubToExtra_def
      TX_EXTRA_NONCE_MAX_COUNT_def kGenesisMessage_def GENESIS_TESTNET_MARKER_def)

lemma genesis_extra_lengths: "length (genesis_extra t) \<le> 4096" "length (genesis_extra True) \<noteq> length (genesis_extra False)"
  by (simp_all add: genesis_extra_eq kGenesisMessage_def GENESIS_TESTNET_MARKER_def size_defs)

text \<open>
  With 21 well-formed recipient keys the genesis coinbase is built on both networks; it is a
  valid wire transaction, its outputs are exactly one twentieth of the emission target, one
  batch of 5000000 unlocking every 87600 blocks from height 0, and the two networks' transactions
  have different bytes, so their genesis outpoints differ.
\<close>

theorem genesis_reserve:
  assumes n: "length pubs = GENESIS_TREASURY_RESERVE_BATCHES" and k: "\<forall>p \<in> set pubs. length p = PQ_AUTH_PUB_SIZE"
    and h: "\<And>x. length (sha3 x) = HASH_SIZE"
  shows "\<exists>m t. buildGenesisTreasuryReserveCoinbase sha3 (map toHex pubs) False = Inr m \<and>
     buildGenesisTreasuryReserveCoinbase sha3 (map toHex pubs) True = Inr t \<and> tx_ok m \<and> tx_ok t \<and>
     outputs t = outputs m \<and> 20 * sum_list (map (\<lambda>out. unat (amount out)) (outputs m)) = unat EMISSION_CURVE_TARGET \<and>
     map (\<lambda>out. unat (outUnlockHeight out)) (outputs m) = map (\<lambda>i. 87600 * i) [0..<21] \<and>
     fst (put_Transaction m) \<noteq> fst (put_Transaction t)"
proof -
  let ?outs = "map (\<lambda>i. genesis_output sha3 (pubs ! i) i) [0..<21]"
  define tx where "tx b = \<lparr>version = TRANSACTION_VERSION_1, txType = TX_COINBASE, unlockHeight = 0,
    inputs = [InBase \<lparr>blockIndex = 0\<rparr>], outputs = ?outs, extra = genesis_extra b, pqSignatures = []\<rparr>" for b
  have built: "buildGenesisTreasuryReserveCoinbase sha3 (map toHex pubs) b = Inr (tx b)" for b
    using genesis_outputs_eq [OF _ k, of "[0..<21]" sha3] n
    by (simp add: buildGenesisTreasuryReserveCoinbase_def GENESIS_TREASURY_RESERVE_BATCHES_def tx_def del: upt_rec_numeral)
  have ok: "tx_ok (tx b)" for b
    using genesis_extra_lengths(1) [of b] genesis_output_target [OF h]
    by (auto simp: tx_def tx_ok_def prefix_ok_def inputs_ok_def container_ok_def strip_def raw_input_ok_def
        ref_resolved_def pqCount_def MAX_STRING_SIZE_def list_all_iff)
  have "fst (put_Transaction (tx False)) \<noteq> fst (put_Transaction (tx True))"
  proof
    assume "fst (put_Transaction (tx False)) = fst (put_Transaction (tx True))"
    then have "tx False = tx True" using tx_codec.prefix_free [OF ok ok, of False "[]" True "[]"] by simp
    then show False using genesis_extra_lengths(2) by (simp add: tx_def)
  qed
  moreover have "map (\<lambda>out. unat (outUnlockHeight out)) ?outs = map (\<lambda>i. 87600 * i) [0..<21]"
    by (auto simp: GENESIS_TREASURY_RESERVE_UNLOCK_STEP_def unat_word_ariths unat_of_nat)
  moreover have "20 * sum_list (map (\<lambda>out. unat (amount out)) ?outs) = unat EMISSION_CURVE_TARGET"
    by (simp add: comp_def GENESIS_TREASURY_RESERVE_BATCH_ATOMS_def config_simps sum_list_triv)
  ultimately show ?thesis using built ok by (intro exI [of _ "tx False"] exI [of _ "tx True"]) (simp add: tx_def)
qed

lemma genesis_reserve_witness:
  "\<exists>m. buildGenesisTreasuryReserveCoinbase (\<lambda>x. replicate 32 (of_nat (length x)))
     (map toHex (replicate 21 (replicate 1952 1))) False = Inr m \<and> tx_ok m"
  using genesis_reserve [of "replicate 21 (replicate 1952 1)" "\<lambda>x. replicate 32 (of_nat (length x))"]
  by (auto simp: GENESIS_TREASURY_RESERVE_BATCHES_def size_defs)

end
