(* ===== verification/Currency.thy ===== *)
theory Currency
  imports Format_Utils Genesis Pq_Validation
begin

text \<open>
  The monetary and chain rules of src/src/CryptoNoteCore/Currency.cpp and Currency.h: the
  configuration object with its builder, the genesis block, emission and block reward, block
  size limits, the difficulty algorithm, the construction of a coinbase transaction and the
  activation rules.  The getters of the class are the selectors of the record; \<open>size_t\<close> is 64
  bits wide.
\<close>

record Currency =
  m_maxBlockHeight :: u64
  m_maxBlockBlobSize :: u64
  m_maxTxSize :: u64
  m_publicAddressBase58Prefix :: u64
  m_minedMoneyUnlockWindow :: u64
  m_transactionSpendableAge :: u64
  m_expectedNumberOfBlocksPerDay :: u64
  m_timestampCheckWindow :: u64
  m_timestampCheckWindow_v1 :: u64
  m_blockFutureTimeLimit :: u64
  m_blockFutureTimeLimit_v1 :: u64
  m_moneySupply :: u64
  m_emissionSpeedFactor :: nat
  m_cryptonoteCoinVersion :: u64
  m_rewardBlocksWindow :: u64
  m_blockGrantedFullRewardZone :: u64
  m_minerTxBlobReservedSize :: u64
  m_maxTransactionSizeLimit :: u64
  m_numberOfDecimalPlaces :: nat
  m_coin :: u64
  m_minimumFee :: u64
  m_defaultDustThreshold :: u64
  m_difficultyTarget :: u64
  m_difficultyWindow :: u64
  m_difficultyLag :: u64
  m_difficultyCut :: u64
  m_maxBlockSizeInitial :: u64
  m_maxBlockSizeGrowthSpeedNumerator :: u64
  m_maxBlockSizeGrowthSpeedDenominator :: u64
  m_lockedTxAllowedDeltaSeconds :: u64
  m_lockedTxAllowedDeltaBlocks :: u64
  m_mempoolTxLiveTime :: u64
  m_mempoolTxFromAltBlockLiveTime :: u64
  m_numberOfPeriodsToForgetTxDeletedFromPool :: u64
  m_upgradeHeightV2 :: u32
  m_upgradeHeightV3 :: u32
  m_upgradeHeightV4 :: u32
  m_upgradeHeightV5 :: u32
  m_upgradeHeightV6 :: u32
  m_upgradeHeightV7 :: u32
  m_upgradeHeightV8 :: u32
  m_upgradeVotingThreshold :: u32
  m_upgradeVotingWindow :: u32
  m_upgradeWindow :: u32
  m_blocksFileName :: string
  m_blocksCacheFileName :: string
  m_blockIndexesFileName :: string
  m_blockchainIndicesFileName :: string
  m_txPoolFileName :: string
  m_freeRegPerBlock :: u64
  m_freeRegPowTarget :: u64
  m_freeRegPoolLimit :: u64
  m_testnet :: bool
  m_pqDeliveryV2Height :: u32
  m_genesisBlock :: Block
  m_genesisBlockHash :: hash

section \<open>The builder\<close>

definition set_emissionSpeedFactor :: "nat \<Rightarrow> Currency \<Rightarrow> Currency res" where
  "set_emissionSpeedFactor val c =
     (if val \<le> 0 \<or> 8 * 8 < val then Inl ''val at emissionSpeedFactor()''
      else Inr (c\<lparr>m_emissionSpeedFactor := val\<rparr>))"

definition set_numberOfDecimalPlaces :: "nat \<Rightarrow> Currency \<Rightarrow> Currency res" where
  "set_numberOfDecimalPlaces val c =
     Inr (c\<lparr>m_numberOfDecimalPlaces := val, m_coin := fold (\<lambda>_ coin. coin * 10) [0..<val] 1\<rparr>)"

definition set_difficultyWindow :: "u64 \<Rightarrow> Currency \<Rightarrow> Currency res" where
  "set_difficultyWindow val c =
     (if val < 2 then Inl ''val at difficultyWindow()'' else Inr (c\<lparr>m_difficultyWindow := val\<rparr>))"

definition set_upgradeVotingThreshold :: "u32 \<Rightarrow> Currency \<Rightarrow> Currency res" where
  "set_upgradeVotingThreshold val c =
     (if val \<le> 0 \<or> 100 < val then Inl ''val at upgradeVotingThreshold()''
      else Inr (c\<lparr>m_upgradeVotingThreshold := val\<rparr>))"

definition set_upgradeWindow :: "u64 \<Rightarrow> Currency \<Rightarrow> Currency res" where
  "set_upgradeWindow val c =
     (if val \<le> 0 then Inl ''val at upgradeWindow()'' else Inr (c\<lparr>m_upgradeWindow := ucast val\<rparr>))"

fun chain :: "(Currency \<Rightarrow> Currency res) list \<Rightarrow> Currency \<Rightarrow> Currency res" where
  "chain [] c = Inr c"
| "chain (f # fs) c = (case f c of Inl e \<Rightarrow> Inl e | Inr c' \<Rightarrow> chain fs c')"

text \<open>
  The constructor of the builder.  The plain setters are the record expression; the five that can
  throw are then called on it.  Members the constructor does not set (the genesis block) are the
  arguments \<open>gb\<close> and \<open>gh\<close>.
\<close>

definition builder_plain :: "Block \<Rightarrow> hash \<Rightarrow> Currency" where
  "builder_plain gb gh = \<lparr>
     m_maxBlockHeight = CRYPTONOTE_MAX_BLOCK_NUMBER,
     m_maxBlockBlobSize = CRYPTONOTE_MAX_BLOCK_BLOB_SIZE,
     m_maxTxSize = CRYPTONOTE_MAX_TX_SIZE,
     m_publicAddressBase58Prefix = CRYPTONOTE_PUBLIC_ADDRESS_BASE58_PREFIX,
     m_minedMoneyUnlockWindow = CRYPTONOTE_MINED_MONEY_UNLOCK_WINDOW,
     m_transactionSpendableAge = CRYPTONOTE_TX_SPENDABLE_AGE,
     m_expectedNumberOfBlocksPerDay = EXPECTED_NUMBER_OF_BLOCKS_PER_DAY,
     m_timestampCheckWindow = BLOCKCHAIN_TIMESTAMP_CHECK_WINDOW,
     m_timestampCheckWindow_v1 = BLOCKCHAIN_TIMESTAMP_CHECK_WINDOW_V1,
     m_blockFutureTimeLimit = CRYPTONOTE_BLOCK_FUTURE_TIME_LIMIT,
     m_blockFutureTimeLimit_v1 = CRYPTONOTE_BLOCK_FUTURE_TIME_LIMIT_V1,
     m_moneySupply = EMISSION_CURVE_TARGET,
     m_emissionSpeedFactor = 0,
     m_cryptonoteCoinVersion = CRYPTONOTE_COIN_VERSION,
     m_rewardBlocksWindow = CRYPTONOTE_REWARD_BLOCKS_WINDOW,
     m_blockGrantedFullRewardZone = CRYPTONOTE_BLOCK_GRANTED_FULL_REWARD_ZONE,
     m_minerTxBlobReservedSize = CRYPTONOTE_COINBASE_BLOB_RESERVED_SIZE,
     m_maxTransactionSizeLimit = MAX_TRANSACTION_SIZE_LIMIT,
     m_numberOfDecimalPlaces = 0,
     m_coin = 0,
     m_minimumFee = MINIMUM_FEE,
     m_defaultDustThreshold = DEFAULT_DUST_THRESHOLD,
     m_difficultyTarget = DIFFICULTY_TARGET,
     m_difficultyWindow = 0,
     m_difficultyLag = DIFFICULTY_LAG,
     m_difficultyCut = DIFFICULTY_CUT,
     m_maxBlockSizeInitial = MAX_BLOCK_SIZE_INITIAL,
     m_maxBlockSizeGrowthSpeedNumerator = MAX_BLOCK_SIZE_GROWTH_SPEED_NUMERATOR,
     m_maxBlockSizeGrowthSpeedDenominator = MAX_BLOCK_SIZE_GROWTH_SPEED_DENOMINATOR,
     m_lockedTxAllowedDeltaSeconds = CRYPTONOTE_LOCKED_TX_ALLOWED_DELTA_SECONDS,
     m_lockedTxAllowedDeltaBlocks = CRYPTONOTE_LOCKED_TX_ALLOWED_DELTA_BLOCKS,
     m_mempoolTxLiveTime = CRYPTONOTE_MEMPOOL_TX_LIVETIME,
     m_mempoolTxFromAltBlockLiveTime = CRYPTONOTE_MEMPOOL_TX_FROM_ALT_BLOCK_LIVETIME,
     m_numberOfPeriodsToForgetTxDeletedFromPool = CRYPTONOTE_NUMBER_OF_PERIODS_TO_FORGET_TX_DELETED_FROM_POOL,
     m_upgradeHeightV2 = UPGRADE_HEIGHT_V2,
     m_upgradeHeightV3 = UPGRADE_HEIGHT_V3,
     m_upgradeHeightV4 = UPGRADE_HEIGHT_V4,
     m_upgradeHeightV5 = UPGRADE_HEIGHT_V5,
     m_upgradeHeightV6 = UPGRADE_HEIGHT_V6,
     m_upgradeHeightV7 = UPGRADE_HEIGHT_V7,
     m_upgradeHeightV8 = UPGRADE_HEIGHT_V8,
     m_upgradeVotingThreshold = 0,
     m_upgradeVotingWindow = UPGRADE_VOTING_WINDOW,
     m_upgradeWindow = 0,
     m_blocksFileName = CRYPTONOTE_BLOCKS_FILENAME,
     m_blocksCacheFileName = CRYPTONOTE_BLOCKSCACHE_FILENAME,
     m_blockIndexesFileName = CRYPTONOTE_BLOCKINDEXES_FILENAME,
     m_blockchainIndicesFileName = CRYPTONOTE_BLOCKCHAIN_INDICES_FILENAME,
     m_txPoolFileName = CRYPTONOTE_POOLDATA_FILENAME,
     m_freeRegPerBlock = FREE_REG_PER_BLOCK,
     m_freeRegPowTarget = FREE_REG_POW_TARGET,
     m_freeRegPoolLimit = FREE_REG_POOL_LIMIT,
     m_testnet = False,
     m_pqDeliveryV2Height = PQ_DELIVERY_V2_HEIGHT,
     m_genesisBlock = gb,
     m_genesisBlockHash = gh\<rparr>"

definition CurrencyBuilder :: "Block \<Rightarrow> hash \<Rightarrow> Currency res" where
  "CurrencyBuilder gb gh =
     chain [set_emissionSpeedFactor EMISSION_SPEED_FACTOR,
            set_numberOfDecimalPlaces CRYPTONOTE_DISPLAY_DECIMAL_POINT,
            set_difficultyWindow DIFFICULTY_WINDOW,
            set_upgradeVotingThreshold UPGRADE_VOTING_THRESHOLD,
            set_upgradeWindow (ucast UPGRADE_WINDOW)] (builder_plain gb gh)"

section \<open>Genesis block\<close>

text \<open>
  \<open>sha3\<close>, the recipient keys and the frozen hexadecimal text of the mainnet coinbase are
  arguments; \<open>pb\<close> is the value-initialized parent block.
\<close>

definition genesis_base_tx :: "(bytes \<Rightarrow> hash) \<Rightarrow> string list \<Rightarrow> string \<Rightarrow> bool \<Rightarrow> Transaction res" where
  "genesis_base_tx sha3 keys frozenHex testnet =
     (let genesisCoinbaseTxHex = (if testnet then [] else frozenHex) in
      case fromHex_vector genesisCoinbaseTxHex of
        None \<Rightarrow> buildGenesisTreasuryReserveCoinbase sha3 keys testnet
      | Some minerTxBlob \<Rightarrow>
          (case fromBinaryArray get_Transaction minerTxBlob of
             None \<Rightarrow> buildGenesisTreasuryReserveCoinbase sha3 keys testnet
           | Some tx \<Rightarrow> Inr tx))"

definition generateGenesisBlock :: "(bytes \<Rightarrow> hash) \<Rightarrow> string list \<Rightarrow> string \<Rightarrow> Currency \<Rightarrow> Currency option" where
  "generateGenesisBlock sha3 keys frozenHex c =
     (case genesis_base_tx sha3 keys frozenHex (m_testnet c) of
        Inl _ \<Rightarrow> None
      | Inr tx \<Rightarrow> Some (c\<lparr>m_genesisBlock :=
          \<lparr>majorVersion = BLOCK_MAJOR_VERSION_1, minorVersion = 0,
           nonce = (if m_testnet c then 70 + 1 else 70), timestamp = GENESIS_BLOCK_TIMESTAMP,
           previousBlockHash = NULL_HASH, baseTransaction = tx,
           signature = replicate PQ_SIGNATURE_SIZE 0, transactionHashes = []\<rparr>\<rparr>))"

definition Currency_init ::
  "'k pow_crypto \<Rightarrow> ParentBlock \<Rightarrow> string list \<Rightarrow> string \<Rightarrow> Currency \<Rightarrow> Currency option" where
  "Currency_init P pb keys frozenHex c =
     (case generateGenesisBlock (pw_sha3_256 P) keys frozenHex c of
        None \<Rightarrow> None
      | Some c1 \<Rightarrow>
          (case get_block_hash P pb (m_genesisBlock c1) of
             None \<Rightarrow> None
           | Some h \<Rightarrow>
               let c2 = c1\<lparr>m_genesisBlockHash := h\<rparr> in
               Some (if \<not> m_testnet c2 then c2
                 else c2\<lparr>m_blocksFileName := ''testnet_'' @ m_blocksFileName c2,
                         m_blocksCacheFileName := ''testnet_'' @ m_blocksCacheFileName c2,
                         m_blockIndexesFileName := ''testnet_'' @ m_blockIndexesFileName c2,
                         m_blockchainIndicesFileName := ''testnet_'' @ m_blockchainIndicesFileName c2,
                         m_txPoolFileName := ''testnet_'' @ m_txPoolFileName c2,
                         m_pqDeliveryV2Height :=
                           (if m_pqDeliveryV2Height c2 = PQ_DELIVERY_V2_HEIGHT
                            then PQ_DELIVERY_V2_HEIGHT_TESTNET else m_pqDeliveryV2Height c2)\<rparr>)))"

section \<open>Version and height rules\<close>

definition blockGrantedFullRewardZoneByBlockVersion :: "Currency \<Rightarrow> byte \<Rightarrow> u64" where
  "blockGrantedFullRewardZoneByBlockVersion c v = m_blockGrantedFullRewardZone c"

definition upgradeHeight :: "Currency \<Rightarrow> byte \<Rightarrow> u32" where
  "upgradeHeight c v =
     (if v = 8 then m_upgradeHeightV8 c
      else if v = 7 then m_upgradeHeightV7 c
      else if v = 6 then m_upgradeHeightV6 c
      else if v = 5 then m_upgradeHeightV5 c
      else if v = 4 then m_upgradeHeightV4 c
      else if v = 2 then m_upgradeHeightV2 c
      else if v = 3 then m_upgradeHeightV3 c
      else - 1)"

definition minNumberVotingBlocks :: "Currency \<Rightarrow> u32" where
  "minNumberVotingBlocks c = (m_upgradeVotingWindow c * m_upgradeVotingThreshold c + 99) div 100"

definition maxUpgradeDistance :: "Currency \<Rightarrow> u32" where
  "maxUpgradeDistance c = 7 * m_upgradeWindow c"

definition calculateUpgradeHeight :: "Currency \<Rightarrow> u32 \<Rightarrow> u32" where
  "calculateUpgradeHeight c voteCompleteHeight = voteCompleteHeight + m_upgradeWindow c"

definition isPqTransferTypeAllowedAt :: "Currency \<Rightarrow> byte \<Rightarrow> u32 \<Rightarrow> bool" where
  "isPqTransferTypeAllowedAt c ty height =
     (if ty = TX_PQ then height < m_pqDeliveryV2Height c
      else if ty = TX_PQ_V2 then m_pqDeliveryV2Height c \<le> height
      else False)"

definition getMinimalFee :: "Currency \<Rightarrow> u32 \<Rightarrow> u64" where
  "getMinimalFee c height = MINIMUM_FEE"

definition getFeePerByte :: "Currency \<Rightarrow> u64 \<Rightarrow> u64 \<Rightarrow> u64" where
  "getFeePerByte c txExtraSize minFee = pqTxExtraSurcharge minFee txExtraSize"

section \<open>Emission and reward\<close>

definition calculateReward :: "Currency \<Rightarrow> u64 \<Rightarrow> u64" where
  "calculateReward c alreadyGeneratedCoins =
     (let baseRewardInitial =
            (if alreadyGeneratedCoins < m_moneySupply c
             then drop_bit (m_emissionSpeedFactor c) (m_moneySupply c - alreadyGeneratedCoins)
             else TAIL_EMISSION_REWARD);
          blocksInOneYear = m_expectedNumberOfBlocksPerDay c * 365;
          twoPercentOfEmission = alreadyGeneratedCoins div 100 * 2;
          baseRewardTail = twoPercentOfEmission div blocksInOneYear
      in max baseRewardInitial baseRewardTail)"

text \<open>The reward and the emission change; the latter is a signed 64-bit value.\<close>

definition getBlockReward :: "Currency \<Rightarrow> byte \<Rightarrow> u64 \<Rightarrow> u64 \<Rightarrow> u64 \<Rightarrow> u64 \<Rightarrow> (u64 \<times> 64 word) option" where
  "getBlockReward c blockMajorVersion medianSize currentBlockSize alreadyGeneratedCoins fee =
     (let baseReward = calculateReward c alreadyGeneratedCoins;
          medianSize = max medianSize (blockGrantedFullRewardZoneByBlockVersion c blockMajorVersion)
      in if 2 * medianSize < currentBlockSize then None
         else let penalizedBaseReward = getPenalizedAmount baseReward medianSize currentBlockSize;
                  penalizedFee = (if BLOCK_MAJOR_VERSION_2 \<le> blockMajorVersion
                                  then getPenalizedAmount fee medianSize currentBlockSize else fee);
                  penalizedFee = (if m_cryptonoteCoinVersion c = 1
                                  then getPenalizedAmount fee medianSize currentBlockSize else penalizedFee)
              in Some (penalizedBaseReward + penalizedFee, penalizedBaseReward - (fee - penalizedFee)))"

definition maxBlockCumulativeSize :: "Currency \<Rightarrow> u64 \<Rightarrow> u64" where
  "maxBlockCumulativeSize c height =
     m_maxBlockSizeInitial c + height * m_maxBlockSizeGrowthSpeedNumerator c div m_maxBlockSizeGrowthSpeedDenominator c"

definition constructMinerTxPq ::
  "(bytes \<Rightarrow> hash) \<Rightarrow> Currency \<Rightarrow> byte \<Rightarrow> u32 \<Rightarrow> u64 \<Rightarrow> u64 \<Rightarrow> u64 \<Rightarrow> u64 \<Rightarrow> bytes \<Rightarrow> bytes \<Rightarrow> Transaction option" where
  "constructMinerTxPq sha3 c blockMajorVersion height medianSize alreadyGeneratedCoins currentBlockSize fee
      minerSpendPub extraNonce =
     (let unlock = ucast height + m_minedMoneyUnlockWindow c in
      case getBlockReward c blockMajorVersion medianSize currentBlockSize alreadyGeneratedCoins fee of
        None \<Rightarrow> None
      | Some (blockReward, _) \<Rightarrow>
          let cbRho = coinbaseRho sha3 minerSpendPub height 0;
              sc = spendCommitHash sha3 minerSpendPub cbRho;
              out = \<lparr>amount = blockReward, outUnlockHeight = unlock, target = OutCoinbase \<lparr>cbSpendCommit = sc\<rparr>\<rparr>;
              ex1 = snd (addPqMinerSpendPubToExtra [] minerSpendPub);
              ex2 = (if extraNonce \<noteq> [] then snd (addExtraNonceToTransactionExtra ex1 extraNonce) else ex1)
          in Some \<lparr>version = TRANSACTION_VERSION_1, txType = TX_COINBASE, unlockHeight = unlock,
               inputs = [InBase \<lparr>blockIndex = height\<rparr>], outputs = [out], extra = ex2, pqSignatures = []\<rparr>)"

definition is_coinbase :: "'a TransactionPrefix_scheme \<Rightarrow> bool" where
  "is_coinbase tx = (case inputs tx of [InBase _] \<Rightarrow> True | _ \<Rightarrow> False)"

section \<open>Difficulty\<close>

definition difficultyBlocksCount4 :: u64 where "difficultyBlocksCount4 = DIFFICULTY_WINDOW"

definition difficultyBlocksCountByBlockVersion :: "Currency \<Rightarrow> byte \<Rightarrow> u64" where
  "difficultyBlocksCountByBlockVersion c v = difficultyBlocksCount4 + 1"

text \<open>The weighted solve times, over the timestamps 1 to N; \<open>i\<close> is the loop counter.\<close>

fun lwma_loop :: "u64 \<Rightarrow> u64 \<Rightarrow> u64 \<Rightarrow> u64 \<Rightarrow> u64 list \<Rightarrow> u64" where
  "lwma_loop T i previous_timestamp L [] = L"
| "lwma_loop T i previous_timestamp L (t # ts) =
     (let this_timestamp = (if previous_timestamp < t then t else previous_timestamp + 1)
      in lwma_loop T (i + 1) this_timestamp
           (L + i * min (6 * T) (this_timestamp - previous_timestamp)) ts)"

text \<open>Zeroing the insignificant digits.\<close>

function round_loop :: "u64 \<Rightarrow> u64 \<Rightarrow> u64" where
  "round_loop i next_D =
     (if 1 < i then
        if i * 100 < next_D then (next_D + i div 2) div i * i
        else round_loop (i div 10) next_D
      else next_D)"
  by pat_completeness auto
termination
proof (relation "measure (\<lambda>(i, _). unat i)")
  fix i next_D :: u64
  assume "1 < i"
  then have "0 < unat i" by (simp add: word_less_nat_alt)
  then show "((i div 10, next_D), (i, next_D)) \<in> measure (\<lambda>(i, _). unat i)" by (simp add: unat_div)
qed simp

declare round_loop.simps [simp del]

definition nextDifficulty :: "Currency \<Rightarrow> u64 list \<Rightarrow> u64 list \<Rightarrow> u64" where
  "nextDifficulty c timestamps cumulativeDifficulties =
     (let floorDiff = (if m_testnet c then 1 else max 1 MINIMUM_DIFFICULTY) in
      if length timestamps \<le> 1 \<or> length cumulativeDifficulties \<le> 1 then floorDiff
      else
        let T = m_difficultyTarget c;
            available = min (of_nat (length timestamps)) (of_nat (length cumulativeDifficulties));
            N = min difficultyBlocksCount4 (available - 1)
        in if N = 0 then floorDiff
           else
             let L0 = lwma_loop T 1 (timestamps ! 0 - T) 0 (take (unat N) (tl timestamps));
                 L = (if L0 < N * N * T div 20 then N * N * T div 20 else L0)
             in if L = 0 then floorDiff
                else
                  let avg_D = (cumulativeDifficulties ! unat N - cumulativeDifficulties ! 0) div N
                  in if avg_D = 0 then floorDiff
                     else
                       let next_D = (if 2000000 * N * N * T < avg_D
                                     then avg_D div (200 * L) * (N * (N + 1) * T * 99)
                                     else avg_D * N * (N + 1) * T * 99 div (200 * L))
                       in max floorDiff (round_loop 1000000000 next_D))"

section \<open>Emission\<close>

definition default_currency :: "Block \<Rightarrow> hash \<Rightarrow> Currency" where
  "default_currency gb gh = (builder_plain gb gh)\<lparr>m_emissionSpeedFactor := 18, m_numberOfDecimalPlaces := 2,
     m_coin := 100, m_difficultyWindow := 60, m_upgradeVotingThreshold := 90, m_upgradeWindow := 960\<rparr>"

lemma builder_ok: "CurrencyBuilder gb gh = Inr (default_currency gb gh)"
  by (simp add: CurrencyBuilder_def default_currency_def set_emissionSpeedFactor_def
      set_numberOfDecimalPlaces_def set_difficultyWindow_def set_upgradeVotingThreshold_def
      set_upgradeWindow_def config_simps CRYPTONOTE_DISPLAY_DECIMAL_POINT_def upt_rec [of 0 2] upt_rec [of "Suc 0" 2])

lemma default_currency_simps [simp]:
  "m_moneySupply (default_currency gb gh) = 2100000000"
  "m_emissionSpeedFactor (default_currency gb gh) = 18"
  "m_expectedNumberOfBlocksPerDay (default_currency gb gh) = 960"
  "m_cryptonoteCoinVersion (default_currency gb gh) = 1"
  "m_blockGrantedFullRewardZone (default_currency gb gh) = 1000000"
  "m_difficultyTarget (default_currency gb gh) = 90"
  "m_testnet (default_currency gb gh) = False"
  "m_minedMoneyUnlockWindow (default_currency gb gh) = 10"
  by (simp_all add: default_currency_def builder_plain_def config_simps)

lemma calculateReward_default:
  "unat (calculateReward (default_currency gb gh) a)
     = max (if unat a < 2100000000 then (2100000000 - unat a) div 2 ^ 18 else 100) (unat a div 100 * 2 div 350400)"
proof -
  have "unat (a div 100 * 2) = unat a div 100 * 2"
  proof -
    have "unat (a div 100) * unat (2 :: u64) < 2 ^ LENGTH(64)"
      using unsigned_less [of a, where ?'a = nat] by (simp add: unat_div)
    from unat_mult_exact [OF this] show ?thesis by (simp add: unat_div)
  qed
  then have tail: "unat (a div 100 * 2 div 350400) = unat a div 100 * 2 div 350400" by (simp add: unat_div)
  have init: "unat (drop_bit 18 (2100000000 - a)) = (2100000000 - unat a) div 2 ^ 18" if "unat a < 2100000000"
    using that by (simp add: unat_drop_bit_div unat_sub word_le_nat_alt)
  have lt: "a < 2100000000 \<longleftrightarrow> unat a < 2100000000" by (simp add: word_less_nat_alt)
  have mx: "unat (max x y) = max (unat x) (unat y)" for x y :: u64
    by (simp add: max_def word_le_nat_alt)
  show ?thesis
    unfolding calculateReward_def Let_def mx default_currency_simps lt
    using init tail by (simp add: TAIL_EMISSION_REWARD_def)
qed



section \<open>Block reward\<close>

lemma penalized_le:
  assumes "unat c \<le> 2 * unat m" and "unat m < 2 ^ 32"
  shows "unat (getPenalizedAmount a m c) \<le> unat a"
proof (cases "a = 0 \<or> c \<le> m")
  case True
  then show ?thesis by (auto simp: getPenalizedAmount_def)
next
  case False
  then show ?thesis using penalized_big [of m c a] assms by (simp add: not_le)
qed

lemma penalized_small: "c \<le> m \<Longrightarrow> getPenalizedAmount a m c = a"
  by (simp add: getPenalizedAmount_def)

lemma signed_difference:
  fixes r f :: u64
  assumes "unat r < 2 ^ 63" and "unat f < 2 ^ 63"
  shows "sint (r - f) = int (unat r) - int (unat f)"
proof -
  have "r - f = word_of_int (int (unat r) - int (unat f))" by simp
  then have "sint (r - f) = signed_take_bit 63 (int (unat r) - int (unat f))"
    by (simp only: sint_sbintrunc') simp
  also have "\<dots> = int (unat r) - int (unat f)" using assms
    by (intro signed_take_bit_int_eq_self; simp del: of_nat_unat)
  finally show ?thesis .
qed

text \<open>
  C37. The block reward is exact: with the shipped parameters a block is refused exactly when it
  is larger than twice the effective median, otherwise the reward is the penalized base reward
  plus the penalized fees, never more than base reward and fees and exactly that within the
  median, and the emission change is the reward minus the fees as a signed number.
\<close>

theorem block_reward_exact:
  fixes c :: Currency and m s a fee :: u64
  assumes c: "CurrencyBuilder gb gh = Inr c"
    and m: "unat m < 2 ^ 32" and s: "unat s < 2 ^ 32"
    and fits: "unat (calculateReward c a) + unat fee < 2 ^ 63"
  defines "M \<equiv> max m 1000000"
  shows "case getBlockReward c v m s a fee of
           None \<Rightarrow> 2 * unat M < unat s
         | Some (r, e) \<Rightarrow> unat s \<le> 2 * unat M \<and>
             unat r = unat (getPenalizedAmount (calculateReward c a) M s) + unat (getPenalizedAmount fee M s) \<and>
             unat r \<le> unat (calculateReward c a) + unat fee \<and>
             (s \<le> M \<longrightarrow> unat r = unat (calculateReward c a) + unat fee) \<and>
             sint e = int (unat r) - int (unat fee)"
proof -
  have cd: "c = default_currency gb gh" using c by (simp add: builder_ok)
  let ?b = "calculateReward c a"
  have M: "unat M < 2 ^ 32" using m unfolding M_def max_def by (simp split: if_split)
  have two: "unat (2 * M) = 2 * unat M" using M by (subst unat_mult_exact) simp_all
  show ?thesis
  proof (cases "2 * M < s")
    case True
    then show ?thesis
      using two by (simp add: getBlockReward_def blockGrantedFullRewardZoneByBlockVersion_def cd M_def word_less_nat_alt)
  next
    case False
    then have le: "unat s \<le> 2 * unat M" using two by (simp add: not_less word_le_nat_alt)
    let ?p = "getPenalizedAmount ?b M s" and ?f = "getPenalizedAmount fee M s"
    have pb: "unat ?p \<le> unat ?b" "unat ?f \<le> unat fee" using penalized_le [OF le M] by simp_all
    have sum: "unat (?p + ?f) = unat ?p + unat ?f" using pb fits by (intro unat_add_exact) simp
    have res: "getBlockReward c v m s a fee = Some (?p + ?f, ?p + ?f - fee)"
      using False by (simp add: getBlockReward_def blockGrantedFullRewardZoneByBlockVersion_def cd M_def Let_def)
    have "sint (?p + ?f - fee) = int (unat (?p + ?f)) - int (unat fee)"
      using pb fits sum by (intro signed_difference) simp_all
    moreover have "unat (?b + fee) = unat ?b + unat fee" using fits by (intro unat_add_exact) simp
    ultimately show ?thesis
      unfolding res using le pb sum by (simp add: penalized_small del: of_nat_unat)
  qed
qed

lemma block_reward_exact_witness:
  "\<exists>c. CurrencyBuilder (sample_block 0) NULL_HASH = Inr c \<and>
     (case getBlockReward c 1 0 1500000 2100000000 40 of
        None \<Rightarrow> False | Some (r, e) \<Rightarrow> unat r = 89 + 30 \<and> sint e = 79)"
proof -
  let ?c = "default_currency (sample_block 0) NULL_HASH"
  have r: "calculateReward ?c 2100000000 = 119"
    using calculateReward_default [of "sample_block 0" NULL_HASH 2100000000] by (simp add: word_unat_eq_iff)
  have p: "unat (getPenalizedAmount 119 1000000 1500000) = 89" "unat (getPenalizedAmount 40 1000000 1500000) = 30"
    using penalized_big [of 1000000 1500000 119] penalized_big [of 1000000 1500000 40] by simp_all
  show ?thesis
    using block_reward_exact [OF builder_ok, of 0 1500000 "sample_block 0" NULL_HASH 2100000000 40 1] p
    by (intro exI [of _ ?c]) (auto simp: builder_ok r max_def simp del: of_nat_unat split: option.splits)
qed

section \<open>Difficulty bounds\<close>

text \<open>Rounding moves a difficulty by at most half a per cent.\<close>

lemma round_loop_bounds:
  "unat i \<le> 1000000000 \<Longrightarrow> unat x + 1000000000 < 2 ^ 64 \<Longrightarrow>
   200 * unat (round_loop i x) \<le> 201 * unat x \<and> 199 * unat x \<le> 200 * unat (round_loop i x)"
proof (induction i x rule: round_loop.induct)
  case (1 i x)
  show ?case
  proof (cases "1 < i \<and> i * 100 < x")
    case True
    let ?i = "unat i" and ?x = "unat x"
    have i: "1 < ?i" using True by (simp add: word_less_nat_alt)
    have big: "100 * ?i < ?x"
      using True 1(2) unat_mult_exact [of i 100] by (simp add: word_less_nat_alt)
    have add: "unat (x + i div 2) = ?x + ?i div 2"
      using 1(2,3) by (subst unat_add_exact) (simp_all add: unat_div)
    have q: "unat ((x + i div 2) div i) = (?x + ?i div 2) div ?i" by (simp add: unat_div add)
    have le: "(?x + ?i div 2) div ?i * ?i \<le> ?x + ?i div 2" by simp
    have "(?x + ?i div 2) div ?i * ?i < 2 ^ 64" using le 1(2,3) by linarith
    then have r: "unat ((x + i div 2) div i * i) = (?x + ?i div 2) div ?i * ?i"
      by (subst unat_mult_exact) (simp_all add: q)
    have lo: "?x + ?i div 2 < (?x + ?i div 2) div ?i * ?i + ?i"
      using i mod_less_divisor [of ?i "?x + ?i div 2"] div_mult_mod_eq [of "?x + ?i div 2" ?i] by linarith
    have "round_loop i x = (x + i div 2) div i * i" using True by (simp add: round_loop.simps)
    with r have "unat (round_loop i x) = (?x + ?i div 2) div ?i * ?i" by (simp only:)
    then show ?thesis using le lo big by (intro conjI; linarith)
  next
    case False
    have "unat (i div 10) \<le> 1000000000" using 1(2) by (simp add: unat_div)
    with False 1 show ?thesis by (subst (1 2) round_loop.simps) (auto simp: not_less)
  qed
qed

text \<open>A solve time counts for at most six targets, so the weighted sum is bounded.\<close>

lemma lwma_loop_upper:
  "unat i + length ts < 2 ^ 32 \<Longrightarrow>
   unat L + 540 * sum_list [unat i..<unat i + length ts] < 2 ^ 64 \<Longrightarrow>
   unat (lwma_loop 90 i p L ts) \<le> unat L + 540 * sum_list [unat i..<unat i + length ts]"
proof (induction ts arbitrary: i p L)
  case (Cons t ts)
  define q where "q = (if p < t then t else p + 1)"
  define d where "d = min 540 (q - p)"
  have d: "unat d \<le> 540" by (simp add: d_def min_def word_le_nat_alt)
  have suc: "unat (i + 1) = unat i + 1" using Cons.prems(1) by (subst unat_add_exact) simp_all
  have rng: "[unat i..<unat i + length (t # ts)] = unat i # [Suc (unat i)..<unat i + length (t # ts)]"
    by (rule upt_conv_Cons) simp
  define e where "e = unat i * unat d"
  define S where "S = sum_list [Suc (unat i)..<unat i + length (t # ts)]"
  have le: "e \<le> 540 * unat i" using mult_le_mono2 [OF d, of "unat i"] by (simp add: e_def mult.commute)
  have fits: "unat L + 540 * (unat i + S) < 2 ^ 64" using Cons.prems(2) unfolding rng by (simp add: S_def)
  have mul: "unat (i * d) = e" using le Cons.prems(1) by (subst unat_mult_exact) (simp_all add: e_def [symmetric])
  have add: "unat (L + i * d) = unat L + e" using le fits by (subst unat_add_exact) (simp_all add: mul)
  have "unat (lwma_loop 90 (i + 1) q (L + i * d) ts) \<le> unat L + e + 540 * S"
    using Cons.IH [of "i + 1" "L + i * d" q] Cons.prems(1) fits le by (simp add: suc add S_def)
  with le have "unat (lwma_loop 90 (i + 1) q (L + i * d) ts) \<le> unat L + 540 * (unat i + S)" by simp
  then show ?case unfolding rng by (simp add: S_def q_def d_def Let_def)
qed simp

lemma lwma_60: "length ts = 60 \<Longrightarrow> unat (lwma_loop 90 1 p 0 ts) \<le> 988200"
proof -
  have "sum_list [1..<61] = (1830 :: nat)" by code_simp
  then show "length ts = 60 \<Longrightarrow> unat (lwma_loop 90 1 p 0 ts) \<le> 988200"
    using lwma_loop_upper [of 1 ts 0 p] by simp
qed

lemma quotient_bounds:
  fixes D x y :: nat
  assumes "lo \<le> D" and "D \<le> hi" and "0 < lo"
  shows "lo * (y div D) \<le> y" and "y < hi * (y div D + 1)"
proof -
  have "lo * (y div D) \<le> D * (y div D)" using assms(1) by (rule mult_le_mono1)
  then show "lo * (y div D) \<le> y" by (rule order_trans) simp
  have "y < D * (y div D + 1)"
    using assms dividend_less_times_div [of D y] by simp
  also have "\<dots> \<le> hi * (y div D + 1)" using assms(2) by (rule mult_le_mono1)
  finally show "y < hi * (y div D + 1)" .
qed

lemma lwma_next_bounds:
  fixes a L :: u64
  assumes L: "16200 \<le> unat L" "unat L \<le> 988200"
    and a: "unat a \<le> 565000000000 \<or> 648000000000 < unat a \<and> unat a \<le> 1800000000000000000"
  defines "x \<equiv> if 648000000000 < a then a div (200 * L) * 32610600 else a * 32610600 div (200 * L)"
  shows "unat a div 7 \<le> unat (round_loop 1000000000 x) \<and> unat (round_loop 1000000000 x) \<le> 11 * unat a"
proof -
  let ?r = "unat (round_loop 1000000000 x)"
  have D: "unat (200 * L) = 200 * unat L" using L by (subst unat_mult_exact) simp_all
  have DL: "3240000 \<le> 200 * unat L" "200 * unat L \<le> 197640000" using L by simp_all
  have "unat x + 1000000000 < 2 ^ 64 \<and> 3240000 * unat x \<le> 32610600 * unat a \<and>
        (199 * unat x \<le> 200 * ?r \<longrightarrow> unat a div 7 \<le> ?r)"
  proof (cases "648000000000 < a")
    case True
    define y where "y = unat a div (200 * unat L)"
    note q = quotient_bounds [OF DL, of "unat a", folded y_def, simplified]
    have big: "648000000000 < unat a" "unat a \<le> 1800000000000000000"
      using a True by (simp_all add: word_less_nat_alt)
    have "unat (a div (200 * L)) = y" by (simp add: unat_div D y_def)
    then have "unat x = y * 32610600"
      using True big q(1) by (simp add: x_def, subst unat_mult_exact) simp_all
    then show ?thesis using q big by simp linarith
  next
    case False
    then have small: "unat a \<le> 565000000000" using a by (simp add: word_less_nat_alt)
    then have "unat (a * 32610600) = unat a * 32610600" by (subst unat_mult_exact) simp_all
    then have x: "unat x = unat a * 32610600 div (200 * unat L)" using False by (simp add: x_def unat_div D)
    note q = quotient_bounds [OF DL, of "unat a * 32610600", folded x, simplified]
    then show ?thesis using small by simp linarith
  qed
  then show ?thesis using round_loop_bounds [of 1000000000 x] by simp
qed

lemma nextDifficulty_full:
  assumes ts: "61 \<le> length ts" "length ts < 2 ^ 64" and cds: "61 \<le> length cds" "length cds < 2 ^ 64"
  defines "L0 \<equiv> lwma_loop 90 1 (ts ! 0 - 90) 0 (take 60 (tl ts))" and "a \<equiv> (cds ! 60 - cds ! 0) div 60"
  defines "L \<equiv> if L0 < 16200 then 16200 else L0"
  shows "nextDifficulty (default_currency gb gh) ts cds =
     (if a = 0 then 100000
      else max 100000 (round_loop 1000000000
             (if 648000000000 < a then a div (200 * L) * 32610600 else a * 32610600 div (200 * L))))"
proof -
  have len: "unat (of_nat (length ts) :: u64) = length ts" "unat (of_nat (length cds) :: u64) = length cds"
    using ts(2) cds(2) by (simp_all add: unat_of_nat_u64)
  have ge: "60 \<le> min (of_nat (length ts)) (of_nat (length cds)) - (1 :: u64)"
    using ts cds len by (auto simp: min_def word_le_nat_alt unat_sub)
  then have N: "min 60 (min (of_nat (length ts)) (of_nat (length cds)) - 1) = (60 :: u64)" by (simp add: min_def)
  have one: "\<not> length ts \<le> 1" "\<not> length cds \<le> 1" using ts cds by simp_all
  have floor: "max 1 MINIMUM_DIFFICULTY = 100000" by (simp add: MINIMUM_DIFFICULTY_def max_def)
  show ?thesis
    using one
    unfolding nextDifficulty_def Let_def difficultyBlocksCount4_def DIFFICULTY_WINDOW_def N default_currency_simps
      floor L_def L0_def a_def
    by (auto simp: mult.commute)
qed


text \<open>A window of 61 blocks found exactly on schedule, each of difficulty \<open>d\<close>.\<close>

definition steady_times :: "u64 list" where
  "steady_times = map (\<lambda>i. 1000000 + 90 * of_nat i) [0..<61]"

definition steady_difficulties :: "u64 \<Rightarrow> u64 list" where
  "steady_difficulties d = map (\<lambda>i. d * of_nat i) [0..<61]"

lemma steady_L: "lwma_loop 90 1 (steady_times ! 0 - 90) 0 (take 60 (tl steady_times)) = 164790"
  by code_simp

lemma steady_next:
  "nextDifficulty (default_currency gb gh) steady_times (steady_difficulties d) =
     (let a = d * 60 div 60 in if a = 0 then 100000
      else max 100000 (round_loop 1000000000
             (if 648000000000 < a then a div 32958000 * 32610600 else a * 32610600 div 32958000)))"
proof -
  have w: "61 \<le> length steady_times" "length steady_times < 2 ^ 64"
      "61 \<le> length (steady_difficulties d)" "length (steady_difficulties d) < 2 ^ 64"
    by (simp_all add: steady_times_def steady_difficulties_def)
  have cd: "steady_difficulties d ! 60 = d * 60" "steady_difficulties d ! 0 = 0"
    by (simp_all add: steady_difficulties_def)
  show ?thesis unfolding nextDifficulty_full [OF w] steady_L cd by (simp add: Let_def)
qed



end
