(* ===== verification/Kv_Table.thy ===== *)
theory Kv_Table
  imports Prelude "HOL-Library.List_Lexorder" "HOL-Library.Product_Lexorder"
begin

text \<open>
  Tables of the key-value store under src/src/CryptoNoteCore/LMDBBlockchainDB.cpp.  The store
  keeps the records of a table in key order (byte strings compare lexicographically) with unique
  keys; a table is therefore the list of its records in that order.  The interface the database
  relies on is the locale \<open>kv_store\<close>; the undo laws of a write are proved once inside it.
\<close>

type_synonym ('k, 'v) table = "('k \<times> 'v) list"

fun mdb_put :: "'k::linorder \<Rightarrow> 'v \<Rightarrow> ('k, 'v) table \<Rightarrow> ('k, 'v) table" where
  "mdb_put k v [] = [(k, v)]"
| "mdb_put k v ((a, b) # t) =
     (if k < a then (k, v) # (a, b) # t else if k = a then (k, v) # t else (a, b) # mdb_put k v t)"

fun mdb_get :: "'k::linorder \<Rightarrow> ('k, 'v) table \<Rightarrow> 'v option" where
  "mdb_get k [] = None"
| "mdb_get k ((a, b) # t) = (if k = a then Some b else mdb_get k t)"

fun mdb_del :: "'k::linorder \<Rightarrow> ('k, 'v) table \<Rightarrow> ('k, 'v) table" where
  "mdb_del k [] = []"
| "mdb_del k ((a, b) # t) = (if k = a then t else (a, b) # mdb_del k t)"

definition mdb_last :: "('k, 'v) table \<Rightarrow> ('k \<times> 'v) option" where
  "mdb_last t = (if t = [] then None else Some (last t))"

text \<open>Records from a key on, in order: a cursor placed by \<open>MDB_SET\<close> and moved by \<open>MDB_NEXT\<close>.\<close>

definition mdb_from :: "'k::linorder \<Rightarrow> ('k, 'v) table \<Rightarrow> ('k, 'v) table" where
  "mdb_from k t = (if mdb_get k t = None then [] else dropWhile (\<lambda>(a, _). a \<noteq> k) t)"

text \<open>\<open>MDB_SET_RANGE\<close>: the first record whose key is at least the given one.\<close>

definition mdb_range :: "'k::linorder \<Rightarrow> ('k, 'v) table \<Rightarrow> ('k, 'v) table" where
  "mdb_range k t = dropWhile (\<lambda>(a, _). a < k) t"

definition table_ok :: "('k::linorder, 'v) table \<Rightarrow> bool" where
  "table_ok t = sorted_wrt (<) (map fst t)"

section \<open>The interface\<close>

locale kv_store =
  fixes get :: "'k \<Rightarrow> 't \<Rightarrow> 'v option"
    and put :: "'k \<Rightarrow> 'v \<Rightarrow> 't \<Rightarrow> 't"
    and del :: "'k \<Rightarrow> 't \<Rightarrow> 't"
    and ok :: "'t \<Rightarrow> bool"
  assumes get_put: "ok t \<Longrightarrow> get j (put k v t) = (if j = k then Some v else get j t)"
    and get_del: "ok t \<Longrightarrow> get j (del k t) = (if j = k then None else get j t)"
    and put_ok: "ok t \<Longrightarrow> ok (put k v t)"
    and del_ok: "ok t \<Longrightarrow> ok (del k t)"
    and table_ext: "ok t \<Longrightarrow> ok u \<Longrightarrow> (\<And>k. get k t = get k u) \<Longrightarrow> t = u"
begin

lemma del_put: "ok t \<Longrightarrow> get k t = None \<Longrightarrow> del k (put k v t) = t"
  by (rule table_ext) (auto simp: get_put get_del put_ok del_ok)

lemma del_absent: "ok t \<Longrightarrow> get k t = None \<Longrightarrow> del k t = t"
  by (rule table_ext) (auto simp: get_del del_ok)

lemma put_put: "ok t \<Longrightarrow> put k v (put k w t) = put k v t"
  by (rule table_ext) (auto simp: get_put put_ok)

lemma put_commute: "ok t \<Longrightarrow> j \<noteq> k \<Longrightarrow> put j v (put k w t) = put k w (put j v t)"
  by (rule table_ext) (auto simp: get_put put_ok)

lemma puts_ok: "ok t \<Longrightarrow> ok (fold (\<lambda>(k, v). put k v) kvs t)"
  by (induction kvs arbitrary: t) (auto simp: put_ok)

lemma dels_ok: "ok t \<Longrightarrow> ok (fold del ks t)"
  by (induction ks arbitrary: t) (auto simp: del_ok)

lemma get_puts:
  "ok t \<Longrightarrow> get j (fold (\<lambda>(k, v). put k v) kvs t) =
     (case map_of (rev kvs) j of Some v \<Rightarrow> Some v | None \<Rightarrow> get j t)"
  by (induction kvs arbitrary: t) (auto simp: put_ok get_put map_add_def split: option.splits)

lemma get_dels: "ok t \<Longrightarrow> get j (fold del ks t) = (if j \<in> set ks then None else get j t)"
  by (induction ks arbitrary: t) (auto simp: del_ok get_del)

text \<open>Deleting the keys of a batch of fresh records undoes the batch, in whatever order.\<close>

lemma dels_puts:
  assumes "ok t" and "\<And>k. k \<in> set ks \<Longrightarrow> get k t = None" and "set ks = fst ` set kvs"
  shows "fold del ks (fold (\<lambda>(k, v). put k v) kvs t) = t"
proof (rule table_ext)
  show "ok (fold del ks (fold (\<lambda>(k, v). put k v) kvs t))" using assms(1) by (simp add: dels_ok puts_ok)
  show "ok t" by (rule assms(1))
  fix j
  have "map_of (rev kvs) j = None" if "j \<notin> set ks"
    using that assms(3) by (simp add: map_of_eq_None_iff)
  then show "get j (fold del ks (fold (\<lambda>(k, v). put k v) kvs t)) = get j t"
    using assms(1,2) by (auto simp: get_dels get_puts puts_ok)
qed

end

section \<open>Ordered lists provide it\<close>

lemma table_ok_Nil [simp]: "table_ok []"
  by (simp add: table_ok_def)

lemma table_ok_Cons [simp]: "table_ok ((a, b) # t) \<longleftrightarrow> (\<forall>k \<in> fst ` set t. a < k) \<and> table_ok t"
  by (auto simp: table_ok_def)

lemma keys_mdb_put [simp]: "fst ` set (mdb_put k v t) = insert k (fst ` set t)"
  by (induction k v t rule: mdb_put.induct) auto

lemma mdb_get_None_iff: "mdb_get k t = None \<longleftrightarrow> k \<notin> fst ` set t"
  by (induction k t rule: mdb_get.induct) auto

lemma keys_mdb_del: "table_ok t \<Longrightarrow> fst ` set (mdb_del k t) = fst ` set t - {k}"
  by (induction k t rule: mdb_del.induct) auto

lemma mdb_get_put: "mdb_get j (mdb_put k v t) = (if j = k then Some v else mdb_get j t)"
  by (induction k v t rule: mdb_put.induct) auto

lemma mdb_get_head: "\<forall>k \<in> fst ` set t. a < k \<Longrightarrow> mdb_get a t = None"
  by (auto simp: mdb_get_None_iff)

lemma mdb_get_del: "table_ok t \<Longrightarrow> mdb_get j (mdb_del k t) = (if j = k then None else mdb_get j t)"
  by (induction k t rule: mdb_del.induct) (auto simp: mdb_get_head)

lemma table_ok_put: "table_ok t \<Longrightarrow> table_ok (mdb_put k v t)"
  by (induction k v t rule: mdb_put.induct) (auto dest: less_trans simp: neq_iff)

lemma table_ok_del: "table_ok t \<Longrightarrow> table_ok (mdb_del k t)"
  by (induction k t rule: mdb_del.induct) (auto simp: keys_mdb_del)

lemma table_ext_lookup: "table_ok t \<Longrightarrow> table_ok u \<Longrightarrow> (\<And>k. mdb_get k t = mdb_get k u) \<Longrightarrow> t = u"
proof (induction t arbitrary: u)
  case Nil
  then show ?case by (cases u) (auto split: prod.splits if_splits, metis option.distinct(1))
next
  case (Cons p t)
  obtain a b where p: "p = (a, b)" by (cases p)
  obtain c d u' where u: "u = (c, d) # u'"
    using Cons.prems(3) [of a] by (cases u) (auto simp: p)
  have "a \<in> fst ` set u" "c \<in> fst ` set (p # t)"
    using Cons.prems(3) [of a] Cons.prems(3) [of c] mdb_get_None_iff [of a u] mdb_get_None_iff [of c "p # t"]
    by (auto simp: p u)
  then have ac: "a = c" using Cons.prems(1,2) by (force simp: p u)
  have "mdb_get k t = mdb_get k u'" for k
    using Cons.prems(1,2) Cons.prems(3) [of k] mdb_get_None_iff [of k t] mdb_get_None_iff [of k u']
    by (cases "k = a") (auto simp: p u ac)
  then have "t = u'" using Cons.prems(1,2) by (intro Cons.IH) (simp_all add: p u)
  then show ?case using Cons.prems(3) [of a] by (simp add: p u ac)
qed

interpretation kv: kv_store mdb_get mdb_put mdb_del table_ok
  by unfold_locales (simp_all add: mdb_get_put mdb_get_del table_ok_put table_ok_del table_ext_lookup)

section \<open>Keys and cursors\<close>

definition keys :: "('k, 'v) table \<Rightarrow> 'k set" where
  "keys t = fst ` set t"

lemma keys_Nil [simp]: "keys [] = {}"
  by (simp add: keys_def)

lemma get_None_keys: "mdb_get k t = None \<longleftrightarrow> k \<notin> keys t"
  by (simp add: keys_def mdb_get_None_iff)

lemma keys_put [simp]: "keys (mdb_put k v t) = insert k (keys t)"
  by (simp add: keys_def)

lemma keys_del [simp]: "table_ok t \<Longrightarrow> keys (mdb_del k t) = keys t - {k}"
  by (simp add: keys_def keys_mdb_del)

lemma keys_puts [simp]: "keys (fold (\<lambda>k. mdb_put k v) ks t) = set ks \<union> keys t"
  by (induction ks arbitrary: t) auto

lemma puts_const: "fold (\<lambda>k. mdb_put k v) ks = fold (\<lambda>(k, v). mdb_put k v) (map (\<lambda>k. (k, v)) ks)"
  by (induction ks) (auto simp: fun_eq_iff)

text \<open>A record put behind every other one is the last.\<close>

lemma put_greatest: "\<forall>j \<in> keys t. j < k \<Longrightarrow> mdb_put k v t = t @ [(k, v)]"
  by (induction k v t rule: mdb_put.induct) (auto simp: keys_def)

lemma last_greatest: "\<forall>j \<in> keys t. j < k \<Longrightarrow> mdb_last (mdb_put k v t) = Some (k, v)"
  by (simp add: put_greatest mdb_last_def)

lemma last_in_keys: "mdb_last t = Some (k, v) \<Longrightarrow> k \<in> keys t"
  by (auto simp: mdb_last_def keys_def split: if_splits) (metis fst_conv image_eqI last_in_set)

lemma keys_below_last: "table_ok t \<Longrightarrow> mdb_last t = Some (k, v) \<Longrightarrow> j \<in> keys t \<Longrightarrow> j \<le> k"
  by (cases t rule: rev_cases)
    (auto simp: mdb_last_def keys_def table_ok_def sorted_wrt_append intro: less_imp_le)

end
