(* ===== verification/Chain_DB.thy ===== *)
theory Chain_DB
  imports Kv_Table Tx_Wire
begin

text \<open>
  The block database of src/src/CryptoNoteCore/LMDBBlockchainDB.h and LMDBBlockchainDB.cpp: its
  ten tables with their byte-level keys and values, the accessors, and the write transactions with
  one level of nesting.  A table of the underlying store is a list of records in key order
  (theory \<open>Kv_Table\<close>).  A write transaction works on a copy of the tables; a failing store call
  shows in the clients as an aborted transaction, so the accessors below are those of a call that
  returns.
\<close>

section \<open>Big-endian helpers\<close>

definition encBE32 :: "u32 \<Rightarrow> bytes" where
  "encBE32 v = [ucast (drop_bit 24 v AND 0xFF), ucast (drop_bit 16 v AND 0xFF),
                ucast (drop_bit 8 v AND 0xFF), ucast (v AND 0xFF)]"

definition encBE64 :: "u64 \<Rightarrow> bytes" where
  "encBE64 v = [ucast (drop_bit 56 v AND 0xFF), ucast (drop_bit 48 v AND 0xFF),
                ucast (drop_bit 40 v AND 0xFF), ucast (drop_bit 32 v AND 0xFF),
                ucast (drop_bit 24 v AND 0xFF), ucast (drop_bit 16 v AND 0xFF),
                ucast (drop_bit 8 v AND 0xFF), ucast (v AND 0xFF)]"

definition decBE32 :: "bytes \<Rightarrow> u32" where
  "decBE32 b = push_bit 24 (ucast (b ! 0)) OR push_bit 16 (ucast (b ! 1)) OR
               push_bit 8 (ucast (b ! 2)) OR ucast (b ! 3)"

definition decBE64 :: "bytes \<Rightarrow> u64" where
  "decBE64 b = push_bit 56 (ucast (b ! 0)) OR push_bit 48 (ucast (b ! 1)) OR
               push_bit 40 (ucast (b ! 2)) OR push_bit 32 (ucast (b ! 3)) OR
               push_bit 24 (ucast (b ! 4)) OR push_bit 16 (ucast (b ! 5)) OR
               push_bit 8 (ucast (b ! 6)) OR ucast (b ! 7)"

text \<open>Slot numbers are written as two bytes in line.\<close>

definition encBE16 :: "u16 \<Rightarrow> bytes" where
  "encBE16 v = [ucast (drop_bit 8 v AND 0xFF), ucast (v AND 0xFF)]"

definition decBE16 :: "bytes \<Rightarrow> u16" where
  "decBE16 b = push_bit 8 (ucast (b ! 0)) OR ucast (b ! 1)"

section \<open>Block metadata\<close>

record DbBlockMeta =
  meta_hash :: hash
  meta_prevHash :: hash
  meta_timestamp :: u64
  meta_cumulativeDifficulty :: u64
  meta_alreadyGeneratedCoins :: u64
  meta_blockCumulativeSize :: u32
  meta_height :: u32
  meta_txCount :: u16
  meta_majorVersion :: byte
  meta_minorVersion :: byte

definition zero_meta :: DbBlockMeta where
  "zero_meta = \<lparr>meta_hash = NULL_HASH, meta_prevHash = NULL_HASH, meta_timestamp = 0,
     meta_cumulativeDifficulty = 0, meta_alreadyGeneratedCoins = 0, meta_blockCumulativeSize = 0,
     meta_height = 0, meta_txCount = 0, meta_majorVersion = 0, meta_minorVersion = 0\<rparr>"

text \<open>The packed 100-byte record, copied as it lies in the memory of a little-endian machine.\<close>

definition meta_bytes :: "DbBlockMeta \<Rightarrow> bytes" where
  "meta_bytes m = meta_hash m @ meta_prevHash m @ le_bytes 8 (meta_timestamp m) @
     le_bytes 8 (meta_cumulativeDifficulty m) @ le_bytes 8 (meta_alreadyGeneratedCoins m) @
     le_bytes 4 (meta_blockCumulativeSize m) @ le_bytes 4 (meta_height m) @
     le_bytes 2 (meta_txCount m) @ [meta_majorVersion m, meta_minorVersion m]"

definition meta_of_bytes :: "bytes \<Rightarrow> DbBlockMeta" where
  "meta_of_bytes b = \<lparr>meta_hash = take 32 b, meta_prevHash = take 32 (drop 32 b),
     meta_timestamp = le_value (take 8 (drop 64 b)),
     meta_cumulativeDifficulty = le_value (take 8 (drop 72 b)),
     meta_alreadyGeneratedCoins = le_value (take 8 (drop 80 b)),
     meta_blockCumulativeSize = le_value (take 4 (drop 88 b)),
     meta_height = le_value (take 4 (drop 92 b)), meta_txCount = le_value (take 2 (drop 96 b)),
     meta_majorVersion = b ! 98, meta_minorVersion = b ! 99\<rparr>"

section \<open>Tables and transactions\<close>

record tables =
  block_meta :: "(bytes, bytes) table"
  block_data :: "(bytes, bytes) table"
  tx_entries :: "(bytes, bytes) table"
  hash_to_height :: "(bytes, bytes) table"
  spent_keys :: "(bytes, bytes) table"
  pq_acct_reg :: "(bytes, bytes) table"
  tx_indices :: "(bytes, bytes) table"
  payment_id_idx :: "(bytes \<times> bytes, unit) table"
  timestamp_idx :: "(bytes, unit) table"
  gen_tx_idx :: "(bytes, bytes) table"

definition empty_tables :: tables where
  "empty_tables = \<lparr>block_meta = [], block_data = [], tx_entries = [], hash_to_height = [],
     spent_keys = [], pq_acct_reg = [], tx_indices = [], payment_id_idx = [], timestamp_idx = [],
     gen_tx_idx = []\<rparr>"

record LMDBBlockchainDB =
  m_env :: tables
  m_writeTxn :: "tables option"
  m_parentWriteTxn :: "tables option"

definition readTxn :: "LMDBBlockchainDB \<Rightarrow> tables" where
  "readTxn db = (case m_writeTxn db of Some t \<Rightarrow> t | None \<Rightarrow> m_env db)"

definition writeTxn :: "(tables \<Rightarrow> tables) \<Rightarrow> LMDBBlockchainDB \<Rightarrow> LMDBBlockchainDB" where
  "writeTxn f db = db\<lparr>m_writeTxn := map_option f (m_writeTxn db)\<rparr>"

definition beginWriteTxn :: "LMDBBlockchainDB \<Rightarrow> LMDBBlockchainDB" where
  "beginWriteTxn db = db\<lparr>m_writeTxn := Some (m_env db)\<rparr>"

definition beginNestedWriteTxn :: "LMDBBlockchainDB \<Rightarrow> LMDBBlockchainDB" where
  "beginNestedWriteTxn db = db\<lparr>m_parentWriteTxn := m_writeTxn db\<rparr>"

definition commitNestedWriteTxn :: "LMDBBlockchainDB \<Rightarrow> LMDBBlockchainDB" where
  "commitNestedWriteTxn db = db\<lparr>m_parentWriteTxn := None\<rparr>"

definition abortNestedWriteTxn :: "LMDBBlockchainDB \<Rightarrow> LMDBBlockchainDB" where
  "abortNestedWriteTxn db = db\<lparr>m_writeTxn := m_parentWriteTxn db, m_parentWriteTxn := None\<rparr>"

definition commitTxn :: "LMDBBlockchainDB \<Rightarrow> LMDBBlockchainDB" where
  "commitTxn db = db\<lparr>m_env := readTxn db, m_writeTxn := None\<rparr>"

definition abortTxn :: "LMDBBlockchainDB \<Rightarrow> LMDBBlockchainDB" where
  "abortTxn db = db\<lparr>m_writeTxn := None, m_parentWriteTxn := None\<rparr>"

definition hasActiveTxn :: "LMDBBlockchainDB \<Rightarrow> bool" where
  "hasActiveTxn db = (m_writeTxn db \<noteq> None)"

definition hasNestedTxn :: "LMDBBlockchainDB \<Rightarrow> bool" where
  "hasNestedTxn db = (m_parentWriteTxn db \<noteq> None)"

definition db_clear :: "LMDBBlockchainDB \<Rightarrow> LMDBBlockchainDB" where
  "db_clear db = db\<lparr>m_env := empty_tables\<rparr>"

section \<open>Accessors\<close>

definition getChainHeight :: "tables \<Rightarrow> u32" where
  "getChainHeight t = (case mdb_last (block_meta t) of None \<Rightarrow> 0 | Some (k, _) \<Rightarrow> decBE32 k + 1)"

definition putBlockMeta :: "u32 \<Rightarrow> DbBlockMeta \<Rightarrow> tables \<Rightarrow> tables" where
  "putBlockMeta height meta t = t\<lparr>block_meta := mdb_put (encBE32 height) (meta_bytes meta) (block_meta t)\<rparr>"

definition getBlockMeta :: "tables \<Rightarrow> u32 \<Rightarrow> DbBlockMeta option" where
  "getBlockMeta t height = map_option meta_of_bytes (mdb_get (encBE32 height) (block_meta t))"

text \<open>Most callers pass a zeroed record and ignore the result.\<close>

definition blockMetaOrZero :: "tables \<Rightarrow> u32 \<Rightarrow> DbBlockMeta" where
  "blockMetaOrZero t height = (case getBlockMeta t height of None \<Rightarrow> zero_meta | Some m \<Rightarrow> m)"

definition getBlockMetaRange :: "tables \<Rightarrow> u32 \<Rightarrow> u32 \<Rightarrow> DbBlockMeta list" where
  "getBlockMetaRange t fromHeight toHeight =
     (if toHeight < fromHeight then []
      else map (\<lambda>(_, v). meta_of_bytes v)
             (filter (\<lambda>(_, v). 100 \<le> length v)
               (takeWhile (\<lambda>(k, _). \<not> toHeight < decBE32 k) (mdb_from (encBE32 fromHeight) (block_meta t)))))"

fun getBlockMetaForHeights :: "tables \<Rightarrow> u32 list \<Rightarrow> DbBlockMeta list option" where
  "getBlockMetaForHeights t [] = Some []"
| "getBlockMetaForHeights t (height # heights) =
     (case mdb_get (encBE32 height) (block_meta t) of
        None \<Rightarrow> None
      | Some v \<Rightarrow> if length v < 100 then None
                  else map_option (Cons (meta_of_bytes v)) (getBlockMetaForHeights t heights))"

definition removeLastBlockMeta :: "tables \<Rightarrow> bool \<times> tables" where
  "removeLastBlockMeta t = (case mdb_last (block_meta t) of
     None \<Rightarrow> (False, t)
   | Some (k, _) \<Rightarrow> (True, t\<lparr>block_meta := mdb_del k (block_meta t)\<rparr>))"

definition putBlockData :: "u32 \<Rightarrow> bytes \<Rightarrow> tables \<Rightarrow> tables" where
  "putBlockData height data t = t\<lparr>block_data := mdb_put (encBE32 height) data (block_data t)\<rparr>"

definition getBlockData :: "tables \<Rightarrow> u32 \<Rightarrow> bytes option" where
  "getBlockData t height = mdb_get (encBE32 height) (block_data t)"

definition removeBlockData :: "u32 \<Rightarrow> tables \<Rightarrow> bool \<times> tables" where
  "removeBlockData height t = (mdb_get (encBE32 height) (block_data t) \<noteq> None,
     t\<lparr>block_data := mdb_del (encBE32 height) (block_data t)\<rparr>)"

definition putTxEntry :: "u32 \<Rightarrow> u16 \<Rightarrow> bytes \<Rightarrow> tables \<Rightarrow> tables" where
  "putTxEntry height txIdx data t = t\<lparr>tx_entries := mdb_put (encBE32 height @ encBE16 txIdx) data (tx_entries t)\<rparr>"

definition getTxEntry :: "tables \<Rightarrow> u32 \<Rightarrow> u16 \<Rightarrow> bytes option" where
  "getTxEntry t height txIdx = mdb_get (encBE32 height @ encBE16 txIdx) (tx_entries t)"

definition removeTxEntriesForBlock :: "u32 \<Rightarrow> u16 \<Rightarrow> tables \<Rightarrow> tables" where
  "removeTxEntriesForBlock height txCount t = t\<lparr>tx_entries :=
     fold (\<lambda>i. mdb_del (encBE32 height @ encBE16 (of_nat i))) [0..<unat txCount] (tx_entries t)\<rparr>"

definition putHashHeight :: "hash \<Rightarrow> u32 \<Rightarrow> tables \<Rightarrow> tables" where
  "putHashHeight h height t = t\<lparr>hash_to_height := mdb_put h (encBE32 height) (hash_to_height t)\<rparr>"

definition getHashHeight :: "tables \<Rightarrow> hash \<Rightarrow> u32 option" where
  "getHashHeight t h = map_option decBE32 (mdb_get h (hash_to_height t))"

definition removeHashHeight :: "hash \<Rightarrow> tables \<Rightarrow> bool \<times> tables" where
  "removeHashHeight h t = (mdb_get h (hash_to_height t) \<noteq> None, t\<lparr>hash_to_height := mdb_del h (hash_to_height t)\<rparr>)"

definition putSpentKey :: "hash \<Rightarrow> u32 \<Rightarrow> tables \<Rightarrow> tables" where
  "putSpentKey ki blockHeight t = t\<lparr>spent_keys := mdb_put ki (encBE32 blockHeight) (spent_keys t)\<rparr>"

definition hasSpentKey :: "tables \<Rightarrow> hash \<Rightarrow> bool" where
  "hasSpentKey t ki = (mdb_get ki (spent_keys t) \<noteq> None)"

definition getSpentKeyHeight :: "tables \<Rightarrow> hash \<Rightarrow> u32 option" where
  "getSpentKeyHeight t ki = map_option decBE32 (mdb_get ki (spent_keys t))"

definition removeSpentKey :: "hash \<Rightarrow> tables \<Rightarrow> bool \<times> tables" where
  "removeSpentKey ki t = (mdb_get ki (spent_keys t) \<noteq> None, t\<lparr>spent_keys := mdb_del ki (spent_keys t)\<rparr>)"

definition putPqAcctReg :: "hash \<Rightarrow> u32 \<Rightarrow> u32 \<Rightarrow> tables \<Rightarrow> tables" where
  "putPqAcctReg accountId blockHeight txIndex t =
     t\<lparr>pq_acct_reg := mdb_put accountId (encBE32 blockHeight @ encBE32 txIndex) (pq_acct_reg t)\<rparr>"

definition hasPqAcctReg :: "tables \<Rightarrow> hash \<Rightarrow> bool" where
  "hasPqAcctReg t accountId = (mdb_get accountId (pq_acct_reg t) \<noteq> None)"

definition getPqAcctReg :: "tables \<Rightarrow> hash \<Rightarrow> (u32 \<times> u32) option" where
  "getPqAcctReg t accountId = (case mdb_get accountId (pq_acct_reg t) of
     None \<Rightarrow> None
   | Some v \<Rightarrow> if length v \<noteq> 8 then None else Some (decBE32 v, decBE32 (drop 4 v)))"

definition removePqAcctReg :: "hash \<Rightarrow> tables \<Rightarrow> bool \<times> tables" where
  "removePqAcctReg accountId t =
     (mdb_get accountId (pq_acct_reg t) \<noteq> None, t\<lparr>pq_acct_reg := mdb_del accountId (pq_acct_reg t)\<rparr>)"

definition getPqAccountRegistrationsCount :: "tables \<Rightarrow> u64" where
  "getPqAccountRegistrationsCount t = of_nat (length (pq_acct_reg t))"

definition putTxIndex :: "hash \<Rightarrow> u32 \<Rightarrow> u16 \<Rightarrow> tables \<Rightarrow> tables" where
  "putTxIndex txHash block txSlot t =
     t\<lparr>tx_indices := mdb_put txHash (encBE32 block @ encBE16 txSlot) (tx_indices t)\<rparr>"

definition getTxIndex :: "tables \<Rightarrow> hash \<Rightarrow> (u32 \<times> u16) option" where
  "getTxIndex t txHash = map_option (\<lambda>b. (decBE32 b, decBE16 (drop 4 b))) (mdb_get txHash (tx_indices t))"

definition removeTxIndex :: "hash \<Rightarrow> tables \<Rightarrow> bool \<times> tables" where
  "removeTxIndex txHash t = (mdb_get txHash (tx_indices t) \<noteq> None, t\<lparr>tx_indices := mdb_del txHash (tx_indices t)\<rparr>)"

text \<open>The payment-id table keeps several transaction hashes under one key.\<close>

definition putPaymentId :: "hash \<Rightarrow> hash \<Rightarrow> tables \<Rightarrow> tables" where
  "putPaymentId paymentId txHash t = t\<lparr>payment_id_idx := mdb_put (paymentId, txHash) () (payment_id_idx t)\<rparr>"

definition getPaymentIdTxHashes :: "tables \<Rightarrow> hash \<Rightarrow> hash list" where
  "getPaymentIdTxHashes t paymentId = map (snd \<circ> fst) (filter (\<lambda>(k, _). fst k = paymentId) (payment_id_idx t))"

definition removePaymentId :: "hash \<Rightarrow> hash \<Rightarrow> tables \<Rightarrow> bool \<times> tables" where
  "removePaymentId paymentId txHash t = (mdb_get (paymentId, txHash) (payment_id_idx t) \<noteq> None,
     t\<lparr>payment_id_idx := mdb_del (paymentId, txHash) (payment_id_idx t)\<rparr>)"

definition putTimestamp :: "u64 \<Rightarrow> hash \<Rightarrow> tables \<Rightarrow> tables" where
  "putTimestamp ts blockHash t = t\<lparr>timestamp_idx := mdb_put (encBE64 ts @ blockHash) () (timestamp_idx t)\<rparr>"

definition getBlockHashesByTimestampRange :: "tables \<Rightarrow> u64 \<Rightarrow> u64 \<Rightarrow> u32 \<Rightarrow> hash list \<times> u32" where
  "getBlockHashesByTimestampRange t tsBegin tsEnd limit =
     (let ks = map fst (takeWhile (\<lambda>(k, _). \<not> tsEnd < decBE64 k)
                 (mdb_range (encBE64 tsBegin @ replicate 32 0) (timestamp_idx t)))
      in (take (unat limit) (map (drop 8) ks), of_nat (length ks)))"

definition removeTimestamp :: "u64 \<Rightarrow> hash \<Rightarrow> tables \<Rightarrow> bool \<times> tables" where
  "removeTimestamp ts blockHash t = (mdb_get (encBE64 ts @ blockHash) (timestamp_idx t) \<noteq> None,
     t\<lparr>timestamp_idx := mdb_del (encBE64 ts @ blockHash) (timestamp_idx t)\<rparr>)"

definition putGeneratedTxCount :: "u32 \<Rightarrow> u64 \<Rightarrow> tables \<Rightarrow> tables" where
  "putGeneratedTxCount height count t = t\<lparr>gen_tx_idx := mdb_put (encBE32 height) (encBE64 count) (gen_tx_idx t)\<rparr>"

definition getGeneratedTxCount :: "tables \<Rightarrow> u32 \<Rightarrow> u64 option" where
  "getGeneratedTxCount t height = map_option decBE64 (mdb_get (encBE32 height) (gen_tx_idx t))"

definition removeGeneratedTxCount :: "u32 \<Rightarrow> tables \<Rightarrow> bool \<times> tables" where
  "removeGeneratedTxCount height t = (mdb_get (encBE32 height) (gen_tx_idx t) \<noteq> None,
     t\<lparr>gen_tx_idx := mdb_del (encBE32 height) (gen_tx_idx t)\<rparr>)"

section \<open>Encodings\<close>

lemma byte_of_mask: "(ucast (x AND 0xFF) :: byte) = ucast (x :: 'w::len word)"
proof -
  have m: "(0xFF :: 'w word) = mask 8" by (simp add: mask_eq_exp_minus_1)
  have "bit (ucast (x AND mask 8) :: byte) n = bit (ucast x :: byte) n" if "n < 8" for n
    using that by (auto simp: bit_simps dest: bit_imp_le_length)
  then show ?thesis unfolding m by (intro bit_word_eqI) simp
qed

lemma BE_rev:
  "encBE32 v = rev (le_bytes 4 v)" "encBE64 w = rev (le_bytes 8 w)" "encBE16 s = rev (le_bytes 2 s)"
  by (simp_all add: encBE32_def encBE64_def encBE16_def byte_of_mask numeral_eq_Suc)

lemma length_BE [simp]: "length (encBE32 v) = 4" "length (encBE64 w) = 8" "length (encBE16 s) = 2"
  by (simp_all add: BE_rev)

lemma decBE32_enc [simp]: "decBE32 (encBE32 v @ r) = v"
proof -
  have "decBE32 (encBE32 v @ r) = le_value (le_bytes 4 v)"
    by (simp add: encBE32_def decBE32_def byte_of_mask numeral_eq_Suc push_bit_or or.assoc or.commute or.left_commute)
  then show ?thesis by simp
qed

lemma decBE64_enc [simp]: "decBE64 (encBE64 v @ r) = v"
proof -
  have "decBE64 (encBE64 v @ r) = le_value (le_bytes 8 v)"
    by (simp add: encBE64_def decBE64_def byte_of_mask numeral_eq_Suc push_bit_or or.assoc or.commute or.left_commute)
  then show ?thesis by simp
qed

lemma decBE16_enc [simp]: "decBE16 (encBE16 v @ r) = v"
proof -
  have "decBE16 (encBE16 v @ r) = le_value (le_bytes 2 v)"
    by (simp add: encBE16_def decBE16_def byte_of_mask numeral_eq_Suc push_bit_or or.assoc or.commute or.left_commute)
  then show ?thesis by simp
qed

lemmas decBE_enc [simp] = decBE32_enc [where r = "[]", simplified] decBE64_enc [where r = "[]", simplified]
  decBE16_enc [where r = "[]", simplified]

lemma encBE_inject [simp]:
  "encBE32 a = encBE32 b \<longleftrightarrow> a = b" "encBE64 c = encBE64 d \<longleftrightarrow> c = d" "encBE16 e = encBE16 f \<longleftrightarrow> e = f"
  by (metis decBE_enc)+

fun be_val :: "bytes \<Rightarrow> nat" where
  "be_val [] = 0"
| "be_val (b # bs) = unat b * 256 ^ length bs + be_val bs"

lemma be_val_bound: "be_val bs < 256 ^ length bs"
proof (induction bs)
  case (Cons b bs)
  have "unat b * 256 ^ length bs + be_val bs < (unat b + 1) * 256 ^ length bs" using Cons by simp
  also have "\<dots> \<le> 256 * 256 ^ length bs"
    using unat_byte_bound [of b] by (intro mult_le_mono1) linarith
  finally show ?case by simp
qed simp

lemma be_val_snoc: "be_val (xs @ [b]) = be_val xs * 256 + unat b"
  by (induction xs) (simp_all add: algebra_simps)

lemma be_val_rev: "be_val (rev (le_bytes n v)) = unat v mod 256 ^ n"
proof (induction n arbitrary: v)
  case (Suc n)
  have "unat v mod (256 * 256 ^ n) = 256 * (unat v div 256 mod 256 ^ n) + unat v mod 256"
    by (rule mod_mult2_eq)
  then show ?case by (simp add: be_val_snoc Suc unat_drop_bit_div unat_ucast_mod mult.commute)
qed simp

lemma lex_be_val: "length xs = length ys \<Longrightarrow> xs < ys \<longleftrightarrow> be_val xs < be_val ys"
proof (induction xs ys rule: list_induct2)
  case (Cons x xs y ys)
  let ?p = "256 ^ length ys :: nat"
  have b: "be_val xs < ?p" "be_val ys < ?p" using be_val_bound [of xs] be_val_bound [of ys] Cons.hyps by simp_all
  have mono: "unat a * ?p + r < unat c * ?p + q" if "unat a < unat c" "r < ?p" for a c :: byte and r q
  proof -
    have "unat a * ?p + r < (unat a + 1) * ?p" using that(2) by simp
    also have "\<dots> \<le> unat c * ?p" using that(1) by (intro mult_le_mono1) simp
    finally show ?thesis by simp
  qed
  show ?case
    using mono [of x y "be_val xs" "be_val ys"] mono [of y x "be_val ys" "be_val xs"] b Cons.IH Cons.hyps
    by (cases x y rule: linorder_cases) (auto simp: word_less_nat_alt)
qed simp

text \<open>Big-endian keys sort by number, so the last key of a height-indexed table is the greatest height.\<close>

lemma encBE32_less [simp]: "encBE32 a < encBE32 b \<longleftrightarrow> a < b"
  using unsigned_less [of a, where ?'a = nat] unsigned_less [of b, where ?'a = nat]
  by (subst lex_be_val) (simp_all add: BE_rev be_val_rev word_less_nat_alt)

definition meta_ok :: "DbBlockMeta \<Rightarrow> bool" where
  "meta_ok m = (length (meta_hash m) = 32 \<and> length (meta_prevHash m) = 32)"

lemma meta_round_trip: "meta_ok m \<Longrightarrow> meta_of_bytes (meta_bytes m) = m"
  by (simp add: meta_of_bytes_def meta_bytes_def meta_ok_def nth_append)

lemma length_meta_bytes [simp]: "meta_ok m \<Longrightarrow> length (meta_bytes m) = 100"
  by (simp add: meta_bytes_def meta_ok_def)

section \<open>Well-formed databases\<close>

lemmas db_put_defs = putBlockMeta_def putBlockData_def putTxEntry_def putHashHeight_def putSpentKey_def
  putPqAcctReg_def putTxIndex_def putPaymentId_def putTimestamp_def putGeneratedTxCount_def

lemmas db_get_defs = getBlockMeta_def getBlockData_def getTxEntry_def getHashHeight_def hasSpentKey_def
  getSpentKeyHeight_def hasPqAcctReg_def getTxIndex_def getGeneratedTxCount_def

lemmas db_remove_defs = removeBlockData_def removeTxEntriesForBlock_def removeHashHeight_def
  removeSpentKey_def removePqAcctReg_def removeTxIndex_def removePaymentId_def removeTimestamp_def
  removeGeneratedTxCount_def

definition tables_ok :: "tables \<Rightarrow> bool" where
  "tables_ok t \<longleftrightarrow> table_ok (block_meta t) \<and> table_ok (block_data t) \<and> table_ok (tx_entries t) \<and>
     table_ok (hash_to_height t) \<and> table_ok (spent_keys t) \<and> table_ok (pq_acct_reg t) \<and>
     table_ok (tx_indices t) \<and> table_ok (payment_id_idx t) \<and> table_ok (timestamp_idx t) \<and>
     table_ok (gen_tx_idx t)"

text \<open>
  A database of \<open>n\<close> blocks: metadata for exactly the heights below \<open>n\<close>, no block data, counts or
  transaction entries above, and no index entry of a block or transaction that is not stored.
\<close>

definition heights_below :: "nat \<Rightarrow> bytes set" where
  "heights_below n = encBE32 ` {h. unat h < n}"

definition db_ok :: "nat \<Rightarrow> tables \<Rightarrow> bool" where
  "db_ok n t \<longleftrightarrow> n < 2 ^ 32 \<and> tables_ok t \<and> keys (block_meta t) = heights_below n \<and>
     keys (block_data t) \<subseteq> heights_below n \<and> keys (gen_tx_idx t) \<subseteq> heights_below n \<and>
     keys (tx_entries t) \<subseteq> {k @ encBE16 s | k s. k \<in> heights_below n} \<and>
     keys (timestamp_idx t) \<subseteq> {k. drop 8 k \<in> keys (hash_to_height t)} \<and>
     keys (payment_id_idx t) \<subseteq> {k. snd k \<in> keys (tx_indices t)}"

lemma heights_below_iff [simp]: "encBE32 h \<in> heights_below n \<longleftrightarrow> unat h < n"
  by (auto simp: heights_below_def)

lemma heights_below_less: "n < 2 ^ 32 \<Longrightarrow> k \<in> heights_below n \<Longrightarrow> k < encBE32 (of_nat n)"
  by (auto simp: heights_below_def word_less_nat_alt unat_of_nat_u32)

lemma word_of_unat: "unat (h :: 'w::len word) = m \<Longrightarrow> h = of_nat m"
  by auto

lemma heights_below_Suc: "Suc n < 2 ^ 32 \<Longrightarrow> heights_below (Suc n) = insert (encBE32 (of_nat n)) (heights_below n)"
  by (auto simp: heights_below_def less_Suc_eq unat_of_nat_u32 dest: word_of_unat)

lemma chain_height_ok:
  assumes "db_ok n t"
  shows "getChainHeight t = of_nat n"
proof (cases n)
  case 0
  then have "block_meta t = []" using assms by (auto simp: db_ok_def heights_below_def keys_def)
  then show ?thesis by (simp add: getChainHeight_def mdb_last_def 0)
next
  case (Suc m)
  have lt: "Suc m < 2 ^ 32" and tok: "table_ok (block_meta t)" and ks: "keys (block_meta t) = heights_below n"
    using assms Suc by (simp_all add: db_ok_def tables_ok_def)
  obtain k v where l: "mdb_last (block_meta t) = Some (k, v)"
    using ks lt by (cases "block_meta t = []") (auto simp: mdb_last_def keys_def heights_below_Suc Suc prod_eq_iff)
  have "k \<in> heights_below n" using last_in_keys [OF l] ks by simp
  then obtain h where h: "k = encBE32 h" "unat h < n" by (auto simp: heights_below_def)
  have "encBE32 (of_nat m) \<le> k" using keys_below_last [OF tok l] ks lt by (simp add: heights_below_Suc Suc)
  then have "m \<le> unat h"
    using lt encBE32_less [of h "of_nat m"] by (simp add: h not_less [symmetric] word_less_nat_alt unat_of_nat_u32)
  then have "unat h = m" using h(2) Suc by simp
  then have "h = of_nat m" by (rule word_of_unat)
  then show ?thesis using l h by (simp add: getChainHeight_def Suc)
qed

end
