(* ===== verification/Block_Store.thy ===== *)
theory Block_Store
  imports Chain_DB Tx_Extra Pq_Validation
begin

text \<open>
  How a block reaches the tables and leaves them again: \<open>pushTransaction\<close>, the inner
  \<open>pushBlock\<close>, \<open>popTransaction\<close>, \<open>transactionByIndex\<close> and \<open>removeLastBlock\<close> of
  src/src/CryptoNoteCore/Blockchain.cpp.  \<open>sha3\<close> is SHA3-256 and \<open>H\<close> is cn_fast_hash.  The
  specification is a list of stored blocks: storing appends one, removing the last block drops it
  and restores every table byte for byte.
\<close>

record TransactionEntry =
  te_tx :: Transaction
  m_global_output_indexes :: "u32 list"

record BlockEntry =
  be_bl :: Block
  be_height :: u32
  block_cumulative_size :: u64
  cumulative_difficulty :: u64
  already_generated_coins :: u64
  be_transactions :: "TransactionEntry list"

section \<open>Operations\<close>

definition object_bytes :: "('a \<Rightarrow> writer) \<Rightarrow> 'a \<Rightarrow> bytes" where
  "object_bytes e x = snd (toBinaryArray e x)"

definition object_hash :: "(bytes \<Rightarrow> hash) \<Rightarrow> ('a \<Rightarrow> writer) \<Rightarrow> 'a \<Rightarrow> hash" where
  "object_hash H e x = snd (getObjectHash H e x)"

definition pqInputNullifierAsKeyImage :: "(bytes \<Rightarrow> hash) \<Rightarrow> PqInput \<Rightarrow> hash" where
  "pqInputNullifierAsKeyImage sha3 p = pqNullifier sha3 p"

definition spendImageForInput :: "(bytes \<Rightarrow> hash) \<Rightarrow> TransactionInput \<Rightarrow> hash option" where
  "spendImageForInput sha3 i = (case i of InPq p \<Rightarrow> Some (pqInputNullifierAsKeyImage sha3 p) | InBase _ \<Rightarrow> None)"

text \<open>The loop over the inputs; \<open>prev\<close> are the images already written for this transaction.\<close>

fun push_images :: "(bytes \<Rightarrow> hash) \<Rightarrow> u32 \<Rightarrow> TransactionInput list \<Rightarrow> hash list \<Rightarrow> tables \<Rightarrow> bool \<times> tables" where
  "push_images sha3 height [] prev t = (True, t)"
| "push_images sha3 height (i # is) prev t =
     (case spendImageForInput sha3 i of
        None \<Rightarrow> push_images sha3 height is prev t
      | Some img \<Rightarrow>
          if hasSpentKey t img then (False, fold (\<lambda>k t. snd (removeSpentKey k t)) prev t)
          else push_images sha3 height is (prev @ [img]) (putSpentKey img height t))"

definition resize_indexes :: "nat \<Rightarrow> u32 list \<Rightarrow> u32 list" where
  "resize_indexes n g = take n g @ replicate (n - length g) 0"

text \<open>\<open>[u32 tx_size][tx_blob][u32 num_gidx][u32 gidx...]\<close>\<close>

definition entry_bytes :: "Transaction \<Rightarrow> u32 list \<Rightarrow> bytes" where
  "entry_bytes tx gidx =
     (let txBlob = object_bytes put_Transaction tx;
          txSize = of_nat (length txBlob) :: u32;
          numGidx = of_nat (length gidx) :: u32
      in le_bytes 4 txSize @ take (unat txSize) txBlob @ le_bytes 4 numGidx @ concat (map (le_bytes 4) gidx))"

definition push_entry ::
  "(bytes \<Rightarrow> hash) \<Rightarrow> u32 \<Rightarrow> TransactionEntry \<Rightarrow> hash \<Rightarrow> u16 \<Rightarrow> tables \<Rightarrow> bool \<times> tables" where
  "push_entry sha3 height te transactionHash slot t =
     (if getTxIndex t transactionHash \<noteq> None then (False, t)
      else
        let tx = te_tx te in
        case push_images sha3 height (inputs tx) [] t of
          (False, t1) \<Rightarrow> (False, t1)
        | (True, t1) \<Rightarrow>
            let gidx = resize_indexes (length (outputs tx)) (m_global_output_indexes te);
                t2 = putTxIndex transactionHash height slot t1;
                t3 = (case getPaymentIdFromTxExtra (extra tx) of
                        None \<Rightarrow> t2 | Some paymentId \<Rightarrow> putPaymentId paymentId transactionHash t2)
            in case (if slot \<noteq> 0 then getPqAccountRegistrationFromExtra (extra tx) else None) of
                 None \<Rightarrow> (True, putTxEntry height slot (entry_bytes tx gidx) t3)
               | Some (viewPub, spendPub) \<Rightarrow>
                   let accountId = getPqAccountIdentityHash sha3 viewPub spendPub in
                   if hasPqAcctReg t3 accountId then (False, t3)
                   else (True, putTxEntry height slot (entry_bytes tx gidx)
                                 (putPqAcctReg accountId height (ucast slot) t3)))"

definition pushTransaction ::
  "(bytes \<Rightarrow> hash) \<Rightarrow> BlockEntry \<Rightarrow> hash \<Rightarrow> u16 \<Rightarrow> tables \<Rightarrow> bool \<times> tables" where
  "pushTransaction sha3 block transactionHash slot t =
     push_entry sha3 (be_height block) (be_transactions block ! unat slot) transactionHash slot t"

definition popTransaction :: "(bytes \<Rightarrow> hash) \<Rightarrow> Transaction \<Rightarrow> hash \<Rightarrow> tables \<Rightarrow> tables" where
  "popTransaction sha3 tx transactionHash t =
     (let t1 = fold (\<lambda>i t. case spendImageForInput sha3 i of None \<Rightarrow> t | Some img \<Rightarrow> snd (removeSpentKey img t))
                 (inputs tx) t;
          t2 = (case getPaymentIdFromTxExtra (extra tx) of
                  None \<Rightarrow> t1 | Some paymentId \<Rightarrow> snd (removePaymentId paymentId transactionHash t1));
          t3 = (case getPqAccountRegistrationFromExtra (extra tx) of
                  None \<Rightarrow> t2
                | Some (viewPub, spendPub) \<Rightarrow> snd (removePqAcctReg (getPqAccountIdentityHash sha3 viewPub spendPub) t2))
      in snd (removeTxIndex transactionHash t3))"

definition popTransactions :: "(bytes \<Rightarrow> hash) \<Rightarrow> BlockEntry \<Rightarrow> hash \<Rightarrow> tables \<Rightarrow> tables" where
  "popTransactions sha3 block minerTransactionHash t =
     popTransaction sha3 (baseTransaction (be_bl block)) minerTransactionHash
       (fold (\<lambda>ri. popTransaction sha3 (te_tx (be_transactions block ! ri)) (transactionHashes (be_bl block) ! (ri - 1)))
          (rev [1..<length (be_transactions block)]) t)"

text \<open>
  The number of indexes is taken from the record without a bound check: a count beyond the record
  makes the source read past the buffer, where the definition reads no bytes.  Records written by
  \<open>pushTransaction\<close> carry as many indexes as they announce (\<open>transactionByIndex_ok\<close> below).
\<close>

definition transactionByIndex :: "tables \<Rightarrow> u32 \<Rightarrow> u16 \<Rightarrow> TransactionEntry res" where
  "transactionByIndex t block slot =
     (case getTxEntry t block slot of
        None \<Rightarrow> Inl ''transactionByIndex: entry not found''
      | Some raw \<Rightarrow>
          if length raw < 4 then Inl ''transactionByIndex: corrupt entry (too small for tx_size)''
          else
            let txSize = unat (le_value (take 4 raw) :: u32);
                p = drop 4 raw
            in if length raw < 4 + txSize + 4 then Inl ''transactionByIndex: corrupt entry (truncated)''
               else case fromBinaryArray get_Transaction (take txSize p) of
                      None \<Rightarrow> Inl ''transactionByIndex: tx deserialize failed''
                    | Some tx \<Rightarrow>
                        let q = drop txSize p;
                            numGidx = unat (le_value (take 4 q) :: u32)
                        in Inr \<lparr>te_tx = tx, m_global_output_indexes =
                             map (\<lambda>i. le_value (take 4 (drop (4 + 4 * i) q))) [0..<numGidx]\<rparr>)"

definition entry_meta :: "BlockEntry \<Rightarrow> hash \<Rightarrow> DbBlockMeta" where
  "entry_meta block blockHash = \<lparr>meta_hash = blockHash,
     meta_prevHash = (if 0 < be_height block then previousBlockHash (be_bl block) else NULL_HASH),
     meta_timestamp = timestamp (be_bl block),
     meta_cumulativeDifficulty = cumulative_difficulty block,
     meta_alreadyGeneratedCoins = already_generated_coins block,
     meta_blockCumulativeSize = ucast (block_cumulative_size block),
     meta_height = be_height block,
     meta_txCount = of_nat (length (be_transactions block)),
     meta_majorVersion = majorVersion (be_bl block), meta_minorVersion = minorVersion (be_bl block)\<rparr>"

definition pushBlock_entry :: "BlockEntry \<Rightarrow> hash \<Rightarrow> tables \<Rightarrow> tables" where
  "pushBlock_entry block blockHash t =
     (let height = be_height block;
          t1 = putBlockMeta height (entry_meta block blockHash) t;
          t2 = putBlockData height (object_bytes put_Block (be_bl block)) t1;
          t3 = putHashHeight blockHash height t2;
          t4 = putTimestamp (timestamp (be_bl block)) blockHash t3;
          prevGenTx = (if 0 < height then (case getGeneratedTxCount t4 (height - 1) of None \<Rightarrow> 0 | Some n \<Rightarrow> n) else 0);
          newGenTx = prevGenTx + of_nat (length (transactionHashes (be_bl block))) + 1
      in putGeneratedTxCount height newGenTx t4)"

fun read_entries :: "(bytes \<Rightarrow> hash) \<Rightarrow> tables \<Rightarrow> u32 \<Rightarrow> Block \<Rightarrow> nat list \<Rightarrow> (hash \<times> Transaction) list res" where
  "read_entries H t height blk [] = Inr []"
| "read_entries H t height blk (i # is) =
     (case transactionByIndex t height (of_nat i) of
        Inl e \<Rightarrow> Inl e
      | Inr te \<Rightarrow>
          let txHash = (if i = 0 then object_hash H put_Transaction (baseTransaction blk)
                        else transactionHashes blk ! (i - 1))
          in case read_entries H t height blk is of Inl e \<Rightarrow> Inl e | Inr r \<Rightarrow> Inr ((txHash, te_tx te) # r))"

definition removeLastBlock :: "(bytes \<Rightarrow> hash) \<Rightarrow> (bytes \<Rightarrow> hash) \<Rightarrow> tables \<Rightarrow> tables res" where
  "removeLastBlock sha3 H t =
     (let chainHeight = getChainHeight t in
      if chainHeight = 0 then Inr t
      else
        let height = chainHeight - 1 in
        case getBlockMeta t height of
          None \<Rightarrow> Inr t
        | Some meta \<Rightarrow>
            (case getBlockData t height of
               None \<Rightarrow> Inr t
             | Some bdata \<Rightarrow>
                 (case fromBinaryArray get_Block bdata of
                    None \<Rightarrow> Inr t
                  | Some blk \<Rightarrow>
                      (case read_entries H t height blk [0..<unat (meta_txCount meta)] of
                         Inl e \<Rightarrow> Inl e
                       | Inr txToRemove \<Rightarrow>
                           let t1 = fold (\<lambda>(txHash, tx). popTransaction sha3 tx txHash) (rev txToRemove) t;
                               t2 = removeTxEntriesForBlock height (meta_txCount meta) t1;
                               t3 = snd (removeBlockData height t2);
                               t4 = snd (removeHashHeight (meta_hash meta) t3);
                               t5 = snd (removeGeneratedTxCount height t4);
                               t6 = snd (removeTimestamp (meta_timestamp meta) (meta_hash meta) t5)
                           in Inr (snd (removeLastBlockMeta t6))))))"

text \<open>All transactions of a block in slot order, then the block record.\<close>

fun push_entries ::
  "(bytes \<Rightarrow> hash) \<Rightarrow> u32 \<Rightarrow> u16 \<Rightarrow> (hash \<times> TransactionEntry) list \<Rightarrow> tables \<Rightarrow> bool \<times> tables" where
  "push_entries sha3 height slot [] t = (True, t)"
| "push_entries sha3 height slot ((txHash, te) # es) t =
     (case push_entry sha3 height te txHash slot t of
        (False, t1) \<Rightarrow> (False, t1)
      | (True, t1) \<Rightarrow> push_entries sha3 height (slot + 1) es t1)"

definition entry_list :: "(bytes \<Rightarrow> hash) \<Rightarrow> BlockEntry \<Rightarrow> (hash \<times> TransactionEntry) list" where
  "entry_list H block = zip (object_hash H put_Transaction (baseTransaction (be_bl block)) #
     transactionHashes (be_bl block)) (be_transactions block)"

definition store_block :: "(bytes \<Rightarrow> hash) \<Rightarrow> (bytes \<Rightarrow> hash) \<Rightarrow> BlockEntry \<Rightarrow> hash \<Rightarrow> tables \<Rightarrow> tables option" where
  "store_block sha3 H block blockHash t =
     (case push_entries sha3 (be_height block) 0 (entry_list H block) t of
        (False, _) \<Rightarrow> None
      | (True, t1) \<Rightarrow> Some (pushBlock_entry block blockHash t1))"

section \<open>Storing and removing one transaction\<close>

definition spend_images :: "(bytes \<Rightarrow> hash) \<Rightarrow> Transaction \<Rightarrow> hash list" where
  "spend_images sha3 tx = List.map_filter (spendImageForInput sha3) (inputs tx)"

definition account_of :: "(bytes \<Rightarrow> hash) \<Rightarrow> Transaction \<Rightarrow> hash option" where
  "account_of sha3 tx = map_option (\<lambda>(v, s). getPqAccountIdentityHash sha3 v s) (getPqAccountRegistrationFromExtra (extra tx))"

definition payment_of :: "Transaction \<Rightarrow> hash option" where
  "payment_of tx = getPaymentIdFromTxExtra (extra tx)"

definition slot_account :: "(bytes \<Rightarrow> hash) \<Rightarrow> u16 \<Rightarrow> Transaction \<Rightarrow> hash option" where
  "slot_account sha3 slot tx = (if slot = 0 then None else account_of sha3 tx)"

lemma map_filter_Cons:
  "List.map_filter f (x # xs) = (case f x of None \<Rightarrow> List.map_filter f xs | Some y \<Rightarrow> y # List.map_filter f xs)"
  by (auto simp: List.map_filter_def split: option.splits)

lemma push_images_True:
  "push_images sha3 h is prev t = (True, t') \<longleftrightarrow>
     (let imgs = List.map_filter (spendImageForInput sha3) is in
      distinct imgs \<and> (\<forall>k \<in> set imgs. k \<notin> keys (spent_keys t)) \<and>
      t' = t\<lparr>spent_keys := fold (\<lambda>k. mdb_put k (encBE32 h)) imgs (spent_keys t)\<rparr>)"
proof (induction "is" arbitrary: prev t)
  case (Cons i "is")
  show ?case
  proof (cases "spendImageForInput sha3 i")
    case None
    then show ?thesis using Cons by (simp add: map_filter_Cons)
  next
    case (Some img)
    then show ?thesis
      using Cons [of "prev @ [img]" "putSpentKey img h t"]
      by (auto simp: map_filter_Cons Let_def hasSpentKey_def get_None_keys putSpentKey_def)
  qed
qed (auto simp: List.map_filter_def)

text \<open>What a successful push requires and what it writes.\<close>

definition put_option :: "('a \<Rightarrow> ('k::linorder, 'v) table \<Rightarrow> ('k, 'v) table) \<Rightarrow> 'a option \<Rightarrow> ('k, 'v) table \<Rightarrow> ('k, 'v) table" where
  "put_option f x t = (case x of None \<Rightarrow> t | Some a \<Rightarrow> f a t)"

lemma put_option_simps [simp]: "put_option f None t = t" "put_option f (Some a) t = f a t"
  by (simp_all add: put_option_def)

lemma push_entry_True:
  "push_entry sha3 h te txHash slot t = (True, t') \<longleftrightarrow>
     txHash \<notin> keys (tx_indices t) \<and> distinct (spend_images sha3 (te_tx te)) \<and>
     set (spend_images sha3 (te_tx te)) \<inter> keys (spent_keys t) = {} \<and>
     (\<forall>a. slot_account sha3 slot (te_tx te) = Some a \<longrightarrow> a \<notin> keys (pq_acct_reg t)) \<and>
     t' = t\<lparr>spent_keys := fold (\<lambda>k. mdb_put k (encBE32 h)) (spend_images sha3 (te_tx te)) (spent_keys t),
            tx_indices := mdb_put txHash (encBE32 h @ encBE16 slot) (tx_indices t),
            payment_id_idx := put_option (\<lambda>p. mdb_put (p, txHash) ()) (payment_of (te_tx te)) (payment_id_idx t),
            pq_acct_reg := put_option (\<lambda>a. mdb_put a (encBE32 h @ encBE32 (ucast slot))) (slot_account sha3 slot (te_tx te)) (pq_acct_reg t),
            tx_entries := mdb_put (encBE32 h @ encBE16 slot)
              (entry_bytes (te_tx te) (resize_indexes (length (outputs (te_tx te))) (m_global_output_indexes te))) (tx_entries t)\<rparr>"
proof (cases "txHash \<in> keys (tx_indices t)")
  case True
  then show ?thesis by (auto simp: push_entry_def getTxIndex_def get_None_keys)
next
  case False
  then have fresh: "mdb_get txHash (tx_indices t) = None" by (simp add: get_None_keys)
  let ?imgs = "spend_images sha3 (te_tx te)"
  let ?t1 = "t\<lparr>spent_keys := fold (\<lambda>k. mdb_put k (encBE32 h)) ?imgs (spent_keys t)\<rparr>"
  show ?thesis
  proof (cases "distinct ?imgs \<and> set ?imgs \<inter> keys (spent_keys t) = {}")
    case True
    then have "push_images sha3 h (inputs (te_tx te)) [] t = (True, ?t1)"
      by (auto simp: push_images_True spend_images_def Let_def)
    then show ?thesis
      using True fresh False
      by (auto simp: push_entry_def db_get_defs db_put_defs get_None_keys payment_of_def slot_account_def
          account_of_def Let_def split: option.splits prod.splits)
  next
    case no: False
    have "fst (push_images sha3 h (inputs (te_tx te)) [] t) = False"
    proof (rule ccontr)
      assume "\<not> ?thesis"
      then have "push_images sha3 h (inputs (te_tx te)) [] t = (True, snd (push_images sha3 h (inputs (te_tx te)) [] t))"
        by (simp add: prod_eq_iff)
      then show False using no by (auto simp: push_images_True spend_images_def Let_def)
    qed
    then have "\<exists>u. push_entry sha3 h te txHash slot t = (False, u)"
      using fresh by (auto simp: push_entry_def getTxIndex_def Let_def split: prod.splits bool.splits)
    then show ?thesis using no by auto
  qed
qed

text \<open>The four tables a transaction's indexes live in.\<close>

definition tx_core :: "tables \<Rightarrow> (bytes, bytes) table \<times> (bytes \<times> bytes, unit) table \<times> (bytes, bytes) table \<times> (bytes, bytes) table" where
  "tx_core t = (spent_keys t, payment_id_idx t, pq_acct_reg t, tx_indices t)"

definition payments_ok :: "tables \<Rightarrow> bool" where
  "payments_ok t \<longleftrightarrow> keys (payment_id_idx t) \<subseteq> {k. snd k \<in> keys (tx_indices t)}"

lemma pop_images:
  "fold (\<lambda>i t. case spendImageForInput sha3 i of None \<Rightarrow> t | Some img \<Rightarrow> snd (removeSpentKey img t)) is t =
     t\<lparr>spent_keys := fold mdb_del (List.map_filter (spendImageForInput sha3) is) (spent_keys t)\<rparr>"
  by (induction "is" arbitrary: t) (auto simp: map_filter_Cons removeSpentKey_def List.map_filter_def split: option.splits)

lemma popTransaction_eq:
  "popTransaction sha3 tx txHash t = t\<lparr>
     spent_keys := fold mdb_del (spend_images sha3 tx) (spent_keys t),
     payment_id_idx := put_option (\<lambda>p. mdb_del (p, txHash)) (payment_of tx) (payment_id_idx t),
     pq_acct_reg := put_option mdb_del (account_of sha3 tx) (pq_acct_reg t),
     tx_indices := mdb_del txHash (tx_indices t)\<rparr>"
  by (auto simp: popTransaction_def pop_images db_remove_defs spend_images_def payment_of_def account_of_def Let_def
      split: option.splits prod.splits)

lemma tx_core_pop:
  "tx_core u = tx_core t \<Longrightarrow> tx_core (popTransaction sha3 tx txHash u) = tx_core (popTransaction sha3 tx txHash t)"
  by (simp add: tx_core_def popTransaction_eq)

lemma pop_undoes_push:
  assumes push: "push_entry sha3 h te txHash slot t = (True, t')"
    and ok: "tables_ok t" "payments_ok t" and reg: "slot = 0 \<Longrightarrow> account_of sha3 (te_tx te) = None"
  shows "tx_core (popTransaction sha3 (te_tx te) txHash t') = tx_core t"
proof -
  let ?imgs = "spend_images sha3 (te_tx te)"
  note p = push [unfolded push_entry_True]
  have "fold mdb_del ?imgs (fold (\<lambda>k. mdb_put k (encBE32 h)) ?imgs (spent_keys t)) = spent_keys t"
    unfolding puts_const using p ok(1) by (intro kv.dels_puts) (auto simp: get_None_keys tables_ok_def image_image)
  moreover have "mdb_get (q, txHash) (payment_id_idx t) = None" for q
    using p ok(2) by (auto simp: get_None_keys payments_ok_def)
  ultimately show ?thesis
    using p ok(1) reg
    by (cases "slot = 0"; cases "payment_of (te_tx te)"; cases "account_of sha3 (te_tx te)")
      (auto simp: popTransaction_eq tx_core_def kv.del_put get_None_keys tables_ok_def slot_account_def)
qed

lemma tables_ok_push: "push_entry sha3 h te txHash slot t = (True, t') \<Longrightarrow> tables_ok t \<Longrightarrow> tables_ok t'"
  by (auto simp: push_entry_True tables_ok_def table_ok_put put_option_def puts_const kv.puts_ok split: option.splits)

lemma payments_ok_push: "push_entry sha3 h te txHash slot t = (True, t') \<Longrightarrow> payments_ok t \<Longrightarrow> payments_ok t'"
  by (auto simp: push_entry_True payments_ok_def put_option_def split: option.splits)

section \<open>Storing and removing the transactions of a block\<close>

definition pop_list :: "(bytes \<Rightarrow> hash) \<Rightarrow> (hash \<times> Transaction) list \<Rightarrow> tables \<Rightarrow> tables" where
  "pop_list sha3 es = fold (\<lambda>(txHash, tx). popTransaction sha3 tx txHash) (rev es)"

abbreviation tx_list :: "(hash \<times> TransactionEntry) list \<Rightarrow> (hash \<times> Transaction) list" where
  "tx_list \<equiv> map (\<lambda>(txHash, te). (txHash, te_tx te))"

lemma pop_list_Cons: "pop_list sha3 ((txHash, tx) # es) t = popTransaction sha3 tx txHash (pop_list sha3 es t)"
  by (simp add: pop_list_def)

lemma pop_list_fields [simp]:
  "block_meta (pop_list sha3 es t) = block_meta t" "block_data (pop_list sha3 es t) = block_data t"
  "tx_entries (pop_list sha3 es t) = tx_entries t" "hash_to_height (pop_list sha3 es t) = hash_to_height t"
  "timestamp_idx (pop_list sha3 es t) = timestamp_idx t" "gen_tx_idx (pop_list sha3 es t) = gen_tx_idx t"
  by (induction es) (auto simp: pop_list_Cons popTransaction_eq, simp_all add: pop_list_def)

lemma slot_next: "unat (slot :: u16) + Suc n \<le> 65536 \<Longrightarrow> 0 < n \<Longrightarrow> unat (slot + 1) = unat slot + 1"
  by (subst unat_add_exact) simp_all

lemma push_entries_Cons_True:
  "push_entries sha3 h slot ((txHash, te) # es) t = (True, t') \<longleftrightarrow>
     (\<exists>t1. push_entry sha3 h te txHash slot t = (True, t1) \<and> push_entries sha3 h (slot + 1) es t1 = (True, t'))"
  by (auto split: prod.splits bool.splits)

declare push_entries.simps(2) [simp del]

lemma push_entries_undo:
  assumes "push_entries sha3 h slot es t = (True, t')" and "tables_ok t" "payments_ok t"
    and "unat slot + length es \<le> 65536"
    and "slot = 0 \<Longrightarrow> es \<noteq> [] \<Longrightarrow> account_of sha3 (te_tx (snd (hd es))) = None"
    and "tx_core u = tx_core t'"
  shows "tx_core (pop_list sha3 (tx_list es) u) = tx_core t"
  using assms
proof (induction es arbitrary: slot t)
  case (Cons e es)
  obtain txHash te where e: "e = (txHash, te)" by (cases e)
  obtain t1 where t1: "push_entry sha3 h te txHash slot t = (True, t1)" "push_entries sha3 h (slot + 1) es t1 = (True, t')"
    using Cons.prems(1) by (auto simp: e push_entries_Cons_True)
  have nz: "slot + 1 \<noteq> 0" if "es \<noteq> []"
    using slot_next [of slot "length es"] that Cons.prems(4) by (auto simp: unat_eq_0 [symmetric])
  have "tx_core (pop_list sha3 (tx_list es) u) = tx_core t1"
  proof (cases "es = []")
    case True
    then show ?thesis using t1 Cons.prems(6) by (simp add: pop_list_def)
  next
    case False
    then show ?thesis
      using t1 tables_ok_push [OF t1(1) Cons.prems(2)] payments_ok_push [OF t1(1) Cons.prems(3)] Cons.prems(4,6) nz
        slot_next [of slot "length es"]
      by (intro Cons.IH) auto
  qed
  then have "tx_core (popTransaction sha3 (te_tx te) txHash (pop_list sha3 (tx_list es) u))
      = tx_core (popTransaction sha3 (te_tx te) txHash t1)" by (rule tx_core_pop)
  also have "\<dots> = tx_core t" using Cons.prems(2,3,5) by (intro pop_undoes_push [OF t1(1)]) (auto simp: e)
  finally show ?case by (simp add: e pop_list_Cons)
qed (simp add: pop_list_def)

lemma tables_ok_pushes: "push_entries sha3 h slot es t = (True, t') \<Longrightarrow> tables_ok t \<Longrightarrow> tables_ok t'"
  by (induction es arbitrary: slot t) (auto simp: push_entries_Cons_True, metis tables_ok_push)

lemma payments_ok_pushes: "push_entries sha3 h slot es t = (True, t') \<Longrightarrow> payments_ok t \<Longrightarrow> payments_ok t'"
  by (induction es arbitrary: slot t) (auto simp: push_entries_Cons_True, metis payments_ok_push)

lemma push_entries_fields:
  "push_entries sha3 h slot es t = (True, t') \<Longrightarrow> block_meta t' = block_meta t \<and> block_data t' = block_data t \<and>
     hash_to_height t' = hash_to_height t \<and> timestamp_idx t' = timestamp_idx t \<and> gen_tx_idx t' = gen_tx_idx t"
proof (induction es arbitrary: slot t)
  case (Cons e es)
  then show ?case by (cases e) (fastforce simp: push_entries_Cons_True push_entry_True)
qed simp

definition record_bytes :: "TransactionEntry \<Rightarrow> bytes" where
  "record_bytes te = entry_bytes (te_tx te) (resize_indexes (length (outputs (te_tx te))) (m_global_output_indexes te))"

definition entry_records :: "u32 \<Rightarrow> u16 \<Rightarrow> (hash \<times> TransactionEntry) list \<Rightarrow> (bytes \<times> bytes) list" where
  "entry_records h slot es = map (\<lambda>i. (encBE32 h @ encBE16 (slot + of_nat i), record_bytes (snd (es ! i)))) [0..<length es]"

lemma entry_records_Cons:
  "entry_records h slot (e # es) = (encBE32 h @ encBE16 slot, record_bytes (snd e)) # entry_records h (slot + 1) es"
proof -
  have "[0..<Suc (length es)] = 0 # map Suc [0..<length es]" by (simp add: map_Suc_upt upt_conv_Cons del: upt_Suc)
  then show ?thesis by (simp add: entry_records_def add.assoc del: upt_Suc)
qed

lemma push_entries_records:
  "push_entries sha3 h slot es t = (True, t') \<Longrightarrow>
   tx_entries t' = fold (\<lambda>(k, v). mdb_put k v) (entry_records h slot es) (tx_entries t)"
proof (induction es arbitrary: slot t)
  case (Cons e es)
  then show ?case
    by (cases e) (auto simp: entry_records_Cons push_entries_Cons_True push_entry_True record_bytes_def)
qed (simp add: entry_records_def)

lemma slots_distinct:
  assumes "n \<le> 65536" and "i < n" "j < n" and "(of_nat i :: u16) = of_nat j"
  shows "i = j"
proof -
  have "i < 2 ^ LENGTH(16)" "j < 2 ^ LENGTH(16)" using assms(1,2,3) by simp_all
  then show ?thesis using assms(4) by (metis of_nat_inverse)
qed

lemma record_lookup:
  assumes "table_ok T" and "length es \<le> 65536" and "i < length es"
  shows "mdb_get (encBE32 h @ encBE16 (slot + of_nat i)) (fold (\<lambda>(k, v). mdb_put k v) (entry_records h slot es) T)
           = Some (record_bytes (snd (es ! i)))"
proof -
  have d: "distinct (map fst (rev (entry_records h slot es)))"
    unfolding entry_records_def rev_map map_map
    by (auto simp: distinct_map inj_on_def dest: slots_distinct [OF assms(2)])
  have "(encBE32 h @ encBE16 (slot + of_nat i), record_bytes (snd (es ! i))) \<in> set (rev (entry_records h slot es))"
    using assms(3) by (auto simp: entry_records_def)
  then have "map_of (rev (entry_records h slot es)) (encBE32 h @ encBE16 (slot + of_nat i)) = Some (record_bytes (snd (es ! i)))"
    using d by (intro map_of_is_SomeI)
  then show ?thesis by (simp add: kv.get_puts [OF assms(1)])
qed

section \<open>Reading a stored transaction back\<close>

definition entry_fits :: "TransactionEntry \<Rightarrow> bool" where
  "entry_fits te \<longleftrightarrow> tx_ok (te_tx te) \<and> length (object_bytes put_Transaction (te_tx te)) < 2 ^ 32 \<and>
     length (outputs (te_tx te)) < 2 ^ 32"

lemma length_resize [simp]: "length (resize_indexes n g) = n"
  by (simp add: resize_indexes_def)

lemma length_gidx_bytes: "length (concat (map (le_bytes 4) (g :: u32 list))) = 4 * length g"
  by (induction g) simp_all

lemma gidx_nth:
  "i < length g \<Longrightarrow> le_value (take 4 (drop (4 * i) (concat (map (le_bytes 4) (g :: u32 list))))) = g ! i"
proof (induction g arbitrary: i)
  case (Cons x g)
  then show ?case by (cases i) simp_all
qed simp

lemma transactionByIndex_ok:
  assumes "getTxEntry t h s = Some (record_bytes te)" and fits: "entry_fits te"
  shows "transactionByIndex t h s = Inr \<lparr>te_tx = te_tx te, m_global_output_indexes =
           resize_indexes (length (outputs (te_tx te))) (m_global_output_indexes te)\<rparr>"
proof -
  define b where "b = object_bytes put_Transaction (te_tx te)"
  define g where "g = resize_indexes (length (outputs (te_tx te))) (m_global_output_indexes te)"
  define gs where "gs = concat (map (le_bytes 4) g)"
  have len: "unat (of_nat (length b) :: u32) = length b" "unat (of_nat (length g) :: u32) = length g"
    using fits by (simp_all add: entry_fits_def b_def g_def unat_of_nat_u32)
  have raw: "record_bytes te = le_bytes 4 (of_nat (length b) :: u32) @ b @ le_bytes 4 (of_nat (length g) :: u32) @ gs"
    unfolding record_bytes_def entry_bytes_def Let_def b_def [symmetric] g_def [symmetric] gs_def [symmetric]
    using len(1) by simp
  have "fromBinaryArray get_Transaction b = Some (te_tx te)"
    using fits tx_codec.enc_ok by (simp add: tx_codec.fromBinaryArray_iff entry_fits_def b_def object_bytes_def toBinaryArray_def)
  moreover have "map (\<lambda>i. le_value (take 4 (drop (4 * i) gs))) [0..<length g] = g"
    by (rule nth_equalityI) (simp_all add: gs_def gidx_nth)
  ultimately show ?thesis
    using assms(1) len by (simp add: transactionByIndex_def raw Let_def g_def [symmetric])
qed

section \<open>Storing and removing a block\<close>

text \<open>What validation guarantees of a block entry before it is written at height \<open>n\<close>.\<close>

definition storable :: "(bytes \<Rightarrow> hash) \<Rightarrow> nat \<Rightarrow> BlockEntry \<Rightarrow> hash \<Rightarrow> bool" where
  "storable sha3 n block blockHash \<longleftrightarrow> be_height block = of_nat n \<and> Suc n < 2 ^ 32 \<and>
     length blockHash = HASH_SIZE \<and> block_ok (be_bl block) \<and>
     length (be_transactions block) = Suc (length (transactionHashes (be_bl block))) \<and>
     length (be_transactions block) < 2 ^ 16 \<and>
     te_tx (hd (be_transactions block)) = baseTransaction (be_bl block) \<and>
     list_all entry_fits (be_transactions block) \<and>
     account_of sha3 (baseTransaction (be_bl block)) = None"

abbreviation stored_hash :: "(bytes \<Rightarrow> hash) \<Rightarrow> Block \<Rightarrow> nat \<Rightarrow> hash" where
  "stored_hash H blk i \<equiv> if i = 0 then object_hash H put_Transaction (baseTransaction blk) else transactionHashes blk ! (i - 1)"

lemma read_entries_map:
  "(\<And>i. i \<in> set is \<Longrightarrow> \<exists>te. transactionByIndex t h (of_nat i) = Inr te \<and> te_tx te = te_tx (es ! i)) \<Longrightarrow>
   read_entries H t h blk is = Inr (map (\<lambda>i. (stored_hash H blk i, te_tx (es ! i))) is)"
proof (induction "is")
  case (Cons i "is")
  obtain te where "transactionByIndex t h (of_nat i) = Inr te" "te_tx te = te_tx (es ! i)"
    using Cons.prems [of i] by auto
  moreover have "read_entries H t h blk is = Inr (map (\<lambda>i. (stored_hash H blk i, te_tx (es ! i))) is)"
    by (rule Cons.IH) (simp add: Cons.prems)
  ultimately show ?case by (simp add: Let_def)
qed simp

lemma entry_list_nth:
  assumes "length (be_transactions block) = Suc (length (transactionHashes (be_bl block)))"
  shows "tx_list (entry_list H block) =
           map (\<lambda>i. (stored_hash H (be_bl block) i, te_tx (be_transactions block ! i))) [0..<length (be_transactions block)]"
    and "length (entry_list H block) = length (be_transactions block)"
    and "i < length (be_transactions block) \<Longrightarrow> snd (entry_list H block ! i) = be_transactions block ! i"
proof -
  show len: "length (entry_list H block) = length (be_transactions block)" using assms by (simp add: entry_list_def)
  show "snd (entry_list H block ! i) = be_transactions block ! i" if "i < length (be_transactions block)"
    using assms that by (simp add: entry_list_def)
  show "tx_list (entry_list H block) =
      map (\<lambda>i. (stored_hash H (be_bl block) i, te_tx (be_transactions block ! i))) [0..<length (be_transactions block)]"
    by (rule nth_equalityI) (use assms len in \<open>simp_all add: entry_list_def nth_Cons' del: upt_Suc\<close>)
qed

lemma pushBlock_entry_eq:
  "\<exists>count. pushBlock_entry block bh t = t\<lparr>
     block_meta := mdb_put (encBE32 (be_height block)) (meta_bytes (entry_meta block bh)) (block_meta t),
     block_data := mdb_put (encBE32 (be_height block)) (object_bytes put_Block (be_bl block)) (block_data t),
     hash_to_height := mdb_put bh (encBE32 (be_height block)) (hash_to_height t),
     timestamp_idx := mdb_put (encBE64 (timestamp (be_bl block)) @ bh) () (timestamp_idx t),
     gen_tx_idx := mdb_put (encBE32 (be_height block)) (encBE64 count) (gen_tx_idx t)\<rparr>"
  by (simp add: pushBlock_entry_def db_put_defs Let_def) blast

lemma tx_entries_undo:
  assumes ok: "table_ok T" and len: "length es < 2 ^ 16"
    and fresh: "\<And>s. encBE32 h @ encBE16 s \<notin> keys T"
  shows "fold (\<lambda>i. mdb_del (encBE32 h @ encBE16 (of_nat i))) [0..<length es]
           (fold (\<lambda>(k, v). mdb_put k v) (entry_records h 0 es) T) = T"
proof -
  let ?ks = "map (\<lambda>i. encBE32 h @ encBE16 (of_nat i)) [0..<length es]"
  have "fold (\<lambda>i. mdb_del (encBE32 h @ encBE16 (of_nat i))) [0..<length es] X = fold mdb_del ?ks X" for X :: "(bytes, bytes) table"
    by (simp add: fold_map comp_def)
  moreover have "fold mdb_del ?ks (fold (\<lambda>(k, v). mdb_put k v) (entry_records h 0 es) T) = T"
    by (rule kv.dels_puts) (auto simp: ok get_None_keys fresh entry_records_def image_image)
  ultimately show ?thesis by simp
qed

lemma store_block_Some:
  "store_block sha3 H block bh t = Some t' \<longleftrightarrow>
     (\<exists>t1. push_entries sha3 (be_height block) 0 (entry_list H block) t = (True, t1) \<and> t' = pushBlock_entry block bh t1)"
  by (auto simp: store_block_def split: prod.splits bool.splits)

lemma entry_meta_ok: "storable sha3 n block bh \<Longrightarrow> meta_ok (entry_meta block bh)"
  by (simp add: storable_def meta_ok_def entry_meta_def block_ok_def header_ok_def size_defs NULL_HASH_def)

lemma stored_entries:
  assumes st: "storable sha3 n block bh" and push: "push_entries sha3 (be_height block) 0 (entry_list H block) t = (True, t1)"
    and ok: "tables_ok t" and u: "tx_entries u = tx_entries t1" and i: "i < length (be_transactions block)"
  shows "transactionByIndex u (be_height block) (of_nat i) = Inr \<lparr>te_tx = te_tx (be_transactions block ! i),
     m_global_output_indexes = resize_indexes (length (outputs (te_tx (be_transactions block ! i))))
       (m_global_output_indexes (be_transactions block ! i))\<rparr>"
proof (rule transactionByIndex_ok)
  have len: "length (be_transactions block) = Suc (length (transactionHashes (be_bl block)))"
    "length (be_transactions block) < 2 ^ 16" using st by (simp_all add: storable_def)
  show "entry_fits (be_transactions block ! i)" using st i by (simp add: storable_def list_all_length)
  show "getTxEntry u (be_height block) (of_nat i) = Some (record_bytes (be_transactions block ! i))"
    using record_lookup [of "tx_entries t" "entry_list H block" i "be_height block" 0] ok i
      entry_list_nth(2) [OF len(1), of H] entry_list_nth(3) [OF len(1) i, of H] len(2)
    by (simp add: getTxEntry_def u push_entries_records [OF push] tables_ok_def)
qed

lemma entry_records_keys:
  "fst ` set (entry_records h slot es) \<subseteq> {encBE32 h @ encBE16 s | s. True}"
  by (auto simp: entry_records_def)

lemma keys_records: "keys (fold (\<lambda>(k, v). mdb_put k v) kvs t) = fst ` set kvs \<union> keys t"
  by (induction kvs arbitrary: t) auto

lemma tx_indices_grow: "push_entries sha3 h slot es t = (True, t') \<Longrightarrow> keys (tx_indices t) \<subseteq> keys (tx_indices t')"
proof (induction es arbitrary: slot t)
  case (Cons e es)
  then show ?case by (cases e) (fastforce simp: push_entries_Cons_True push_entry_True)
qed simp

lemma store_block_cases:
  assumes "store_block sha3 H block bh t = Some t'"
  obtains t1 count where "push_entries sha3 (be_height block) 0 (entry_list H block) t = (True, t1)"
    and "t' = t1\<lparr>
     block_meta := mdb_put (encBE32 (be_height block)) (meta_bytes (entry_meta block bh)) (block_meta t),
     block_data := mdb_put (encBE32 (be_height block)) (object_bytes put_Block (be_bl block)) (block_data t),
     hash_to_height := mdb_put bh (encBE32 (be_height block)) (hash_to_height t),
     timestamp_idx := mdb_put (encBE64 (timestamp (be_bl block)) @ bh) () (timestamp_idx t),
     gen_tx_idx := mdb_put (encBE32 (be_height block)) (encBE64 count) (gen_tx_idx t)\<rparr>"
  using assms that push_entries_fields pushBlock_entry_eq unfolding store_block_Some by metis

lemma store_block_db_ok:
  assumes db: "db_ok n t" and st: "storable sha3 n block bh" and store: "store_block sha3 H block bh t = Some t'"
  shows "db_ok (Suc n) t'"
proof -
  obtain t1 count where push: "push_entries sha3 (be_height block) 0 (entry_list H block) t = (True, t1)"
    and eq: "t' = t1\<lparr>
     block_meta := mdb_put (encBE32 (be_height block)) (meta_bytes (entry_meta block bh)) (block_meta t),
     block_data := mdb_put (encBE32 (be_height block)) (object_bytes put_Block (be_bl block)) (block_data t),
     hash_to_height := mdb_put bh (encBE32 (be_height block)) (hash_to_height t),
     timestamp_idx := mdb_put (encBE64 (timestamp (be_bl block)) @ bh) () (timestamp_idx t),
     gen_tx_idx := mdb_put (encBE32 (be_height block)) (encBE64 count) (gen_tx_idx t)\<rparr>"
    using store by (rule store_block_cases)
  have h: "be_height block = of_nat n" "Suc n < 2 ^ 32" using st by (simp_all add: storable_def)
  have hb: "heights_below (Suc n) = insert (encBE32 (of_nat n)) (heights_below n)" by (rule heights_below_Suc [OF h(2)])
  have tok: "tables_ok t1" "payments_ok t1" using tables_ok_pushes [OF push] payments_ok_pushes [OF push] db
    by (auto simp: db_ok_def payments_ok_def)
  have "keys (tx_entries t1) \<subseteq> {encBE32 (of_nat n) @ encBE16 s | s. True} \<union> keys (tx_entries t)"
    using entry_records_keys [of "of_nat n" 0 "entry_list H block"] by (auto simp: push_entries_records [OF push] keys_records h)
  also have "\<dots> \<subseteq> {k @ encBE16 s | k s. k \<in> heights_below (Suc n)}" using db by (auto simp: db_ok_def hb)
  finally have "keys (tx_entries t') \<subseteq> {k @ encBE16 s | k s. k \<in> heights_below (Suc n)}" by (simp add: eq)
  moreover have "tables_ok t'" using tok(1) db by (auto simp: eq tables_ok_def db_ok_def intro: table_ok_put)
  ultimately show ?thesis using db tok(2) h by (auto simp: db_ok_def eq hb payments_ok_def)
qed

lemma read_stored:
  assumes st: "storable sha3 n block bh" and push: "push_entries sha3 (be_height block) 0 (entry_list H block) t = (True, t1)"
    and ok: "tables_ok t" and u: "tx_entries u = tx_entries t1"
  shows "read_entries H u (be_height block) (be_bl block) [0..<unat (meta_txCount (entry_meta block bh))]
           = Inr (tx_list (entry_list H block))"
proof -
  have len: "length (be_transactions block) = Suc (length (transactionHashes (be_bl block)))"
    "length (be_transactions block) < 2 ^ 16" using st by (simp_all add: storable_def)
  have n: "unat (meta_txCount (entry_meta block bh)) = length (be_transactions block)"
    using len(2) by (simp add: entry_meta_def unat_of_nat take_bit_nat_eq_self)
  show ?thesis
    unfolding n entry_list_nth(1) [OF len(1)]
    by (rule read_entries_map) (use stored_entries [OF st push ok u] in auto)
qed

lemma removeLastBlock_eq:
  assumes "getChainHeight u \<noteq> 0" and "getChainHeight u - 1 = h" and "getBlockMeta u h = Some m"
    and "getBlockData u h = Some d" and "fromBinaryArray get_Block d = Some blk"
    and "read_entries H u h blk [0..<unat (meta_txCount m)] = Inr txs" and "mdb_last (block_meta u) = Some (encBE32 h, v)"
  shows "removeLastBlock sha3 H u = Inr ((pop_list sha3 txs u)\<lparr>
     tx_entries := fold (\<lambda>i. mdb_del (encBE32 h @ encBE16 (of_nat i))) [0..<unat (meta_txCount m)] (tx_entries u),
     block_data := mdb_del (encBE32 h) (block_data u), hash_to_height := mdb_del (meta_hash m) (hash_to_height u),
     gen_tx_idx := mdb_del (encBE32 h) (gen_tx_idx u),
     timestamp_idx := mdb_del (encBE64 (meta_timestamp m) @ meta_hash m) (timestamp_idx u),
     block_meta := mdb_del (encBE32 h) (block_meta u)\<rparr>)"
  using assms by (simp add: removeLastBlock_def Let_def pop_list_def [symmetric] db_remove_defs removeLastBlockMeta_def)

lemma remove_stored:
  assumes db: "db_ok n t" and st: "storable sha3 n block bh" and fresh: "bh \<notin> keys (hash_to_height t)"
    and store: "store_block sha3 H block bh t = Some t'"
  shows "removeLastBlock sha3 H t' = Inr t"
proof -
  obtain t1 count where push: "push_entries sha3 (be_height block) 0 (entry_list H block) t = (True, t1)"
    and eq: "t' = t1\<lparr>
     block_meta := mdb_put (encBE32 (be_height block)) (meta_bytes (entry_meta block bh)) (block_meta t),
     block_data := mdb_put (encBE32 (be_height block)) (object_bytes put_Block (be_bl block)) (block_data t),
     hash_to_height := mdb_put bh (encBE32 (be_height block)) (hash_to_height t),
     timestamp_idx := mdb_put (encBE64 (timestamp (be_bl block)) @ bh) () (timestamp_idx t),
     gen_tx_idx := mdb_put (encBE32 (be_height block)) (encBE64 count) (gen_tx_idx t)\<rparr>"
    using store by (rule store_block_cases)
  let ?m = "entry_meta block bh" and ?es = "entry_list H block"
  have h: "be_height block = of_nat n" "Suc n < 2 ^ 32" and bok: "block_ok (be_bl block)"
    and len: "length (be_transactions block) = Suc (length (transactionHashes (be_bl block)))"
      "length (be_transactions block) < 2 ^ 16"
    using st by (simp_all add: storable_def)
  have tok: "tables_ok t" "payments_ok t" using db by (simp_all add: db_ok_def payments_ok_def)
  have nz: "getChainHeight t' \<noteq> 0" "getChainHeight t' - 1 = be_height block"
    using chain_height_ok [OF store_block_db_ok [OF db st store]] h unat_of_nat_u32 [of "Suc n"]
    by (auto simp flip: of_nat_Suc) (simp add: of_nat_Suc)
  have meta: "getBlockMeta t' (be_height block) = Some ?m"
    using tok(1) meta_round_trip [OF entry_meta_ok [OF st]] by (simp add: getBlockMeta_def eq mdb_get_put)
  have data: "getBlockData t' (be_height block) = Some (object_bytes put_Block (be_bl block))"
    by (simp add: getBlockData_def eq mdb_get_put)
  have blk: "fromBinaryArray get_Block (object_bytes put_Block (be_bl block)) = Some (be_bl block)"
    using bok block_codec.enc_ok by (simp add: block_codec.fromBinaryArray_iff object_bytes_def toBinaryArray_def)
  have read: "read_entries H t' (be_height block) (be_bl block) [0..<unat (meta_txCount ?m)] = Inr (tx_list ?es)"
    by (rule read_stored [OF st push tok(1)]) (simp add: eq)
  have core: "tx_core (pop_list sha3 (tx_list ?es) t') = tx_core t"
    by (rule push_entries_undo [OF push tok]) (use st len in \<open>auto simp: storable_def entry_list_nth(2) [OF len(1)] entry_list_def neq_Nil_conv length_Suc_conv eq tx_core_def\<close>)
  have fresh_keys: "encBE32 (be_height block) \<notin> keys (block_meta t)" "encBE32 (be_height block) \<notin> keys (block_data t)"
      "encBE32 (be_height block) \<notin> keys (gen_tx_idx t)" "encBE64 ts @ bh \<notin> keys (timestamp_idx t)"
      "encBE32 (be_height block) @ encBE16 s \<notin> keys (tx_entries t)" for ts s
    using db h fresh by (auto simp: db_ok_def unat_of_nat_u32 dest!: subsetD)
  have "mdb_last (block_meta t') = Some (encBE32 (be_height block), meta_bytes ?m)"
    using db h heights_below_less [of n] by (simp add: eq db_ok_def last_greatest)
  moreover have "unat (meta_txCount ?m) = length ?es"
    using len(2) by (simp add: entry_meta_def entry_list_nth(2) [OF len(1)] unat_of_nat take_bit_nat_eq_self)
  moreover have "fold (\<lambda>i. mdb_del (encBE32 (be_height block) @ encBE16 (of_nat i))) [0..<length ?es] (tx_entries t') = tx_entries t"
    using tx_entries_undo [of "tx_entries t" ?es] tok(1) len fresh_keys(5)
    by (simp add: eq push_entries_records [OF push] tables_ok_def entry_list_nth(2))
  ultimately show ?thesis
    using removeLastBlock_eq [OF nz meta data blk read] core tok(1) fresh fresh_keys
    by (simp add: tables.equality tx_core_def eq entry_meta_def kv.del_put get_None_keys tables_ok_def)
qed

section \<open>The stored chain\<close>

definition entries_images :: "(bytes \<Rightarrow> hash) \<Rightarrow> (hash \<times> TransactionEntry) list \<Rightarrow> hash list" where
  "entries_images sha3 es = concat (map (\<lambda>(_, te). spend_images sha3 (te_tx te)) es)"

definition entries_accounts :: "(bytes \<Rightarrow> hash) \<Rightarrow> (hash \<times> TransactionEntry) list \<Rightarrow> hash list" where
  "entries_accounts sha3 es = List.map_filter (\<lambda>(_, te). account_of sha3 (te_tx te)) es"

lemma entries_append [simp]:
  "entries_images sha3 (es @ fs) = entries_images sha3 es @ entries_images sha3 fs"
  "entries_accounts sha3 (es @ fs) = entries_accounts sha3 es @ entries_accounts sha3 fs"
  by (simp_all add: entries_images_def entries_accounts_def map_filter_def)

lemma push_entries_images:
  "push_entries sha3 h slot es t = (True, t') \<Longrightarrow>
     distinct (entries_images sha3 es) \<and> set (entries_images sha3 es) \<inter> keys (spent_keys t) = {} \<and>
     keys (spent_keys t') = keys (spent_keys t) \<union> set (entries_images sha3 es)"
proof (induction es arbitrary: slot t)
  case (Cons e es)
  obtain txHash te where e: "e = (txHash, te)" by (cases e)
  obtain t1 where t1: "push_entry sha3 h te txHash slot t = (True, t1)" "push_entries sha3 h (slot + 1) es t1 = (True, t')"
    using Cons.prems by (auto simp: e push_entries_Cons_True)
  from Cons.IH [OF t1(2)] t1(1) show ?case
    by (auto simp: e entries_images_def push_entry_True)
qed (simp add: entries_images_def)

lemma push_entries_hashes:
  "push_entries sha3 h slot es t = (True, t') \<Longrightarrow>
     distinct (map fst es) \<and> set (map fst es) \<inter> keys (tx_indices t) = {} \<and>
     keys (tx_indices t') = keys (tx_indices t) \<union> set (map fst es)"
proof (induction es arbitrary: slot t)
  case (Cons e es)
  obtain txHash te where e: "e = (txHash, te)" by (cases e)
  obtain t1 where t1: "push_entry sha3 h te txHash slot t = (True, t1)" "push_entries sha3 h (slot + 1) es t1 = (True, t')"
    using Cons.prems by (auto simp: e push_entries_Cons_True)
  from Cons.IH [OF t1(2)] t1(1) show ?case by (auto simp: e push_entry_True)
qed simp

lemma push_entries_accounts:
  assumes "push_entries sha3 h slot es t = (True, t')" and "unat slot + length es \<le> 65536"
    and "slot = 0 \<Longrightarrow> es \<noteq> [] \<Longrightarrow> account_of sha3 (te_tx (snd (hd es))) = None"
  shows "distinct (entries_accounts sha3 es) \<and> set (entries_accounts sha3 es) \<inter> keys (pq_acct_reg t) = {} \<and>
     keys (pq_acct_reg t') = keys (pq_acct_reg t) \<union> set (entries_accounts sha3 es)"
  using assms
proof (induction es arbitrary: slot t)
  case (Cons e es)
  obtain txHash te where e: "e = (txHash, te)" by (cases e)
  obtain t1 where t1: "push_entry sha3 h te txHash slot t = (True, t1)" "push_entries sha3 h (slot + 1) es t1 = (True, t')"
    using Cons.prems by (auto simp: e push_entries_Cons_True)
  have nz: "slot + 1 \<noteq> 0" "unat (slot + 1) + length es \<le> 65536" if "es \<noteq> []"
    using slot_next [of slot "length es"] that Cons.prems(2) by (auto simp: unat_eq_0 [symmetric])
  have acc: "slot_account sha3 slot (te_tx te) = account_of sha3 (te_tx te)"
    using Cons.prems(3) by (auto simp: slot_account_def e)
  have "distinct (entries_accounts sha3 es) \<and> set (entries_accounts sha3 es) \<inter> keys (pq_acct_reg t1) = {} \<and>
     keys (pq_acct_reg t') = keys (pq_acct_reg t1) \<union> set (entries_accounts sha3 es)"
  proof (cases "es = []")
    case True
    then show ?thesis using t1 by (simp add: entries_accounts_def map_filter_def)
  next
    case False
    then show ?thesis using nz by (intro Cons.IH [OF t1(2)]) auto
  qed
  with t1(1) show ?case
    by (cases "account_of sha3 (te_tx te)") (auto simp: e entries_accounts_def map_filter_Cons push_entry_True acc)
qed (simp add: entries_accounts_def map_filter_def)

text \<open>
  The specification: the tables hold a list of blocks, built by storing them one after another.
\<close>

inductive chain_tables :: "(bytes \<Rightarrow> hash) \<Rightarrow> (bytes \<Rightarrow> hash) \<Rightarrow> (BlockEntry \<times> hash) list \<Rightarrow> tables \<Rightarrow> bool"
  for sha3 H :: "bytes \<Rightarrow> hash" where
  chain_empty: "chain_tables sha3 H [] empty_tables"
| chain_store: "\<lbrakk>chain_tables sha3 H bs t; storable sha3 (length bs) block bh; bh \<notin> snd ` set bs;
     store_block sha3 H block bh t = Some t'\<rbrakk> \<Longrightarrow> chain_tables sha3 H (bs @ [(block, bh)]) t'"

inductive_cases chain_snoc_E: "chain_tables sha3 H (bs @ [(block, bh)]) t"

definition chain_entries :: "(bytes \<Rightarrow> hash) \<Rightarrow> (BlockEntry \<times> hash) list \<Rightarrow> (hash \<times> TransactionEntry) list" where
  "chain_entries H bs = concat (map (\<lambda>(block, _). entry_list H block) bs)"

lemma chain_entries_snoc: "chain_entries H (bs @ [(block, bh)]) = chain_entries H bs @ entry_list H block"
  by (simp add: chain_entries_def)

lemma db_ok_empty: "db_ok 0 empty_tables"
  by (simp add: db_ok_def empty_tables_def tables_ok_def heights_below_def)

lemma chain_db_ok: "chain_tables sha3 H bs t \<Longrightarrow> db_ok (length bs) t"
  by (induction rule: chain_tables.induct) (auto simp: db_ok_empty intro: store_block_db_ok)

lemma chain_height: "chain_tables sha3 H bs t \<Longrightarrow> getChainHeight t = of_nat (length bs)"
  by (rule chain_height_ok [OF chain_db_ok])

lemma chain_hash_keys: "chain_tables sha3 H bs t \<Longrightarrow> keys (hash_to_height t) = snd ` set bs \<and> distinct (map snd bs)"
proof (induction rule: chain_tables.induct)
  case (chain_store bs t block bh t')
  have "keys (hash_to_height t') = insert bh (keys (hash_to_height t))"
    using chain_store.hyps(4) by (rule store_block_cases) simp
  then show ?case using chain_store.IH chain_store.hyps(3) by auto
qed (simp add: empty_tables_def)

text \<open>Removing the last block is the inverse of appending one.\<close>

lemma chain_remove:
  "chain_tables sha3 H (bs @ [(block, bh)]) t \<Longrightarrow> \<exists>u. removeLastBlock sha3 H t = Inr u \<and> chain_tables sha3 H bs u"
  by (erule chain_snoc_E) (metis chain_db_ok chain_hash_keys remove_stored)

lemma chain_images:
  "chain_tables sha3 H bs t \<Longrightarrow> distinct (entries_images sha3 (chain_entries H bs)) \<and>
     keys (spent_keys t) = set (entries_images sha3 (chain_entries H bs))"
proof (induction rule: chain_tables.induct)
  case (chain_store bs t block bh t')
  obtain t1 where push: "push_entries sha3 (be_height block) 0 (entry_list H block) t = (True, t1)"
    and "spent_keys t' = spent_keys t1"
    using chain_store.hyps(4) by (rule store_block_cases) simp
  then show ?case
    using push_entries_images [OF push] chain_store.IH by (auto simp: chain_entries_snoc)
qed (simp add: chain_entries_def entries_images_def empty_tables_def)

lemma chain_tx_hashes:
  "chain_tables sha3 H bs t \<Longrightarrow> distinct (map fst (chain_entries H bs)) \<and>
     keys (tx_indices t) = fst ` set (chain_entries H bs)"
proof (induction rule: chain_tables.induct)
  case (chain_store bs t block bh t')
  obtain t1 where push: "push_entries sha3 (be_height block) 0 (entry_list H block) t = (True, t1)"
    and "tx_indices t' = tx_indices t1"
    using chain_store.hyps(4) by (rule store_block_cases) simp
  then show ?case
    using push_entries_hashes [OF push] chain_store.IH by (auto simp: chain_entries_snoc)
qed (simp add: chain_entries_def empty_tables_def)

lemma storable_hd:
  assumes "storable sha3 n block bh"
  shows "length (entry_list H block) = length (be_transactions block)" "length (entry_list H block) \<le> 65535"
    "entry_list H block \<noteq> []" "account_of sha3 (te_tx (snd (hd (entry_list H block)))) = None"
  using assms by (auto simp: storable_def entry_list_def hd_zip length_Suc_conv)

lemma chain_accounts:
  "chain_tables sha3 H bs t \<Longrightarrow> distinct (entries_accounts sha3 (chain_entries H bs)) \<and>
     keys (pq_acct_reg t) = set (entries_accounts sha3 (chain_entries H bs))"
proof (induction rule: chain_tables.induct)
  case (chain_store bs t block bh t')
  obtain t1 where push: "push_entries sha3 (be_height block) 0 (entry_list H block) t = (True, t1)"
    and "pq_acct_reg t' = pq_acct_reg t1"
    using chain_store.hyps(4) by (rule store_block_cases) simp
  then show ?case
    using push_entries_accounts [OF push] storable_hd [OF chain_store.hyps(2), of H] chain_store.IH
    by (auto simp: chain_entries_snoc)
qed (simp add: chain_entries_def entries_accounts_def map_filter_def empty_tables_def)

lemma push_entries_index:
  "push_entries sha3 h slot es t = (True, t') \<Longrightarrow> i < length es \<Longrightarrow>
     mdb_get (fst (es ! i)) (tx_indices t') = Some (encBE32 h @ encBE16 (slot + of_nat i))"
  "push_entries sha3 h slot es t = (True, t') \<Longrightarrow> k \<in> keys (tx_indices t) \<Longrightarrow>
     mdb_get k (tx_indices t') = mdb_get k (tx_indices t)"
proof -
  show keep: "mdb_get k (tx_indices t') = mdb_get k (tx_indices t)"
    if "push_entries sha3 h slot es t = (True, t')" "k \<in> keys (tx_indices t)" for slot t k es
    using that
  proof (induction es arbitrary: slot t)
    case (Cons e es)
    then show ?case by (cases e) (fastforce simp: push_entries_Cons_True push_entry_True mdb_get_put)
  qed simp
  show "mdb_get (fst (es ! i)) (tx_indices t') = Some (encBE32 h @ encBE16 (slot + of_nat i))"
    if "push_entries sha3 h slot es t = (True, t')" "i < length es"
    using that
  proof (induction es arbitrary: slot t i)
    case (Cons e es)
    obtain txHash te where e: "e = (txHash, te)" by (cases e)
    obtain t1 where t1: "push_entry sha3 h te txHash slot t = (True, t1)" "push_entries sha3 h (slot + 1) es t1 = (True, t')"
      using Cons.prems by (auto simp: e push_entries_Cons_True)
    show ?case
    proof (cases i)
      case 0
      then show ?thesis using keep [OF t1(2), of txHash] t1(1) by (simp add: e push_entry_True mdb_get_put)
    next
      case (Suc j)
      then show ?thesis using Cons.IH [OF t1(2), of j] Cons.prems(2) by (simp add: add.assoc)
    qed
  qed simp
qed

text \<open>Every stored transaction is found under its hash, and its entry reads back.\<close>

definition finds :: "tables \<Rightarrow> hash \<Rightarrow> nat \<Rightarrow> nat \<Rightarrow> Transaction \<Rightarrow> bool" where
  "finds t txHash i s tx \<longleftrightarrow> getTxIndex t txHash = Some (of_nat i, of_nat s) \<and>
     map_sum id te_tx (transactionByIndex t (of_nat i) (of_nat s)) = Inr tx"

lemma finds_later:
  assumes f: "finds t txHash i s tx" and n: "i < n" "Suc n < 2 ^ 32" and st: "storable sha3 n block bh" and ok: "tables_ok t"
    and store: "store_block sha3 H block bh t = Some t'"
  shows "finds t' txHash i s tx"
proof -
  obtain t1 where push: "push_entries sha3 (be_height block) 0 (entry_list H block) t = (True, t1)"
    and eq: "tx_indices t' = tx_indices t1" "tx_entries t' = tx_entries t1"
    using store by (rule store_block_cases) simp
  have "be_height block = of_nat n" using st by (simp add: storable_def)
  moreover have "(of_nat i :: u32) \<noteq> of_nat n"
    using n by (metis less_imp_le_nat less_trans linorder_neq_iff order.strict_trans1 unat_of_nat_u32 Suc_lessD)
  ultimately have "map_of (rev (entry_records (be_height block) 0 (entry_list H block))) (encBE32 (of_nat i) @ encBE16 (of_nat s)) = None"
    by (auto simp: map_of_eq_None_iff entry_records_def)
  then have "getTxEntry t' (of_nat i) (of_nat s) = getTxEntry t (of_nat i) (of_nat s)"
    using ok by (simp add: getTxEntry_def eq push_entries_records [OF push] kv.get_puts tables_ok_def)
  then have "transactionByIndex t' (of_nat i) (of_nat s) = transactionByIndex t (of_nat i) (of_nat s)"
    by (simp add: transactionByIndex_def)
  moreover have "txHash \<in> keys (tx_indices t)" using f get_None_keys [of txHash "tx_indices t"] by (auto simp: finds_def getTxIndex_def)
  ultimately show ?thesis using f push_entries_index(2) [OF push] by (simp add: finds_def getTxIndex_def eq)
qed

lemma chain_finds:
  "chain_tables sha3 H bs t \<Longrightarrow> i < length bs \<Longrightarrow> s < length (be_transactions (fst (bs ! i))) \<Longrightarrow>
     finds t (fst (entry_list H (fst (bs ! i)) ! s)) i s (te_tx (be_transactions (fst (bs ! i)) ! s))"
proof (induction arbitrary: i rule: chain_tables.induct)
  case (chain_store bs t block bh t')
  have ok: "tables_ok t" using chain_db_ok [OF chain_store.hyps(1)] by (simp add: db_ok_def)
  have n: "Suc (length bs) < 2 ^ 32" "be_height block = of_nat (length bs)" using chain_store.hyps(2) by (simp_all add: storable_def)
  show ?case
  proof (cases "i < length bs")
    case True
    then show ?thesis
      using chain_store.IH [OF True] chain_store.prems n finds_later [OF _ True _ chain_store.hyps(2) ok chain_store.hyps(4)]
      by (simp add: nth_append)
  next
    case False
    then have i: "i = length bs" using chain_store.prems by simp
    obtain t1 where push: "push_entries sha3 (be_height block) 0 (entry_list H block) t = (True, t1)"
      and eq: "tx_indices t' = tx_indices t1" "tx_entries t' = tx_entries t1"
      using chain_store.hyps(4) by (rule store_block_cases) simp
    show ?thesis
      using stored_entries [OF chain_store.hyps(2) push ok eq(2)] push_entries_index(1) [OF push, of s]
        storable_hd(1) [OF chain_store.hyps(2), of H] chain_store.prems n
      by (simp add: i finds_def getTxIndex_def eq)
  qed
qed simp

lemma chain_block_lookup:
  "chain_tables sha3 H bs t \<Longrightarrow> i < length bs \<Longrightarrow>
     getBlockMeta t (of_nat i) = Some (entry_meta (fst (bs ! i)) (snd (bs ! i))) \<and>
     getBlockData t (of_nat i) = Some (object_bytes put_Block (be_bl (fst (bs ! i)))) \<and>
     getHashHeight t (snd (bs ! i)) = Some (of_nat i)"
proof (induction arbitrary: i rule: chain_tables.induct)
  case (chain_store bs t block bh t')
  have n: "Suc (length bs) < 2 ^ 32" "be_height block = of_nat (length bs)" using chain_store.hyps(2) by (simp_all add: storable_def)
  obtain m where eq: "block_meta t' = mdb_put (encBE32 (of_nat (length bs))) (meta_bytes (entry_meta block bh)) (block_meta t)"
      "block_data t' = mdb_put (encBE32 (of_nat (length bs))) (object_bytes put_Block (be_bl block)) (block_data t)"
      "hash_to_height t' = mdb_put bh (encBE32 (of_nat (length bs))) (hash_to_height t)"
    using chain_store.hyps(4) by (rule store_block_cases) (simp add: n)
  show ?case
  proof (cases "i < length bs")
    case True
    have "(of_nat i :: u32) \<noteq> of_nat (length bs)"
      using True n(1) unat_of_nat_u32 [of i] unat_of_nat_u32 [of "length bs"] by auto
    moreover have "snd (bs ! i) \<noteq> bh" using chain_store.hyps(3) True by auto
    ultimately show ?thesis using chain_store.IH [OF True] True
      by (simp add: eq nth_append getBlockMeta_def getBlockData_def getHashHeight_def mdb_get_put)
  next
    case False
    then have "i = length bs" using chain_store.prems by simp
    then show ?thesis using meta_round_trip [OF entry_meta_ok [OF chain_store.hyps(2)]]
      by (simp add: eq getBlockMeta_def getBlockData_def getHashHeight_def mdb_get_put)
  qed
qed simp

section \<open>A stored sample chain\<close>

definition sample_coinbase :: Transaction where
  "sample_coinbase = \<lparr>version = 1, txType = 0, unlockHeight = 60, inputs = [InBase \<lparr>blockIndex = 0\<rparr>],
     outputs = [\<lparr>amount = 900, outUnlockHeight = 0, target = OutCoinbase \<lparr>cbSpendCommit = replicate 32 9\<rparr>\<rparr>],
     extra = [], pqSignatures = []\<rparr>"

definition toy_sha3 :: "bytes \<Rightarrow> hash" where
  "toy_sha3 x = take 32 (rev x @ replicate 32 0)"

definition sample_stored :: "BlockEntry" where
  "sample_stored = \<lparr>be_bl = \<lparr>majorVersion = 1, minorVersion = 0, nonce = 70, timestamp = 1784123353,
       previousBlockHash = replicate 32 0, baseTransaction = sample_coinbase, signature = replicate 3309 0,
       transactionHashes = [replicate 32 77]\<rparr>,
     be_height = 0, block_cumulative_size = 900, cumulative_difficulty = 1, already_generated_coins = 900,
     be_transactions = [\<lparr>te_tx = sample_coinbase, m_global_output_indexes = []\<rparr>,
                        \<lparr>te_tx = sample_tx, m_global_output_indexes = []\<rparr>]\<rparr>"

lemma sample_coinbase_ok: "tx_ok sample_coinbase"
  by (simp add: sample_coinbase_def tx_ok_def prefix_ok_def inputs_ok_def container_ok_def strip_def
      raw_input_ok_def target_ok_def ref_resolved_def pqCount_def size_defs
      TRANSACTION_VERSION_1_def MAX_STRING_SIZE_def MAX_PQ_GROUPED_INPUTS_PER_TX_def
      less_Suc_eq)

lemmas sample_bytes = object_bytes_def toBinaryArray_def put_Transaction_def put_TransactionPrefix_def put_uint_def
  put_inputs_def put_container_def put_TransactionInput_def put_BaseInput_def put_PqInput_def put_PqBlob_def put_binary_def
  put_hash_def put_TransactionOutput_def put_target_def put_CoinbaseOutput_def put_string_def writeVarint.simps size_defs
  TRANSACTION_VERSION_1_def PQ_NO_KEY_REF_def

lemma sample_sizes: "length (object_bytes put_Transaction sample_coinbase) < 2 ^ 32"
  "length (object_bytes put_Transaction sample_tx) < 2 ^ 32"
  by (simp_all add: sample_coinbase_def sample_tx_def sample_bytes)

lemma sample_hash: "object_hash toy_sha3 put_Transaction sample_coinbase \<noteq> replicate 32 77"
proof -
  have "last (object_bytes put_Transaction sample_coinbase) = 0" "object_bytes put_Transaction sample_coinbase \<noteq> []"
    by (simp_all add: sample_coinbase_def sample_bytes)
  then have "toy_sha3 (object_bytes put_Transaction sample_coinbase) ! 0 = 0"
    by (simp add: toy_sha3_def nth_append rev_nth last_conv_nth)
  moreover have "object_hash toy_sha3 put_Transaction sample_coinbase = toy_sha3 (object_bytes put_Transaction sample_coinbase)"
    by (simp add: object_hash_def tx_codec.getObjectHash_ok [OF sample_coinbase_ok] object_bytes_def)
  ultimately have "object_hash toy_sha3 put_Transaction sample_coinbase ! 0 = 0" by simp
  then show ?thesis by (auto simp: nth_replicate)
qed

lemma sample_extra: "account_of sha3 sample_coinbase = None" "account_of sha3 sample_tx = None"
  "payment_of sample_coinbase = None" "payment_of sample_tx = None"
  by (simp_all add: account_of_def payment_of_def sample_coinbase_def sample_tx_def getPaymentIdFromTxExtra_def
      getPqAccountRegistrationFromExtra_def get_parsed_def parseTransactionExtra_def)

lemma sample_images: "spend_images toy_sha3 sample_coinbase = []" "distinct (spend_images toy_sha3 sample_tx)"
  by (simp_all add: spend_images_def sample_coinbase_def sample_tx_def map_filter_def spendImageForInput_def
      pqInputNullifierAsKeyImage_def pqNullifier_def pqInputFieldsValid_def nullifier_def nullifier_buf_def appendLe32_def
      toy_sha3_def size_defs)

lemma sample_fits: "entry_fits \<lparr>te_tx = sample_coinbase, m_global_output_indexes = g\<rparr>"
  "entry_fits \<lparr>te_tx = sample_tx, m_global_output_indexes = g\<rparr>"
  using sample_sizes by (simp_all add: entry_fits_def sample_coinbase_ok sample_tx_ok) (simp_all add: sample_coinbase_def sample_tx_def)

lemma sample_storable: "storable toy_sha3 0 sample_stored (replicate 32 5)"
  by (simp add: storable_def sample_stored_def block_ok_def header_ok_def BLOCK_MAJOR_VERSION_1_def BLOCK_MAJOR_VERSION_8_def size_defs container_ok_def
      sample_fits sample_coinbase_ok sample_extra)

definition sample_tables :: tables where
  "sample_tables = the (store_block toy_sha3 toy_sha3 sample_stored (replicate 32 5) empty_tables)"

lemma sample_push:
  "\<exists>t1. push_entries toy_sha3 (be_height sample_stored) 0 (entry_list toy_sha3 sample_stored) empty_tables = (True, t1)"
  using sample_hash
  by (simp add: entry_list_def sample_stored_def push_entries_Cons_True push_entry_True sample_images sample_extra
      slot_account_def empty_tables_def keys_def)

lemma sample_stores: "store_block toy_sha3 toy_sha3 sample_stored (replicate 32 5) empty_tables = Some sample_tables"
  using sample_push by (auto simp: sample_tables_def store_block_def)

lemma sample_chain: "chain_tables toy_sha3 toy_sha3 [(sample_stored, replicate 32 5)] sample_tables"
  using chain_store [OF chain_empty _ _ sample_stores] sample_storable by simp

section \<open>Properties\<close>

text \<open>
  C16.  Storing a validated block on top of a chain of \<open>length bs\<close> blocks and then removing the last
  block restores the database byte for byte: every one of the ten tables, including the spent
  keys, payment ids, account registrations and transaction indexes, is what it was.
\<close>

theorem remove_undoes_store:
  assumes "chain_tables sha3 H bs t" and "storable sha3 (length bs) block bh" and "bh \<notin> snd ` set bs"
    and "store_block sha3 H block bh t = Some t'"
  shows "removeLastBlock sha3 H t' = Inr t"
  using remove_stored [OF chain_db_ok [OF assms(1)] assms(2) _ assms(4)] assms(3) chain_hash_keys [OF assms(1)] by simp

lemma remove_undoes_store_witness:
  "\<exists>t'. store_block toy_sha3 toy_sha3 sample_stored (replicate 32 5) empty_tables = Some t' \<and>
     hasSpentKey t' (hd (spend_images toy_sha3 sample_tx)) \<and> removeLastBlock toy_sha3 toy_sha3 t' = Inr empty_tables"
proof (intro exI conjI)
  show "store_block toy_sha3 toy_sha3 sample_stored (replicate 32 5) empty_tables = Some sample_tables" by (rule sample_stores)
  show "removeLastBlock toy_sha3 toy_sha3 sample_tables = Inr empty_tables"
    using remove_undoes_store [OF chain_empty _ _ sample_stores] sample_storable by simp
  have "spend_images toy_sha3 sample_tx \<noteq> []"
    by (simp add: sample_tx_def spend_images_def map_filter_def spendImageForInput_def)
  then have "hd (spend_images toy_sha3 sample_tx) \<in> keys (spent_keys sample_tables)"
    using chain_images [OF sample_chain]
    by (simp add: chain_entries_def entries_images_def entry_list_def sample_stored_def)
  then show "hasSpentKey sample_tables (hd (spend_images toy_sha3 sample_tx))"
    by (simp add: hasSpentKey_def get_None_keys)
qed

text \<open>
  C17.  No output is spent twice and no account is registered twice on a stored chain: the
  nullifiers of all inputs of all transactions of all blocks are distinct, the spent-key table
  holds exactly these, and the same for the registered account identities; transaction hashes
  are distinct too.
\<close>

theorem chain_spends_once:
  assumes "chain_tables sha3 H bs t"
  shows "distinct (entries_images sha3 (chain_entries H bs)) \<and>
     (\<forall>k. hasSpentKey t k \<longleftrightarrow> k \<in> set (entries_images sha3 (chain_entries H bs))) \<and>
     distinct (entries_accounts sha3 (chain_entries H bs)) \<and>
     (\<forall>a. hasPqAcctReg t a \<longleftrightarrow> a \<in> set (entries_accounts sha3 (chain_entries H bs))) \<and>
     distinct (map fst (chain_entries H bs))"
  using chain_images [OF assms] chain_accounts [OF assms] chain_tx_hashes [OF assms]
  by (simp add: hasSpentKey_def hasPqAcctReg_def get_None_keys)

lemma chain_spends_once_witness:
  "distinct (entries_images toy_sha3 (chain_entries toy_sha3 [(sample_stored, replicate 32 5)])) \<and>
   entries_images toy_sha3 (chain_entries toy_sha3 [(sample_stored, replicate 32 5)]) \<noteq> []"
  using chain_spends_once [OF sample_chain]
  by (simp add: chain_entries_def entries_images_def entry_list_def sample_stored_def)
    (simp add: sample_tx_def spend_images_def map_filter_def spendImageForInput_def)

text \<open>
  C18.  The tables represent the block list: the chain height is its length, every block is found by
  height and by hash, and every transaction is found under its hash, at its block and slot, with
  its stored bytes decoding to the transaction that was written.
\<close>

theorem chain_reads_back:
  assumes "chain_tables sha3 H bs t"
  shows "getChainHeight t = of_nat (length bs) \<and>
     (\<forall>i < length bs. let block = fst (bs ! i); bh = snd (bs ! i) in
        getBlockMeta t (of_nat i) = Some (entry_meta block bh) \<and> getHashHeight t bh = Some (of_nat i) \<and>
        getBlockData t (of_nat i) = Some (object_bytes put_Block (be_bl block)) \<and>
        (\<forall>s < length (be_transactions block).
           getTxIndex t (fst (entry_list H block ! s)) = Some (of_nat i, of_nat s) \<and>
           map_sum id te_tx (transactionByIndex t (of_nat i) (of_nat s)) = Inr (te_tx (be_transactions block ! s))))"
  using chain_height [OF assms] chain_block_lookup [OF assms] chain_finds [OF assms]
  by (auto simp: finds_def Let_def)

lemma chain_reads_back_witness:
  "getChainHeight sample_tables = 1 \<and> getHashHeight sample_tables (replicate 32 5) = Some 0"
  using chain_reads_back [OF sample_chain] by (simp add: Let_def)

end
