(* ===== verification/Checkpoints.thy ===== *)
theory Checkpoints
  imports Kv_Table Strings Tx_Model Config
begin

text \<open>
  Checkpoints and the finality rule: src/src/Checkpoints/Checkpoints.cpp.  The member
  \<open>m_points\<close>, an ordered map from heights to block hashes, is a \<open>Kv_Table\<close> table.
\<close>

section \<open>Operations\<close>

definition add_checkpoint :: "u32 \<Rightarrow> string \<Rightarrow> (u32, hash) table \<Rightarrow> bool \<times> (u32, hash) table" where
  "add_checkpoint height hash_str pts =
     (case podFromHex HASH_SIZE hash_str of
        None \<Rightarrow> (False, pts)
      | Some h \<Rightarrow> if mdb_get height pts \<noteq> None then (False, pts) else (True, mdb_put height h pts))"

text \<open>
  \<open>std::stoi\<close>: white space, a sign, decimal digits; no digit is \<open>invalid_argument\<close> (caught by the
  caller), a value outside \<open>int\<close> is \<open>out_of_range\<close> (not caught).
\<close>

datatype stoi_result = StoiOk int | StoiInvalid | StoiRange

definition stoi :: "string \<Rightarrow> stoi_result" where
  "stoi s =
     (let t = dropWhile (\<lambda>c. c \<in> set [CHR '' '', CHR 0x09, CHR 0x0A, CHR 0x0B, CHR 0x0C, CHR 0x0D]) s;
          neg = (t \<noteq> [] \<and> hd t = CHR ''-'');
          u = (if t \<noteq> [] \<and> (hd t = CHR ''-'' \<or> hd t = CHR ''+'') then tl t else t);
          ds = takeWhile (\<lambda>c. 48 \<le> (of_char c :: nat) \<and> (of_char c :: nat) \<le> 57) u;
          v = foldl (\<lambda>a c. 10 * a + (of_char c - 48)) 0 ds;
          x = (if neg then - v else v)
      in if ds = [] then StoiInvalid else if x < - (2 ^ 31) \<or> 2 ^ 31 \<le> x then StoiRange else StoiOk x)"

text \<open>
  The file is read as alternating \<open>getline\<close> calls, up to a comma and up to a line end; the loop
  stops when the second one fails.  An error value is the uncaught exception.
\<close>

function load_lines :: "string \<Rightarrow> (u32, hash) table \<Rightarrow> (bool \<times> (u32, hash) table) res" where
  "load_lines s pts =
     (let indexString = takeWhile (\<lambda>c. c \<noteq> CHR '','') s;
          r = drop (length indexString + 1) s;
          line = takeWhile (\<lambda>c. c \<noteq> CHR 0x0A) r
      in if length s \<le> length indexString \<or> r = [] then Inr (True, pts)
         else case stoi indexString of
                StoiInvalid \<Rightarrow> Inr (False, pts)
              | StoiRange \<Rightarrow> Inl ''stoi''
              | StoiOk i \<Rightarrow>
                  (case add_checkpoint (of_int i) line pts of
                     (False, pts') \<Rightarrow> Inr (False, pts')
                   | (True, pts') \<Rightarrow> load_lines (drop (length line + 1) r) pts'))"
  by pat_completeness auto
termination
  by (relation "measure (\<lambda>(s, _). length s)") auto

definition load_checkpoints_from_file :: "string option \<Rightarrow> (u32, hash) table \<Rightarrow> (bool \<times> (u32, hash) table) res" where
  "load_checkpoints_from_file file pts = (case file of None \<Rightarrow> Inr (False, pts) | Some s \<Rightarrow> load_lines s pts)"

definition is_in_checkpoint_zone :: "(u32, hash) table \<Rightarrow> u32 \<Rightarrow> bool" where
  "is_in_checkpoint_zone pts height = (case mdb_last pts of None \<Rightarrow> False | Some (k, _) \<Rightarrow> height \<le> k)"

definition check_block :: "(u32, hash) table \<Rightarrow> u32 \<Rightarrow> hash \<Rightarrow> bool \<times> bool" where
  "check_block pts height h = (case mdb_get height pts of None \<Rightarrow> (True, False) | Some p \<Rightarrow> (p = h, True))"

definition is_finality_violation :: "(u32, hash) table \<Rightarrow> u32 \<Rightarrow> u32 \<Rightarrow> bool" where
  "is_finality_violation pts blockchain_height block_height \<longleftrightarrow>
     (ucast block_height :: u64) + ucast CRYPTONOTE_FINALITY_DEPTH < ucast blockchain_height \<and>
     \<not> is_in_checkpoint_zone pts block_height"

definition is_alternative_block_allowed :: "(u32, hash) table \<Rightarrow> u32 \<Rightarrow> u32 \<Rightarrow> bool" where
  "is_alternative_block_allowed pts blockchain_height block_height =
     (if block_height = 0 then False
      else if is_finality_violation pts blockchain_height block_height then False
      else let before = takeWhile (\<lambda>(k, _). \<not> blockchain_height < k) pts in
           if before = [] then True else fst (last before) < block_height)"

definition getCheckpointHeights :: "(u32, hash) table \<Rightarrow> u32 list" where
  "getCheckpointHeights pts = map fst pts"

definition tryGetCheckpoint :: "(u32, hash) table \<Rightarrow> u32 \<Rightarrow> hash option" where
  "tryGetCheckpoint pts height = mdb_get height pts"

section \<open>What is added is kept\<close>

lemma add_checkpoint_ok: "table_ok pts \<Longrightarrow> table_ok (snd (add_checkpoint height s pts))"
  by (auto simp: add_checkpoint_def table_ok_put split: option.splits)

lemma add_checkpoint_keeps:
  "tryGetCheckpoint pts k = Some h \<Longrightarrow> tryGetCheckpoint (snd (add_checkpoint height s pts)) k = Some h"
  by (auto simp: add_checkpoint_def tryGetCheckpoint_def mdb_get_put split: option.splits)

declare load_lines.simps [simp del]

lemma load_lines_keeps:
  "load_lines s pts = Inr (b, pts') \<Longrightarrow> table_ok pts \<Longrightarrow>
     table_ok pts' \<and> (\<forall>k h. tryGetCheckpoint pts k = Some h \<longrightarrow> tryGetCheckpoint pts' k = Some h)"
proof (induction s pts rule: load_lines.induct)
  case (1 s pts)
  define ix where "ix = takeWhile (\<lambda>c. c \<noteq> CHR '','') s"
  define r where "r = drop (length ix + 1) s"
  define line where "line = takeWhile (\<lambda>c. c \<noteq> CHR 0x0A) r"
  have step: "load_lines s pts = (if length s \<le> length ix \<or> r = [] then Inr (True, pts)
         else case stoi ix of
                StoiInvalid \<Rightarrow> Inr (False, pts)
              | StoiRange \<Rightarrow> Inl ''stoi''
              | StoiOk i \<Rightarrow>
                  (case add_checkpoint (of_int i) line pts of
                     (False, pts') \<Rightarrow> Inr (False, pts')
                   | (True, pts') \<Rightarrow> load_lines (drop (length line + 1) r) pts'))"
    by (subst load_lines.simps) (simp only: Let_def ix_def r_def line_def)
  have IH: "load_lines (drop (length line + 1) r) p = Inr (b, pts') \<Longrightarrow> table_ok p \<Longrightarrow>
      table_ok pts' \<and> (\<forall>k h. tryGetCheckpoint p k = Some h \<longrightarrow> tryGetCheckpoint pts' k = Some h)"
    if "\<not> (length s \<le> length ix \<or> r = [])" "stoi ix = StoiOk i" "add_checkpoint (of_int i) line pts = (True, p)" for i p
    using 1(1) [OF ix_def r_def line_def that(1,2) that(3) [symmetric] refl] .
  show ?case
  proof (cases "length s \<le> length ix \<or> r = []")
    case True
    then show ?thesis using 1(2,3) unfolding step by simp
  next
    case more: False
    show ?thesis
    proof (cases "stoi ix")
      case (StoiOk i)
      obtain c p where ap: "add_checkpoint (of_int i) line pts = (c, p)" by fastforce
      have keeps: "table_ok p" "\<forall>k h. tryGetCheckpoint pts k = Some h \<longrightarrow> tryGetCheckpoint p k = Some h"
        using add_checkpoint_ok [OF 1(3), of "of_int i" line] add_checkpoint_keeps [of pts _ _ "of_int i" line] ap by auto
      show ?thesis
        using 1(2) keeps IH [OF more StoiOk, of p] unfolding step by (cases c) (auto simp: more StoiOk ap)
    qed (use 1(2,3) more in \<open>simp_all add: step\<close>)
  qed
qed

section \<open>Which alternative blocks are allowed\<close>

lemma takeWhile_below:
  "table_ok pts \<Longrightarrow> set (takeWhile (\<lambda>(k, _). \<not> n < k) pts) = {p \<in> set pts. fst p \<le> n}"
  by (induction pts) (fastforce split: prod.splits simp: not_less)+

lemma last_below:
  assumes "table_ok pts"
  shows "(let before = takeWhile (\<lambda>(k, _). \<not> n < k) pts in if before = [] then True else fst (last before) < h)
           \<longleftrightarrow> (\<forall>k \<in> keys pts. k \<le> n \<longrightarrow> k < h)"
proof -
  let ?b = "takeWhile (\<lambda>(k, _). \<not> n < k) pts"
  have ok: "table_ok ?b" using assms by (simp add: table_ok_def sorted_wrt_map sorted_wrt_takeWhile)
  have ks: "keys ?b = {k \<in> keys pts. k \<le> n}" using takeWhile_below [OF assms] by (auto simp: keys_def)
  show ?thesis
  proof (cases "?b = []")
    case True
    then have "{k \<in> keys pts. k \<le> n} = {}" using ks by simp
    then show ?thesis using True by auto
  next
    case False
    then have l: "mdb_last ?b = Some (fst (last ?b), snd (last ?b))" by (simp add: mdb_last_def)
    show ?thesis using False last_in_keys [OF l] keys_below_last [OF ok l] ks
      by (auto simp: Let_def intro: order.strict_trans1)
  qed
qed

lemma violation_iff:
  "is_finality_violation pts n h \<longleftrightarrow> unat h + 10 < unat n \<and> \<not> is_in_checkpoint_zone pts h"
proof -
  have "unat ((ucast h :: u64) + 10) = unat h + 10"
    using unsigned_less [of h, where ?'a = nat] by (subst unat_add_exact) (simp_all add: unat_u32_u64)
  then show ?thesis by (simp add: is_finality_violation_def CRYPTONOTE_FINALITY_DEPTH_def word_less_nat_alt unat_u32_u64)
qed

text \<open>
  C20.  With an ordered checkpoint table an alternative block at height \<open>h\<close> is allowed on a chain
  of length \<open>n\<close> exactly when it is not a genesis block, lies at most ten blocks below the tip or
  inside the checkpoint zone, and lies above every checkpoint the chain has already passed.
\<close>

theorem alternative_allowed_exact:
  assumes "table_ok pts"
  shows "is_alternative_block_allowed pts n h \<longleftrightarrow> h \<noteq> 0 \<and> (unat n \<le> unat h + 10 \<or> is_in_checkpoint_zone pts h) \<and>
     (\<forall>k h'. tryGetCheckpoint pts k = Some h' \<and> k \<le> n \<longrightarrow> k < h)"
proof -
  have "(\<forall>k h'. tryGetCheckpoint pts k = Some h' \<and> k \<le> n \<longrightarrow> k < h) \<longleftrightarrow> (\<forall>k \<in> keys pts. k \<le> n \<longrightarrow> k < h)"
    by (metis get_None_keys not_None_eq tryGetCheckpoint_def)
  then show ?thesis
    unfolding is_alternative_block_allowed_def last_below [OF assms] violation_iff by auto
qed

lemma alternative_allowed_exact_witness:
  "table_ok [(5 :: u32, replicate 32 (0 :: byte))] \<and> is_alternative_block_allowed [(5, replicate 32 0)] 20 12 \<and>
   \<not> is_alternative_block_allowed [(5, replicate 32 0)] 20 9 \<and> \<not> is_alternative_block_allowed [(5, replicate 32 0)] 8 5"
  using alternative_allowed_exact [of "[(5, replicate 32 0)]" 20 12] alternative_allowed_exact [of "[(5, replicate 32 0)]" 20 9]
    alternative_allowed_exact [of "[(5, replicate 32 0)]" 8 5]
  by (simp add: is_in_checkpoint_zone_def mdb_last_def tryGetCheckpoint_def)



end
