(* ===== verification/Difficulty.thy ===== *)
theory Difficulty
  imports Chain_DB
begin

text \<open>
  The proof-of-work comparison of src/src/CryptoNoteCore/Difficulty.cpp.  A 256-bit hash is read
  as four little-endian 64-bit words; the product with the difficulty is formed word by word and
  only the carries are kept.  Shown: the test is exactly \<open>hash * difficulty < 2^256\<close>.
\<close>

section \<open>Definitions\<close>

text \<open>The result is \<open>(low, high)\<close>.\<close>

definition mul :: "u64 \<Rightarrow> u64 \<Rightarrow> u64 \<times> u64" where
  "mul a b = (let res = (ucast a :: 128 word) * ucast b in (ucast res, ucast (drop_bit 64 res)))"

definition cadd :: "u64 \<Rightarrow> u64 \<Rightarrow> bool" where
  "cadd a b \<longleftrightarrow> a + b < a"

definition cadc :: "u64 \<Rightarrow> u64 \<Rightarrow> bool \<Rightarrow> bool" where
  "cadc a b c \<longleftrightarrow> a + b < a \<or> (c \<and> a + b = - 1)"

definition hash_word :: "hash \<Rightarrow> nat \<Rightarrow> u64" where
  "hash_word h i = le_value (take 8 (drop (8 * i) h))"

definition check_hash :: "hash \<Rightarrow> u64 \<Rightarrow> bool" where
  "check_hash hash difficulty =
     (let (top, high) = mul (hash_word hash 3) difficulty in
      if high \<noteq> 0 then False
      else
        let (low, cur) = mul (hash_word hash 0) difficulty;
            (low, high) = mul (hash_word hash 1) difficulty;
            carry = cadd cur low;
            cur = high;
            (low, high) = mul (hash_word hash 2) difficulty;
            carry = cadc cur low carry;
            carry = cadc high top carry
        in \<not> carry)"

section \<open>Exactness\<close>

lemma mul_exact:
  assumes "mul a b = (low, high)"
  shows "unat low + 2 ^ 64 * unat high = unat a * unat b"
proof -
  have ab: "unat (ucast a :: 128 word) = unat a" "unat (ucast b :: 128 word) = unat b"
    using unsigned_less [of a, where ?'a = nat] unsigned_less [of b, where ?'a = nat] by (simp_all add: unat_ucast_mod)
  have "unat a * unat b \<le> (2 ^ 64 - 1) * (2 ^ 64 - 1)"
    using unsigned_less [of a, where ?'a = nat] unsigned_less [of b, where ?'a = nat] by (intro mult_le_mono) simp_all
  then have lt: "unat a * unat b < 2 ^ 128" by simp
  then have res: "unat ((ucast a :: 128 word) * ucast b) = unat a * unat b"
    by (subst unat_mult_exact) (simp_all add: ab)
  have "low = ucast ((ucast a :: 128 word) * ucast b)" "high = ucast (drop_bit 64 ((ucast a :: 128 word) * ucast b))"
    using assms by (auto simp: mul_def Let_def)
  then have "unat low = unat a * unat b mod 2 ^ 64" "unat high = unat a * unat b div 2 ^ 64 mod 2 ^ 64"
    by (simp_all add: unat_ucast_mod res unat_drop_bit_div)
  moreover have "unat a * unat b div 2 ^ 64 < 2 ^ 64" using lt by (simp add: less_mult_imp_div_less)
  ultimately show ?thesis by simp
qed

lemma unat_sum: "unat (a + b :: u64) = (unat a + unat b) mod 2 ^ 64"
  by (simp add: unat_word_ariths)

lemma sum_mod: "x < M \<Longrightarrow> y < M \<Longrightarrow> (x + y) mod M = (if x + y < M then x + y else x + y - M)" for x y M :: nat
  by (simp add: mod_if)

lemma word_bound: "unat (a :: u64) < 2 ^ 64"
  using unsigned_less [of a, where ?'a = nat] by simp

lemma cadd_iff: "cadd a b \<longleftrightarrow> 2 ^ 64 \<le> unat a + unat b"
  unfolding cadd_def word_less_nat_alt unat_sum sum_mod [OF word_bound word_bound]
  using word_bound [of a] word_bound [of b] by (auto split: if_splits)

lemma cadc_iff: "cadc a b c \<longleftrightarrow> 2 ^ 64 \<le> unat a + unat b + of_bool c"
proof -
  have "unat (- 1 :: u64) = 2 ^ 64 - 1" by (simp add: unsigned_minus_1_eq_mask mask_eq_exp_minus_1)
  then have m1: "a + b = - 1 \<longleftrightarrow> (unat a + unat b) mod 2 ^ 64 = 2 ^ 64 - 1"
    by (metis unat_sum word_unat_eq_iff)
  show ?thesis
    unfolding cadc_def word_less_nat_alt unat_sum m1 sum_mod [OF word_bound word_bound]
    using word_bound [of a] word_bound [of b] by (cases c) (auto split: if_splits)
qed

lemma carry_step: "0 < B \<Longrightarrow> x + B * X < B * Y \<longleftrightarrow> x div B + X < Y" for x X Y B :: nat
  using div_less_iff_less_mult [of B "x + B * X" Y] by (simp add: mult.commute add.commute)

lemma carry_bool: "x < 2 * B \<Longrightarrow> x div B = of_bool (B \<le> x)" for x B :: nat
proof (cases "x < B")
  case False
  assume "x < 2 * B"
  then have "x div B = Suc ((x - B) div B)" using False by (simp add: le_div_geq)
  also have "\<dots> = 1" using \<open>x < 2 * B\<close> False by simp
  finally show ?thesis using False by simp
qed simp

lemma be_val_append: "be_val (xs @ ys) = be_val xs * 256 ^ length ys + be_val ys"
  by (induction xs) (simp_all add: algebra_simps power_add)

lemma be_val_zeros: "be_val (replicate n 0) = 0"
  by (induction n) simp_all

lemma be_val_word: "length bs = 8 \<Longrightarrow> be_val (rev bs) = unat (le_value bs :: u64)"
  using be_val_rev [of 8 "le_value bs :: u64"] le_bytes_le_value [of bs, where ?'w = 64]
    unsigned_less [of "le_value bs :: u64", where ?'a = nat] by simp

lemma hash_value_words:
  assumes "length h = 32"
  shows "be_val (rev h) = unat (hash_word h 0) + 2 ^ 64 * unat (hash_word h 1) +
     2 ^ 128 * unat (hash_word h 2) + 2 ^ 192 * unat (hash_word h 3)"
proof -
  have "h = take 8 h @ drop 8 h" "drop 8 h = take 8 (drop 8 h) @ drop 16 h" "drop 16 h = take 8 (drop 16 h) @ drop 24 h"
    using append_take_drop_id [of 8 h] append_take_drop_id [of 8 "drop 8 h"] append_take_drop_id [of 8 "drop 16 h"] by simp_all
  moreover have "drop 24 h = take 8 (drop 24 h)" using assms by simp
  ultimately have "h = take 8 (drop 0 h) @ take 8 (drop 8 h) @ take 8 (drop 16 h) @ take 8 (drop 24 h)"
    by (metis drop_0)
  then have "be_val (rev h) = be_val (rev (take 8 (drop 0 h) @ take 8 (drop 8 h) @ take 8 (drop 16 h) @ take 8 (drop 24 h)))"
    by simp
  also have "\<dots> = unat (hash_word h 0) + 2 ^ 64 * unat (hash_word h 1) +
     2 ^ 128 * unat (hash_word h 2) + 2 ^ 192 * unat (hash_word h 3)"
    using assms by (simp add: be_val_append be_val_word hash_word_def)
  finally show ?thesis .
qed

text \<open>
  C19.  A proof-of-work hash of 32 bytes passes for a difficulty exactly when the hash, read as a
  little-endian number, times the difficulty is below \<open>2 ^ 256\<close>.
\<close>

theorem check_hash_exact:
  assumes "length hash = HASH_SIZE"
  shows "check_hash hash difficulty \<longleftrightarrow> be_val (rev hash) * unat difficulty < 2 ^ 256"
proof -
  obtain l0 h0 l1 h1 l2 h2 l3 h3 where m: "mul (hash_word hash 0) difficulty = (l0, h0)" "mul (hash_word hash 1) difficulty = (l1, h1)"
    "mul (hash_word hash 2) difficulty = (l2, h2)" "mul (hash_word hash 3) difficulty = (l3, h3)" by fastforce
  define B where "B = (2 :: nat) ^ 64"
  have b: "unat x < B" for x :: u64 unfolding B_def by (rule word_bound)
  have B0: "0 < B" by (simp add: B_def)
  let ?c1 = "of_bool (B \<le> unat h0 + unat l1) :: nat"
  let ?c2 = "of_bool (B \<le> ?c1 + (unat h1 + unat l2)) :: nat"
  have v: "be_val (rev hash) * unat difficulty = unat l0 + B * ((unat h0 + unat l1) + B * ((unat h1 + unat l2)
      + B * ((unat h2 + unat l3) + B * unat h3)))"
    using mul_exact [OF m(1)] mul_exact [OF m(2)] mul_exact [OF m(3)] mul_exact [OF m(4)] assms
    by (simp add: hash_value_words size_defs B_def algebra_simps)
  have top: "2 ^ 256 = B * (B * (B * (B * 1)))" by (simp add: B_def)
  have "be_val (rev hash) * unat difficulty < 2 ^ 256 \<longleftrightarrow>
      (unat h0 + unat l1) + B * ((unat h1 + unat l2) + B * ((unat h2 + unat l3) + B * unat h3)) < B * (B * (B * 1))"
    unfolding v top by (subst carry_step [OF B0]) (use b [of l0] in simp)
  also have "\<dots> \<longleftrightarrow> (?c1 + (unat h1 + unat l2)) + B * ((unat h2 + unat l3) + B * unat h3) < B * (B * 1)"
    by (subst carry_step [OF B0]) (use carry_bool [of "unat h0 + unat l1" B] b [of h0] b [of l1] in simp)
  also have "\<dots> \<longleftrightarrow> ?c2 + (unat h2 + unat l3) + B * unat h3 < B * 1"
    by (subst carry_step [OF B0]) (use carry_bool [of "?c1 + (unat h1 + unat l2)" B] b [of h1] b [of l2] in simp)
  also have "\<dots> \<longleftrightarrow> unat h3 = 0 \<and> ?c2 + (unat h2 + unat l3) < B"
    by (cases "unat h3") simp_all
  also have "\<dots> \<longleftrightarrow> check_hash hash difficulty"
    unfolding check_hash_def m Let_def prod.case cadd_iff cadc_iff B_def [symmetric]
    by (auto simp: unat_eq_0 add_ac not_le)
  finally show ?thesis by blast
qed

lemma check_hash_exact_witness:
  "check_hash (replicate 31 0 @ [1]) 255 \<and> \<not> check_hash (replicate 31 0 @ [1]) 256"
  using check_hash_exact [of "replicate 31 0 @ [1]"] by (simp add: size_defs be_val_zeros)

end
