(* ===== verification/Chain_Rules.thy ===== *)
theory Chain_Rules
  imports Block_Store Currency Checkpoints Difficulty
begin

text \<open>
  The state of src/src/CryptoNoteCore/Blockchain.h and the block-level rules of Blockchain.cpp:
  upgrade heights (UpgradeDetector.h), difficulty of the next block, block sizes and their median
  (Common/Math.h), timestamps, proof of work, coinbase shape, coinbase amount and the binding of
  the reward to the block signer.  Chain state is read through the active write transaction when
  there is one (\<open>readTxn\<close>).  Cryptography, the parent block of versions 2 and 3 and the wall clock
  are arguments.
\<close>

section \<open>State\<close>

record FinalityForkState =
  ff_active :: bool
  localTipHeight :: u32
  localTipHash :: hash
  competingTipHeight :: u32
  competingTipHash :: hash
  divergenceHeight :: u32
  refusedDepth :: u32

definition no_fork :: FinalityForkState where
  "no_fork = \<lparr>ff_active = False, localTipHeight = 0, localTipHash = NULL_HASH, competingTipHeight = 0,
     competingTipHash = NULL_HASH, divergenceHeight = 0, refusedDepth = 0\<rparr>"

record Blockchain =
  m_currency :: Currency
  m_db :: LMDBBlockchainDB
  m_checkpoints :: "(u32, hash) table"
  m_alternative_chains :: "(hash, BlockEntry) table"
  m_orphanBlocksIndex :: "(u32 \<times> hash) list"
  m_votingCompleteHeight :: "byte \<Rightarrow> u32"
  m_current_block_cumul_sz_limit :: u64
  m_batchCount :: nat
  m_batchFastMode :: bool
  m_finalityForkState :: FinalityForkState
  m_badFreeRegProofs :: "hash list"
  m_badFreeRegProofsOrder :: "hash list"
  m_goodFreeRegProofs :: "hash list"
  m_goodFreeRegProofsOrder :: "hash list"
  m_freeRegPrechecks :: u64

record ('s, 'k) node_env =
  ev_pq :: "'s pq_crypto"
  ev_pow :: "'k pow_crypto"
  ev_parent :: "Block \<Rightarrow> ParentBlock"

abbreviation db_tables :: "Blockchain \<Rightarrow> tables" where
  "db_tables bc \<equiv> readTxn (m_db bc)"

section \<open>Heights and versions\<close>

definition UNDEF_HEIGHT :: u32 where "UNDEF_HEIGHT = - 1"

definition detector_upgradeHeight :: "Currency \<Rightarrow> (byte \<Rightarrow> u32) \<Rightarrow> byte \<Rightarrow> u32" where
  "detector_upgradeHeight c voting v =
     (if upgradeHeight c v = UNDEF_HEIGHT then
        (if voting v = UNDEF_HEIGHT then UNDEF_HEIGHT else calculateUpgradeHeight c (voting v))
      else upgradeHeight c v)"

definition getBlockMajorVersionForHeight :: "Blockchain \<Rightarrow> u32 \<Rightarrow> byte" where
  "getBlockMajorVersionForHeight bc height =
     (let up = detector_upgradeHeight (m_currency bc) (m_votingCompleteHeight bc) in
      if up 8 < height then 8
      else if up 7 < height then 7
      else if up 6 < height then 6
      else if up 5 < height then 5
      else if up 4 < height then 4
      else if up 3 < height then 3
      else if up 2 < height then 2
      else BLOCK_MAJOR_VERSION_1)"

definition getCurrentBlockchainHeight :: "Blockchain \<Rightarrow> u32" where
  "getCurrentBlockchainHeight bc = getChainHeight (db_tables bc)"

definition getTailId :: "Blockchain \<Rightarrow> hash" where
  "getTailId bc =
     (let h = getChainHeight (db_tables bc) in
      if h = 0 then NULL_HASH else meta_hash (blockMetaOrZero (db_tables bc) (h - 1)))"

definition getBlockIdByHeight :: "Blockchain \<Rightarrow> u32 \<Rightarrow> hash" where
  "getBlockIdByHeight bc height =
     (case getBlockMeta (db_tables bc) height of None \<Rightarrow> NULL_HASH | Some m \<Rightarrow> meta_hash m)"

definition haveBlock :: "Blockchain \<Rightarrow> hash \<Rightarrow> bool" where
  "haveBlock bc i \<longleftrightarrow> getHashHeight (db_tables bc) i \<noteq> None \<or> mdb_get i (m_alternative_chains bc) \<noteq> None"

section \<open>Difficulty and sizes\<close>

definition medianValue :: "'w::len word list \<Rightarrow> 'w word" where
  "medianValue v =
     (if v = [] then 0
      else if length v = 1 then v ! 0
      else let n = length v div 2; s = sort v in
           if length v mod 2 \<noteq> 0 then s ! n else (s ! (n - 1) + s ! n) div 2)"

text \<open>The slow path: at most \<open>n\<close> blocks back along the hash links, newest first.\<close>

fun walk_back :: "Blockchain \<Rightarrow> nat \<Rightarrow> hash \<Rightarrow> (u64 \<times> u64) list option" where
  "walk_back bc 0 h = Some []"
| "walk_back bc (Suc n) h =
     (if h = NULL_HASH then Some []
      else case mdb_get h (m_alternative_chains bc) of
        Some b \<Rightarrow> map_option (Cons (timestamp (be_bl b), cumulative_difficulty b))
                    (walk_back bc n (previousBlockHash (be_bl b)))
      | None \<Rightarrow>
          (case getHashHeight (db_tables bc) h of
             None \<Rightarrow> None
           | Some bh \<Rightarrow>
               let m = blockMetaOrZero (db_tables bc) bh in
               map_option (Cons (meta_timestamp m, meta_cumulativeDifficulty m)) (walk_back bc n (meta_prevHash m))))"

definition getDifficultyForNextBlock :: "Blockchain \<Rightarrow> hash \<Rightarrow> u64" where
  "getDifficultyForNextBlock bc prevHash =
     (if prevHash = NULL_HASH then 1
      else
        let t = db_tables bc;
            chainHeight = getChainHeight t;
            v = getBlockMajorVersionForHeight bc chainHeight;
            difficultyBlocksCount = min (max (if 0 < chainHeight then chainHeight - 1 else 1) 1)
              (ucast (difficultyBlocksCountByBlockVersion (m_currency bc) v))
        in case getHashHeight t prevHash of
             Some prevHeight \<Rightarrow>
               let fromHeight = (if difficultyBlocksCount \<le> prevHeight + 1
                                 then prevHeight + 1 - difficultyBlocksCount else 0);
                   metas = getBlockMetaRange t fromHeight prevHeight
               in nextDifficulty (m_currency bc) (map meta_timestamp metas) (map meta_cumulativeDifficulty metas)
           | None \<Rightarrow>
               (case walk_back bc (unat difficultyBlocksCount) prevHash of
                  None \<Rightarrow> 0
                | Some bs \<Rightarrow> nextDifficulty (m_currency bc) (rev (map fst bs)) (rev (map snd bs))))"

definition getBackwardBlocksSize :: "Blockchain \<Rightarrow> u64 \<Rightarrow> u64 \<Rightarrow> u64 list option" where
  "getBackwardBlocksSize bc from_height count =
     (let t = db_tables bc; chainHeight = getChainHeight t in
      if \<not> from_height < ucast chainHeight then None
      else let start_offset = ucast (from_height + 1 - min (from_height + 1) count) in
           Some (map (\<lambda>m. ucast (meta_blockCumulativeSize m)) (getBlockMetaRange t start_offset (ucast from_height))))"

definition get_last_n_blocks_sizes :: "Blockchain \<Rightarrow> u64 \<Rightarrow> u64 list option" where
  "get_last_n_blocks_sizes bc count =
     (let chainHeight = getChainHeight (db_tables bc) in
      if chainHeight = 0 then Some [] else getBackwardBlocksSize bc (ucast (chainHeight - 1)) count)"

text \<open>The callers ignore the result and keep the empty vector on failure.\<close>

definition last_sizes :: "Blockchain \<Rightarrow> u64 list" where
  "last_sizes bc = (case get_last_n_blocks_sizes bc (m_rewardBlocksWindow (m_currency bc)) of None \<Rightarrow> [] | Some sz \<Rightarrow> sz)"

definition update_next_cumulative_size_limit :: "Blockchain \<Rightarrow> Blockchain" where
  "update_next_cumulative_size_limit bc =
     (let v = getBlockMajorVersionForHeight bc (getChainHeight (db_tables bc));
          zone = blockGrantedFullRewardZoneByBlockVersion (m_currency bc) v;
          median = medianValue (last_sizes bc);
          median = (if median \<le> zone then zone else median)
      in bc\<lparr>m_current_block_cumul_sz_limit := median * 2\<rparr>)"

definition checkCumulativeBlockSize :: "Blockchain \<Rightarrow> u64 \<Rightarrow> u64 \<Rightarrow> bool" where
  "checkCumulativeBlockSize bc cumulativeBlockSize height \<longleftrightarrow>
     \<not> maxBlockCumulativeSize (m_currency bc) height < cumulativeBlockSize"

section \<open>Timestamps\<close>

function ts_loop :: "tables \<Rightarrow> u64 \<Rightarrow> u64 \<Rightarrow> u64 list" where
  "ts_loop t start stop =
     meta_timestamp (blockMetaOrZero t (ucast start)) #
       (if start = 0 then [] else if start - 1 = stop then [] else ts_loop t (start - 1) stop)"
  by pat_completeness auto
termination
  by (relation "measure (\<lambda>(_, start, _). unat start)") (auto simp: unat_sub_if_size unat_eq_0 [symmetric])

declare ts_loop.simps [simp del]

definition complete_timestamps_vector :: "Blockchain \<Rightarrow> byte \<Rightarrow> u64 \<Rightarrow> u64 list \<Rightarrow> bool \<times> u64 list" where
  "complete_timestamps_vector bc v start_top_height timestamps =
     (let window = m_timestampCheckWindow_v1 (m_currency bc) in
      if window \<le> of_nat (length timestamps) then (True, timestamps)
      else
        let chainHeight = getChainHeight (db_tables bc);
            need_elements = window - of_nat (length timestamps)
        in if \<not> start_top_height < ucast chainHeight then (False, timestamps)
           else let stop_offset = (if need_elements < start_top_height then start_top_height - need_elements else 0) in
                (True, timestamps @ ts_loop (db_tables bc) start_top_height stop_offset))"

definition check_block_timestamp :: "Blockchain \<Rightarrow> u64 list \<Rightarrow> Block \<Rightarrow> bool" where
  "check_block_timestamp bc timestamps b =
     (if of_nat (length timestamps) < m_timestampCheckWindow_v1 (m_currency bc) then True
      else \<not> timestamp b < medianValue timestamps)"

definition check_block_timestamp_main :: "Blockchain \<Rightarrow> u64 \<Rightarrow> Block \<Rightarrow> bool" where
  "check_block_timestamp_main bc now b =
     (if now + m_blockFutureTimeLimit_v1 (m_currency bc) < timestamp b then False
      else
        let chainHeight = getChainHeight (db_tables bc);
            window = ucast (m_timestampCheckWindow_v1 (m_currency bc));
            fromH = (if window < chainHeight then chainHeight - window else 0)
        in check_block_timestamp bc
             (map meta_timestamp (getBlockMetaRange (db_tables bc) fromH (chainHeight - 1))) b)"

section \<open>Proof of work\<close>

definition prevalidateBlockProofOfWork :: "('s, 'k) node_env \<Rightarrow> Block \<Rightarrow> hash option" where
  "prevalidateBlockProofOfWork E b =
     (case get_block_hashing_blob (pw_fast_hash (ev_pow E)) b of
        None \<Rightarrow> None
      | Some blob \<Rightarrow>
          (case getPqMinerSpendPubFromExtra (extra (baseTransaction b)) of
             None \<Rightarrow> None
           | Some spendPub \<Rightarrow> snd (discrete_power_verify (ev_pow E) blob spendPub (signature b))))"

definition checkProofOfWork :: "('s, 'k) node_env \<Rightarrow> Block \<Rightarrow> u64 \<Rightarrow> bool" where
  "checkProofOfWork E b currentDiffic =
     (case prevalidateBlockProofOfWork E b of None \<Rightarrow> False | Some proofOfWork \<Rightarrow> check_hash proofOfWork currentDiffic)"

section \<open>Block rules\<close>

definition checkBlockVersion :: "Blockchain \<Rightarrow> Block \<Rightarrow> bool" where
  "checkBlockVersion bc b \<longleftrightarrow> majorVersion b = getBlockMajorVersionForHeight bc (get_block_height b)"

definition checkParentBlockSize :: "('s, 'k) node_env \<Rightarrow> Block \<Rightarrow> bool" where
  "checkParentBlockSize E b =
     (if majorVersion b = BLOCK_MAJOR_VERSION_2 \<or> majorVersion b = BLOCK_MAJOR_VERSION_3 then
        (case toBinaryArray (\<lambda>pb. put_ParentBlock (pw_fast_hash (ev_pow E)) False False pb (timestamp b) (nonce b)) (ev_parent E b) of
           (ok, blob) \<Rightarrow> ok \<and> length blob \<le> 2 * 1024)
      else True)"

definition is_coinbase_output :: "TransactionOutput \<Rightarrow> bool" where
  "is_coinbase_output out = (case target out of OutCoinbase _ \<Rightarrow> True | _ \<Rightarrow> False)"

definition prevalidate_miner_transaction :: "Blockchain \<Rightarrow> Block \<Rightarrow> u32 \<Rightarrow> bool" where
  "prevalidate_miner_transaction bc b height =
     (let tx = baseTransaction b in
      if version tx \<noteq> TRANSACTION_VERSION_1 then False
      else if txType tx \<noteq> TX_COINBASE then False
      else if \<not> length (inputs tx) = 1 then False
      else if height = 0 \<and> outputs tx = [] then False
      else if height \<noteq> 0 \<and> \<not> length (outputs tx) = 1 then False
      else if \<not> list_all is_coinbase_output (outputs tx) then False
      else if pqSignatures tx \<noteq> [] then False
      else (case inputs tx ! 0 of
              InPq _ \<Rightarrow> False
            | InBase i \<Rightarrow>
                if blockIndex i \<noteq> height then False
                else if height \<noteq> 0 \<and> unlockHeight tx \<noteq> ucast height + m_minedMoneyUnlockWindow (m_currency bc) then False
                else if \<not> check_outs_overflow tx then False
                else \<not> MAX_EXTRA_SIZE_PQ < length (extra tx)))"

text \<open>The reward and the emission change.\<close>

definition validate_miner_transaction :: "Blockchain \<Rightarrow> Block \<Rightarrow> u32 \<Rightarrow> u64 \<Rightarrow> u64 \<Rightarrow> u64 \<Rightarrow> (u64 \<times> 64 word) option" where
  "validate_miner_transaction bc b height cumulativeBlockSize alreadyGeneratedCoins fee =
     (let minerReward = fold (\<lambda>out s. s + amount out) (outputs (baseTransaction b)) 0 in
      if height = 0 then Some (minerReward, minerReward)
      else
        let blocksSizeMedian = medianValue (last_sizes bc);
            v = getBlockMajorVersionForHeight bc height
        in case getBlockReward (m_currency bc) v blocksSizeMedian cumulativeBlockSize alreadyGeneratedCoins fee of
             None \<Rightarrow> None
           | Some (reward, emissionChange) \<Rightarrow>
               if reward < minerReward then None
               else if minerReward < reward then None
               else Some (reward, emissionChange))"

definition validate_block_signature :: "('s, 'k) node_env \<Rightarrow> Block \<Rightarrow> u32 \<Rightarrow> bool" where
  "validate_block_signature E b height =
     (if height = 0 then True
      else if length (signature b) \<noteq> PQ_SIGNATURE_SIZE then False
      else if outputs (baseTransaction b) = [] then False
      else case getPqMinerSpendPubFromExtra (extra (baseTransaction b)) of
        None \<Rightarrow> False
      | Some spendPub \<Rightarrow>
          (case outputs (baseTransaction b) of
             [out] \<Rightarrow>
               (case target out of
                  OutCoinbase cbOut \<Rightarrow>
                    (let sha3 = sha3_256 (ev_pq E); cbRho = coinbaseRho sha3 spendPub height 0 in
                     cbSpendCommit cbOut = spendCommitHash sha3 spendPub cbRho)
                | _ \<Rightarrow> False)
           | _ \<Rightarrow> False))"

section \<open>Versions\<close>

lemma default_upgrade: "v \<in> {2, 3, 4, 5, 6, 7, 8} \<Longrightarrow> upgradeHeight (default_currency g h) v = 4294967294"
  by (auto simp: upgradeHeight_def default_currency_def builder_plain_def config_simps)

lemma default_detector:
  "v \<in> {2, 3, 4, 5, 6, 7, 8} \<Longrightarrow> detector_upgradeHeight (default_currency g h) voting v = 4294967294"
  using default_upgrade [of v g h] by (simp add: detector_upgradeHeight_def UNDEF_HEIGHT_def)

lemma version_one:
  assumes "m_currency bc = default_currency g h" and "height \<le> 4294967294"
  shows "getBlockMajorVersionForHeight bc height = 1"
  using assms(2)
  by (simp add: getBlockMajorVersionForHeight_def assms(1) default_detector Let_def not_less BLOCK_MAJOR_VERSION_1_def)

end
