(* ===== verification/Tx_Inputs.thy ===== *)
theory Tx_Inputs
  imports Chain_Rules
begin

text \<open>
  The transaction checks against the chain of src/src/CryptoNoteCore/Blockchain.cpp: resolving the
  outputs a transfer refers to, maturity, spent keys, fees, first registration wins, and the two
  remembered-proof caches of free registrations.
\<close>

section \<open>Referenced outputs\<close>

record PqReferencedTx =
  ref_found :: bool
  ref_block :: u32
  ref_slot :: u16
  ref_outputs :: "TransactionOutput list"

definition no_ref :: PqReferencedTx where
  "no_ref = \<lparr>ref_found = False, ref_block = 0, ref_slot = 0, ref_outputs = []\<rparr>"

text \<open>The cache lives for one check; a miss reads the database and is remembered.\<close>

definition pqReferencedTx :: "tables \<Rightarrow> hash \<Rightarrow> (hash, PqReferencedTx) table \<Rightarrow> PqReferencedTx \<times> (hash, PqReferencedTx) table" where
  "pqReferencedTx t txid cache =
     (case mdb_get txid cache of
        Some e \<Rightarrow> (e, cache)
      | None \<Rightarrow>
          let entry = (case getTxIndex t txid of
                         None \<Rightarrow> no_ref
                       | Some (block, slot) \<Rightarrow>
                           (case transactionByIndex t block slot of
                              Inl _ \<Rightarrow> no_ref
                            | Inr te \<Rightarrow> \<lparr>ref_found = True, ref_block = block, ref_slot = slot, ref_outputs = outputs (te_tx te)\<rparr>))
          in (entry, mdb_put txid entry cache))"

definition is_tx_spendheight_unlocked :: "Blockchain \<Rightarrow> u64 \<Rightarrow> bool" where
  "is_tx_spendheight_unlocked bc unlock_height =
     (if unlock_height = 0 then True
      else if m_maxBlockHeight (m_currency bc) < unlock_height then False
      else let currentHeight = getCurrentBlockchainHeight bc in
           unlock_height \<le> ucast (currentHeight - 1) + m_lockedTxAllowedDeltaBlocks (m_currency bc))"

definition is_tx_spendheight_unlocked_at :: "Blockchain \<Rightarrow> u64 \<Rightarrow> u32 \<Rightarrow> bool" where
  "is_tx_spendheight_unlocked_at bc unlock_height height =
     (if unlock_height = 0 then True
      else if m_maxBlockHeight (m_currency bc) < unlock_height then False
      else unlock_height \<le> ucast (height - 1) + m_lockedTxAllowedDeltaBlocks (m_currency bc))"

text \<open>The 32-byte commitment of an output a post-quantum input can spend.\<close>

definition spend_commit_of :: "TransactionOutput \<Rightarrow> hash option" where
  "spend_commit_of out = (case target out of OutPq po \<Rightarrow> Some (spendCommit po) | OutCoinbase c \<Rightarrow> Some (cbSpendCommit c) | OutKey _ \<Rightarrow> None)"

definition unresolved :: PqResolvedInput where
  "unresolved = \<lparr>r_spendCommit = NULL_HASH, r_amount = 0, r_exists = False, r_isPqOutput = False, r_isCoinbase = False\<rparr>"

text \<open>One round of the resolving loop; the new value of \<open>maxRefHeight\<close> is the second component.\<close>

definition resolve_input :: "Blockchain \<Rightarrow> PqInput \<Rightarrow> PqReferencedTx \<Rightarrow> u32 \<Rightarrow> PqResolvedInput \<times> u32" where
  "resolve_input bc i ref maxRefHeight =
     (if ref_found ref \<and> unat (prevOutIndex i) < length (ref_outputs ref) then
        let out = ref_outputs ref ! unat (prevOutIndex i) in
        (case spend_commit_of out of
           None \<Rightarrow> (unresolved, maxRefHeight)
         | Some sc \<Rightarrow>
             if is_tx_spendheight_unlocked bc (outUnlockHeight out) then
               (\<lparr>r_spendCommit = sc, r_amount = amount out, r_exists = True, r_isPqOutput = True, r_isCoinbase = (ref_slot ref = 0)\<rparr>,
                if maxRefHeight < ref_block ref then ref_block ref else maxRefHeight)
             else (unresolved, maxRefHeight))
      else (unresolved, maxRefHeight))"

fun resolve_inputs :: "Blockchain \<Rightarrow> PqInput list \<Rightarrow> (hash, PqReferencedTx) table \<Rightarrow> u32 \<Rightarrow> PqResolvedInput list \<times> u32" where
  "resolve_inputs bc [] cache maxRefHeight = ([], maxRefHeight)"
| "resolve_inputs bc (i # is) cache maxRefHeight =
     (let (ref, cache') = pqReferencedTx (db_tables bc) (prevTxid i) cache;
          (r, mh) = resolve_input bc i ref maxRefHeight;
          (rs, mh') = resolve_inputs bc is cache' mh
      in (r # rs, mh'))"

definition the_pq :: "TransactionInput \<Rightarrow> PqInput option" where
  "the_pq i = (case i of InPq p \<Rightarrow> Some p | InBase _ \<Rightarrow> None)"

text \<open>The highest block referred to, or the rejection.\<close>

definition checkPqInputs :: "'s pq_crypto \<Rightarrow> Blockchain \<Rightarrow> Transaction \<Rightarrow> u32 option" where
  "checkPqInputs C bc tx =
     (let signing = pqSigningContextForHeight (getCurrentBlockchainHeight bc) (m_genesisBlockHash (m_currency bc));
          ins = map the_pq (inputs tx)
      in if None \<in> set ins then None
         else
           let ps = map the ins in
           if \<exists>p \<in> set ps. keyRef p \<noteq> PQ_NO_KEY_REF \<and> \<not> (groupedAuth signing \<and> useV2 signing) then None
           else if \<exists>p \<in> set ps. hasSpentKey (db_tables bc) (pqNullifier (sha3_256 C) p) then None
           else
             let (resolved, maxRefHeight) = resolve_inputs bc ps [] 0 in
             (case checkPqTransactionInputs C tx resolved MINIMUM_FEE signing of
                Inl _ \<Rightarrow> None
              | Inr _ \<Rightarrow> Some maxRefHeight))"

fun referenced_sum :: "tables \<Rightarrow> TransactionInput list \<Rightarrow> (hash, PqReferencedTx) table \<Rightarrow> u64 \<Rightarrow> u64" where
  "referenced_sum t [] cache s = s"
| "referenced_sum t (i # is) cache s =
     (case i of
        InBase _ \<Rightarrow> referenced_sum t is cache s
      | InPq p \<Rightarrow>
          let (ref, cache') = pqReferencedTx t (prevTxid p) cache in
          if ref_found ref \<and> unat (prevOutIndex p) < length (ref_outputs ref) \<and>
             spend_commit_of (ref_outputs ref ! unat (prevOutIndex p)) \<noteq> None
          then referenced_sum t is cache' (s + amount (ref_outputs ref ! unat (prevOutIndex p)))
          else referenced_sum t is cache' s)"

definition pqReferencedInputAmount :: "Blockchain \<Rightarrow> Transaction \<Rightarrow> u64" where
  "pqReferencedInputAmount bc tx = referenced_sum (db_tables bc) (inputs tx) [] 0"

definition getPqTransactionFee :: "Blockchain \<Rightarrow> Transaction \<Rightarrow> u64 option" where
  "getPqTransactionFee bc tx =
     (let inAmount = pqReferencedInputAmount bc tx; outAmount = getOutputAmount tx
      in if inAmount < outAmount then None else Some (inAmount - outAmount))"

section \<open>Registrations\<close>

definition FREE_REG_REF_WINDOW :: u64 where "FREE_REG_REF_WINDOW = 60"

definition FREE_REG_BAD_PROOF_CACHE_SIZE :: nat where "FREE_REG_BAD_PROOF_CACHE_SIZE = 8192"

definition isPqAccountAlreadyRegistered :: "(bytes \<Rightarrow> hash) \<Rightarrow> tables \<Rightarrow> Transaction \<Rightarrow> bool" where
  "isPqAccountAlreadyRegistered sha3 t tx =
     (case getPqAccountRegistrationFromExtra (extra tx) of
        None \<Rightarrow> False
      | Some (viewPub, spendPub) \<Rightarrow> hasPqAcctReg t (getPqAccountIdentityHash sha3 viewPub spendPub))"

definition freeRegProofTuple :: "(bytes \<Rightarrow> hash) \<Rightarrow> hash \<Rightarrow> hash \<Rightarrow> u64 \<Rightarrow> hash" where
  "freeRegProofTuple H identity refBlockHash n = H (identity @ refBlockHash @ le_bytes 8 n)"

definition freeRegProofTupleOf :: "(bytes \<Rightarrow> hash) \<Rightarrow> (bytes \<Rightarrow> hash) \<Rightarrow> Transaction \<Rightarrow> hash option" where
  "freeRegProofTupleOf sha3 H tx =
     (case (getPqAccountRegistrationFromExtra (extra tx), getPowTagFromExtra (extra tx)) of
        (Some (viewPub, spendPub), Some (refBlockHash, n)) \<Rightarrow>
          Some (freeRegProofTuple H (getPqAccountIdentityHash sha3 viewPub spendPub) refBlockHash n)
      | _ \<Rightarrow> None)"

text \<open>The identity, the proof tag and the reference height.\<close>

definition freeRegChainStateOk :: "(bytes \<Rightarrow> hash) \<Rightarrow> Blockchain \<Rightarrow> Transaction \<Rightarrow> (hash \<times> (hash \<times> u64) \<times> u32) option" where
  "freeRegChainStateOk sha3 bc tx =
     (case (getPqAccountRegistrationFromExtra (extra tx), getPowTagFromExtra (extra tx)) of
        (Some (viewPub, spendPub), Some (refBlockHash, n)) \<Rightarrow>
          let identity = getPqAccountIdentityHash sha3 viewPub spendPub;
              curHeight = getCurrentBlockchainHeight bc
          in if PQ_TRANSCRIPT_V2_HEIGHT \<le> curHeight \<and> \<not> isCanonicalFreeRegExtra (extra tx) then None
             else (case getHashHeight (db_tables bc) refBlockHash of
                     None \<Rightarrow> None
                   | Some refHeight \<Rightarrow>
                       if curHeight \<le> refHeight \<or> FREE_REG_REF_WINDOW < ucast (curHeight - refHeight) then None
                       else if hasPqAcctReg (db_tables bc) identity then None
                       else Some (identity, (refBlockHash, n), refHeight))
      | _ \<Rightarrow> None)"

text \<open>A first-in first-out cache: the set and its order.\<close>

definition remember_proof :: "hash \<Rightarrow> hash list \<times> hash list \<Rightarrow> hash list \<times> hash list" where
  "remember_proof p cache =
     (case cache of (proofs, order) \<Rightarrow>
        if p \<in> set proofs then (proofs, order)
        else let (proofs, order) = (if FREE_REG_BAD_PROOF_CACHE_SIZE \<le> length order
                                    then (removeAll (hd order) proofs, tl order) else (proofs, order))
             in (p # proofs, order @ [p]))"

definition isKnownBadFreeRegProof :: "Blockchain \<Rightarrow> hash \<Rightarrow> bool" where
  "isKnownBadFreeRegProof bc p \<longleftrightarrow> p \<in> set (m_badFreeRegProofs bc)"

definition isKnownGoodFreeRegProof :: "Blockchain \<Rightarrow> hash \<Rightarrow> bool" where
  "isKnownGoodFreeRegProof bc p \<longleftrightarrow> p \<in> set (m_goodFreeRegProofs bc)"

definition rememberBadFreeRegProof :: "hash \<Rightarrow> Blockchain \<Rightarrow> Blockchain" where
  "rememberBadFreeRegProof p bc =
     (let (proofs, order) = remember_proof p (m_badFreeRegProofs bc, m_badFreeRegProofsOrder bc)
      in bc\<lparr>m_badFreeRegProofs := proofs, m_badFreeRegProofsOrder := order\<rparr>)"

definition rememberGoodFreeRegProof :: "hash \<Rightarrow> Blockchain \<Rightarrow> Blockchain" where
  "rememberGoodFreeRegProof p bc =
     (let (proofs, order) = remember_proof p (m_goodFreeRegProofs bc, m_goodFreeRegProofsOrder bc)
      in bc\<lparr>m_goodFreeRegProofs := proofs, m_goodFreeRegProofsOrder := order\<rparr>)"

definition checkFreeRegInputs :: "('s, 'k) node_env \<Rightarrow> Transaction \<Rightarrow> Blockchain \<Rightarrow> u32 option \<times> Blockchain" where
  "checkFreeRegInputs E tx bc =
     (case freeRegChainStateOk (sha3_256 (ev_pq E)) bc tx of
        None \<Rightarrow> (None, bc)
      | Some (identity, (refBlockHash, n), refHeight) \<Rightarrow>
          let proofTuple = freeRegProofTuple (pw_fast_hash (ev_pow E)) identity refBlockHash n in
          if isKnownBadFreeRegProof bc proofTuple then (None, bc)
          else if isKnownGoodFreeRegProof bc proofTuple then (Some refHeight, bc)
          else (case checkFreeRegTransactionPow (y_slow_hash (ev_pq E)) tx (m_freeRegPowTarget (m_currency bc)) of
                  Inl _ \<Rightarrow> (None, rememberBadFreeRegProof proofTuple bc)
                | Inr _ \<Rightarrow> (Some refHeight, rememberGoodFreeRegProof proofTuple bc)))"

definition precheckFreeRegPow :: "('s, 'k) node_env \<Rightarrow> Transaction \<Rightarrow> Blockchain \<Rightarrow> bool \<times> Blockchain" where
  "precheckFreeRegPow E tx bc0 =
     (let bc = bc0\<lparr>m_freeRegPrechecks := m_freeRegPrechecks bc0 + 1\<rparr> in
      case freeRegProofTupleOf (sha3_256 (ev_pq E)) (pw_fast_hash (ev_pow E)) tx of
        None \<Rightarrow> (False, bc)
      | Some proofTuple \<Rightarrow>
          if isKnownBadFreeRegProof bc proofTuple then (False, bc)
          else if isKnownGoodFreeRegProof bc proofTuple then (True, bc)
          else (case freeRegChainStateOk (sha3_256 (ev_pq E)) bc tx of
                  None \<Rightarrow> (False, bc)
                | Some _ \<Rightarrow>
                    (case checkFreeRegTransactionPow (y_slow_hash (ev_pq E)) tx (m_freeRegPowTarget (m_currency bc)) of
                       Inl _ \<Rightarrow> (False, rememberBadFreeRegProof proofTuple bc)
                     | Inr _ \<Rightarrow> (True, rememberGoodFreeRegProof proofTuple bc))))"

section \<open>All inputs\<close>

definition AT_TIP :: u32 where "AT_TIP = 0xFFFFFFFF"

text \<open>The highest block used, or the rejection; only the proof caches change.\<close>

definition checkTransactionInputs :: "('s, 'k) node_env \<Rightarrow> Transaction \<Rightarrow> u32 \<Rightarrow> Blockchain \<Rightarrow> u32 option \<times> Blockchain" where
  "checkTransactionInputs E tx validationHeight bc =
     (if version tx = TRANSACTION_VERSION_1 then
        if (isPqTransfer (txType tx) \<or> txType tx = TX_FREE_REG) \<and>
           isPqAccountAlreadyRegistered (sha3_256 (ev_pq E)) (db_tables bc) tx then (None, bc)
        else if isPqTransfer (txType tx) then
          let height = (if validationHeight = AT_TIP then getCurrentBlockchainHeight bc else validationHeight) in
          if \<not> isPqTransferTypeAllowedAt (m_currency bc) (txType tx) height then (None, bc)
          else (checkPqInputs (ev_pq E) bc tx, bc)
        else if txType tx = TX_FREE_REG then checkFreeRegInputs E tx bc
        else if txType tx = TX_COINBASE then (Some 0, bc)
        else (None, bc)
      else (None, bc))"

definition haveTransaction :: "Blockchain \<Rightarrow> hash \<Rightarrow> bool" where
  "haveTransaction bc txid \<longleftrightarrow> getTxIndex (db_tables bc) txid \<noteq> None"

definition haveTransactionKeyImagesAsSpent :: "(bytes \<Rightarrow> hash) \<Rightarrow> Blockchain \<Rightarrow> Transaction \<Rightarrow> bool" where
  "haveTransactionKeyImagesAsSpent sha3 bc tx \<longleftrightarrow>
     (\<exists>i \<in> set (inputs tx). case i of InPq p \<Rightarrow> hasSpentKey (db_tables bc) (pqInputNullifierAsKeyImage sha3 p) | InBase _ \<Rightarrow> False)"

section \<open>Lookups without the cache\<close>

definition ref_of :: "tables \<Rightarrow> hash \<Rightarrow> PqReferencedTx" where
  "ref_of t txid = fst (pqReferencedTx t txid [])"

definition cache_ok :: "tables \<Rightarrow> (hash, PqReferencedTx) table \<Rightarrow> bool" where
  "cache_ok t cache \<longleftrightarrow> (\<forall>k e. mdb_get k cache = Some e \<longrightarrow> e = ref_of t k)"

lemma cache_ok_Nil [simp]: "cache_ok t []"
  by (simp add: cache_ok_def)

lemma pqReferencedTx_ok:
  assumes "cache_ok t cache"
  shows "\<exists>cache'. pqReferencedTx t txid cache = (ref_of t txid, cache') \<and> cache_ok t cache'"
proof (cases "mdb_get txid cache")
  case None
  define e where "e = ref_of t txid"
  have "pqReferencedTx t txid cache = (e, mdb_put txid e cache)"
    by (simp add: e_def ref_of_def pqReferencedTx_def None Let_def)
  then show ?thesis using assms by (auto simp: cache_ok_def mdb_get_put e_def)
next
  case (Some e)
  then show ?thesis using assms by (auto simp: pqReferencedTx_def cache_ok_def)
qed

text \<open>The output an input refers to.\<close>

definition referenced_output :: "tables \<Rightarrow> PqInput \<Rightarrow> TransactionOutput option" where
  "referenced_output t p =
     (let ref = ref_of t (prevTxid p) in
      if ref_found ref \<and> unat (prevOutIndex p) < length (ref_outputs ref) then
        let out = ref_outputs ref ! unat (prevOutIndex p) in
        if spend_commit_of out = None then None else Some out
      else None)"

definition referenced_amount :: "tables \<Rightarrow> PqInput \<Rightarrow> u64" where
  "referenced_amount t p = (case referenced_output t p of None \<Rightarrow> 0 | Some out \<Rightarrow> amount out)"

abbreviation resolved_of :: "Blockchain \<Rightarrow> PqInput \<Rightarrow> PqResolvedInput" where
  "resolved_of bc p \<equiv> fst (resolve_input bc p (ref_of (db_tables bc) (prevTxid p)) 0)"

lemma resolve_input_fst: "fst (resolve_input bc p ref a) = fst (resolve_input bc p ref b)"
  by (simp add: resolve_input_def Let_def split: option.splits)

lemma resolve_inputs_map:
  "cache_ok (db_tables bc) cache \<Longrightarrow> fst (resolve_inputs bc ps cache mh) = map (resolved_of bc) ps"
proof (induction ps arbitrary: cache mh)
  case (Cons p ps)
  obtain cache' where c: "pqReferencedTx (db_tables bc) (prevTxid p) cache = (ref_of (db_tables bc) (prevTxid p), cache')"
    "cache_ok (db_tables bc) cache'" using pqReferencedTx_ok [OF Cons.prems] by blast
  obtain r mh1 where r: "resolve_input bc p (ref_of (db_tables bc) (prevTxid p)) mh = (r, mh1)" by fastforce
  have "fst (resolve_inputs bc ps cache' mh1) = map (resolved_of bc) ps" by (rule Cons.IH [OF c(2)])
  then show ?case
    using r resolve_input_fst [of bc p "ref_of (db_tables bc) (prevTxid p)" mh 0]
    by (auto simp: c Let_def split: prod.splits)
qed simp

lemma referenced_sum_eq:
  "cache_ok t cache \<Longrightarrow> referenced_sum t (map InPq ps) cache s = s + sum_list (map (referenced_amount t) ps)"
proof (induction ps arbitrary: cache s)
  case (Cons p ps)
  obtain cache' where c: "pqReferencedTx t (prevTxid p) cache = (ref_of t (prevTxid p), cache')"
    "cache_ok t cache'" using pqReferencedTx_ok [OF Cons.prems] by blast
  show ?case
    using Cons.IH [OF c(2)]
    by (simp add: c Let_def referenced_amount_def referenced_output_def add.assoc)
qed simp

lemma resolved_exists:
  assumes "r_exists (resolved_of bc p)"
  shows "\<exists>out. referenced_output (db_tables bc) p = Some out \<and> r_amount (resolved_of bc p) = amount out \<and>
     spend_commit_of out = Some (r_spendCommit (resolved_of bc p)) \<and> is_tx_spendheight_unlocked bc (outUnlockHeight out)"
  using assms by (auto simp: resolve_input_def referenced_output_def unresolved_def Let_def split: if_splits option.splits)

section \<open>What an accepted transfer does\<close>

lemma checkPqInputs_Some:
  assumes "checkPqInputs C bc tx = Some mh"
  obtains ps nfs where "inputs tx = map InPq ps"
    and "\<forall>p \<in> set ps. \<not> hasSpentKey (db_tables bc) (pqNullifier (sha3_256 C) p)"
    and "checkPqTransactionInputs C tx (map (resolved_of bc) ps) MINIMUM_FEE
           (pqSigningContextForHeight (getCurrentBlockchainHeight bc) (m_genesisBlockHash (m_currency bc))) = Inr nfs"
proof -
  let ?ins = "map the_pq (inputs tx)"
  from assms have n: "None \<notin> set ?ins" by (auto simp: checkPqInputs_def Let_def split: if_splits)
  define ps where "ps = map the ?ins"
  have "x = InPq (the (the_pq x))" if "x \<in> set (inputs tx)" for x
    using n that by (cases x) (force simp: the_pq_def)+
  then have ps: "inputs tx = map InPq ps" by (simp add: ps_def map_idI comp_def)
  obtain rs m where rs: "resolve_inputs bc ps [] 0 = (rs, m)" by fastforce
  have "rs = map (resolved_of bc) ps" using resolve_inputs_map [of bc "[]" ps 0] rs by simp
  then show thesis
    using assms n that [of ps] ps rs
    unfolding checkPqInputs_def Let_def ps_def [symmetric]
    by (auto split: if_splits sum.splits)
qed

lemma unat_sum_list:
  "(\<Sum>x \<leftarrow> xs. unat (f x :: u64)) < 2 ^ 64 \<Longrightarrow> unat (sum_list (map f xs)) = (\<Sum>x \<leftarrow> xs. unat (f x))"
proof (induction xs)
  case (Cons x xs)
  then show ?case by (simp add: unat_add_exact)
qed simp

lemma out_sum: "fold (\<lambda>out a. a + amount out) outs s = s + sum_list (map amount outs)"
  by (induction outs arbitrary: s) (simp_all add: add.assoc)

lemma accepted_transfer:
  assumes "checkPqInputs C bc tx = Some mh"
  obtains ps fee where "inputs tx = map InPq ps" and "getPqTransactionFee bc tx = Some fee"
    and "(\<Sum>p \<leftarrow> ps. unat (referenced_amount (db_tables bc) p)) = out_total (outputs tx) + unat fee"
    and "\<forall>p \<in> set ps. referenced_output (db_tables bc) p \<noteq> None \<and> \<not> hasSpentKey (db_tables bc) (pqNullifier (sha3_256 C) p)"
    and "pqTxFeeFloor MINIMUM_FEE (of_nat (length (extra tx))) \<le> fee"
proof -
  let ?t = "db_tables bc"
  obtain ps nfs where ps: "inputs tx = map InPq ps" and sp: "\<forall>p \<in> set ps. \<not> hasSpentKey ?t (pqNullifier (sha3_256 C) p)"
    and chk: "checkPqTransactionInputs C tx (map (resolved_of bc) ps) MINIMUM_FEE
           (pqSigningContextForHeight (getCurrentBlockchainHeight bc) (m_genesisBlockHash (m_currency bc))) = Inr nfs"
    using assms by (rule checkPqInputs_Some)
  obtain sumIn sumOut where si: "spend_inputs (sha3_256 C) (zip (inputs tx) (map (resolved_of bc) ps)) [] 0 = Inr (nfs, sumIn)"
    and so: "sum_outputs (outputs tx) 0 = Inr sumOut" "sumOut \<le> sumIn"
    and fl: "pqTxFeeFloor MINIMUM_FEE (of_nat (length (extra tx))) \<le> sumIn - sumOut"
    using chk unfolding check_inputs_stages by (auto simp: MINIMUM_FEE_def)
  have all: "\<forall>i < length ps. spendable (sha3_256 C) (ps ! i) (map (resolved_of bc) ps ! i)"
    and tot: "in_total (map (resolved_of bc) ps) < 2 ^ 64" "unat sumIn = in_total (map (resolved_of bc) ps)"
    using si unfolding ps by (simp_all add: spend_all)
  have ex: "r_exists (resolved_of bc p)" if "p \<in> set ps" for p
    using all that by (auto simp: in_set_conv_nth spendable_def)
  have am: "r_amount (resolved_of bc p) = referenced_amount ?t p" if "p \<in> set ps" for p
    using resolved_exists [OF ex [OF that]] by (auto simp: referenced_amount_def)
  have it: "in_total (map (resolved_of bc) ps) = (\<Sum>p \<leftarrow> ps. unat (referenced_amount ?t p))"
    unfolding in_total_def map_map comp_def using am by (intro arg_cong [of _ _ sum_list] map_cong) simp_all
  have ot: "unat sumOut = out_total (outputs tx)" "out_total (outputs tx) < 2 ^ 64"
    using so(1) by (simp_all add: sum_outputs_iff out_total_def)
  have "sumIn = pqReferencedInputAmount bc tx"
    using tot it unat_sum_list [of "referenced_amount ?t" ps]
    by (simp add: word_unat_eq_iff pqReferencedInputAmount_def ps referenced_sum_eq)
  moreover have "sumOut = getOutputAmount tx"
    using ot unat_sum_list [of amount "outputs tx"]
    by (simp add: word_unat_eq_iff getOutputAmount_def out_sum out_total_def)
  ultimately have fee: "getPqTransactionFee bc tx = Some (sumIn - sumOut)"
    using so(2) by (simp add: getPqTransactionFee_def Let_def not_less)
  show thesis
  proof (rule that [OF ps fee])
    show "(\<Sum>p \<leftarrow> ps. unat (referenced_amount ?t p)) = out_total (outputs tx) + unat (sumIn - sumOut)"
      using tot it ot so(2) by (simp add: unat_sub word_le_nat_alt)
    show "\<forall>p \<in> set ps. referenced_output ?t p \<noteq> None \<and> \<not> hasSpentKey ?t (pqNullifier (sha3_256 C) p)"
      using sp resolved_exists [OF ex] by force
  qed (rule fl)
qed

end
