(* ===== verification/Push_Block.thy ===== *)
theory Push_Block
  imports Tx_Inputs
begin

text \<open>
  Adding a block to the main chain and taking it off again: \<open>pushBlock\<close>,
  \<open>rollbackBlockchainTo\<close> and the write-batch control of src/src/CryptoNoteCore/Blockchain.cpp, with
  the upgrade detectors of UpgradeDetector.h.  \<open>now\<close> is the wall clock.  A store call that throws
  (map full or any other error) is the argument \<open>fault\<close>: the number of transactions processed
  when it happens.  Log output, disk synchronisation modes and map resizing have no effect on
  the state and are left out.
\<close>

section \<open>Write batches\<close>

definition BATCH_SIZE :: nat where "BATCH_SIZE = 1000"

definition isSyncing :: "u64 \<Rightarrow> Blockchain \<Rightarrow> bool" where
  "isSyncing now bc =
     (let h = getChainHeight (db_tables bc) in
      if h = 0 then False
      else case getBlockMeta (db_tables bc) (h - 1) of
        None \<Rightarrow> False
      | Some m \<Rightarrow> meta_timestamp m < now \<and> 3600 < now - meta_timestamp m)"

definition beginBatchIfNeeded :: "u64 \<Rightarrow> Blockchain \<Rightarrow> Blockchain" where
  "beginBatchIfNeeded now bc =
     (if m_batchCount bc = 0
      then bc\<lparr>m_batchFastMode := isSyncing now bc, m_db := beginWriteTxn (m_db bc)\<rparr>
      else bc)"

definition commitBatchOrBlock :: "u64 \<Rightarrow> bool \<Rightarrow> Blockchain \<Rightarrow> Blockchain" where
  "commitBatchOrBlock now forceSingle bc =
     (let bc1 = bc\<lparr>m_batchCount := m_batchCount bc + 1\<rparr>;
          syncing = isSyncing now bc1
      in if forceSingle \<or> \<not> syncing \<or> BATCH_SIZE \<le> m_batchCount bc1
         then bc1\<lparr>m_db := commitTxn (m_db bc1), m_batchCount := 0, m_batchFastMode := m_batchFastMode bc1 \<and> syncing\<rparr>
         else bc1)"

text \<open>A commit that throws (\<open>ok = False\<close>) aborts the batch.\<close>

definition flushBatch :: "bool \<Rightarrow> Blockchain \<Rightarrow> bool \<times> Blockchain" where
  "flushBatch ok bc =
     (if m_batchCount bc = 0 then (True, bc)
      else if \<not> ok then (False, bc\<lparr>m_db := abortTxn (m_db bc), m_batchCount := 0, m_batchFastMode := False\<rparr>)
      else (True, bc\<lparr>m_db := commitTxn (m_db bc), m_batchCount := 0, m_batchFastMode := False\<rparr>))"

definition abortCurrentBlockTxn :: "bool \<Rightarrow> Blockchain \<Rightarrow> Blockchain" where
  "abortCurrentBlockTxn blockTxnActive bc =
     (if blockTxnActive \<and> hasNestedTxn (m_db bc) then bc\<lparr>m_db := abortNestedWriteTxn (m_db bc)\<rparr>
      else if hasActiveTxn (m_db bc) \<and> m_batchCount bc = 0 then bc\<lparr>m_db := abortTxn (m_db bc)\<rparr>
      else bc)"

definition abortEntireBatchTxn :: "bool \<Rightarrow> Blockchain \<Rightarrow> Blockchain" where
  "abortEntireBatchTxn blockTxnActive bc =
     (let bc1 = (if blockTxnActive \<and> hasNestedTxn (m_db bc) then bc\<lparr>m_db := abortNestedWriteTxn (m_db bc)\<rparr> else bc)
      in bc1\<lparr>m_db := abortTxn (m_db bc1), m_batchCount := 0\<rparr>)"

section \<open>Upgrade voting\<close>

text \<open>The loop runs over \<open>height + 1 - window\<close> to \<open>height\<close>.\<close>

definition getNumberOfVotes :: "tables \<Rightarrow> Currency \<Rightarrow> byte \<Rightarrow> u32 \<Rightarrow> u64" where
  "getNumberOfVotes t c v height =
     (if height < m_upgradeVotingWindow c - 1 then 0
      else let from = unat (height + 1 - m_upgradeVotingWindow c) in
           of_nat (length (filter (\<lambda>i. let m = blockMetaOrZero t (of_nat i) in
                                       meta_majorVersion m = v - 1 \<and> meta_minorVersion m = 1)
                             [from..<unat height + 1])))"

definition isVotingComplete :: "tables \<Rightarrow> Currency \<Rightarrow> byte \<Rightarrow> u32 \<Rightarrow> bool" where
  "isVotingComplete t c v height \<longleftrightarrow>
     ucast (m_upgradeVotingThreshold c * m_upgradeVotingWindow c) \<le> 100 * getNumberOfVotes t c v height"

definition detector_blockPushed :: "byte \<Rightarrow> Blockchain \<Rightarrow> Blockchain" where
  "detector_blockPushed v bc =
     (if upgradeHeight (m_currency bc) v \<noteq> UNDEF_HEIGHT then bc
      else if m_votingCompleteHeight bc v \<noteq> UNDEF_HEIGHT then bc
      else let lastBlockHeight = getChainHeight (db_tables bc) - 1 in
           if isVotingComplete (db_tables bc) (m_currency bc) v lastBlockHeight
           then bc\<lparr>m_votingCompleteHeight := (m_votingCompleteHeight bc)(v := lastBlockHeight)\<rparr> else bc)"

definition detector_blockPopped :: "byte \<Rightarrow> Blockchain \<Rightarrow> Blockchain" where
  "detector_blockPopped v bc =
     (if m_votingCompleteHeight bc v \<noteq> UNDEF_HEIGHT \<and> getChainHeight (db_tables bc) = m_votingCompleteHeight bc v
      then bc\<lparr>m_votingCompleteHeight := (m_votingCompleteHeight bc)(v := UNDEF_HEIGHT)\<rparr> else bc)"

section \<open>Checks before the write\<close>

record block_verification_context =
  m_added_to_main_chain :: bool
  m_verification_failed :: bool
  m_marked_as_orphaned :: bool
  m_already_exists :: bool
  m_switched_to_alt_chain :: bool
  m_finality_fork :: bool

definition initial_bvc :: block_verification_context where
  "initial_bvc = \<lparr>m_added_to_main_chain = False, m_verification_failed = False, m_marked_as_orphaned = False,
     m_already_exists = False, m_switched_to_alt_chain = False, m_finality_fork = False\<rparr>"

text \<open>
  The difficulty of the block, or a rejection with the value \<open>m_verification_failed\<close> is set to
  (some rejections leave it alone).  \<open>proof\<close> is the proof-of-work hash of a prevalidated block.
\<close>

definition block_checks ::
  "('s, 'k) node_env \<Rightarrow> u64 \<Rightarrow> Blockchain \<Rightarrow> Block \<Rightarrow> hash \<Rightarrow> hash option \<Rightarrow> bool + u64" where
  "block_checks E now bc b blockHash proof =
     (let t = db_tables bc in
      if getHashHeight t blockHash \<noteq> None then Inl True
      else if \<not> checkBlockVersion bc b then Inl True
      else if \<not> checkParentBlockSize E b then Inl True
      else if 5 \<le> majorVersion b \<and> getMergeMiningTagFromExtra (extra (baseTransaction b)) \<noteq> None then Inl False
      else if previousBlockHash b \<noteq> getTailId bc then Inl True
      else if \<not> check_block_timestamp_main bc now b then Inl True
      else
        let currentDifficulty = getDifficultyForNextBlock bc (previousBlockHash b);
            newHeight = getChainHeight t;
            inCheckpoint = is_in_checkpoint_zone (m_checkpoints bc) newHeight
        in if currentDifficulty = 0 then Inl False
           else if newHeight \<noteq> 0 \<and> inCheckpoint \<and> \<not> fst (check_block (m_checkpoints bc) newHeight blockHash) then Inl True
           else if newHeight \<noteq> 0 \<and> \<not> inCheckpoint \<and>
                   \<not> (case proof of Some pw \<Rightarrow> check_hash pw currentDifficulty
                      | None \<Rightarrow> checkProofOfWork E b currentDifficulty) then Inl True
           else if \<not> prevalidate_miner_transaction bc b newHeight then Inl True
           else if \<not> validate_block_signature E b newHeight then Inl True
           else Inr currentDifficulty)"

section \<open>The transactions of the block\<close>

record PushState =
  ps_bc :: Blockchain
  ps_slot :: u16
  freeRegCount :: u64
  pqRegistrationsInBlock :: "hash list"
  cumulative_block_size :: u64
  fee_summary :: u64

abbreviation new_entry :: "Transaction \<Rightarrow> TransactionEntry" where
  "new_entry tx \<equiv> \<lparr>te_tx = tx, m_global_output_indexes = []\<rparr>"

text \<open>\<open>pushTransaction\<close> inside the active write transaction.\<close>

definition store_tx :: "('s, 'k) node_env \<Rightarrow> u32 \<Rightarrow> u16 \<Rightarrow> hash \<Rightarrow> Transaction \<Rightarrow> Blockchain \<Rightarrow> bool \<times> Blockchain" where
  "store_tx E height slot txid tx bc =
     (let (ok, t) = push_entry (sha3_256 (ev_pq E)) height (new_entry tx) txid slot (db_tables bc)
      in (ok, bc\<lparr>m_db := writeTxn (\<lambda>_. t) (m_db bc)\<rparr>))"

text \<open>The fee of one transaction; transfers take their input amounts from the referenced outputs.\<close>

definition block_tx_fee :: "Blockchain \<Rightarrow> Transaction \<Rightarrow> u64 option" where
  "block_tx_fee bc tx =
     (if TRANSACTION_VERSION_1 \<le> version tx \<and> isPqTransfer (txType tx) then getPqTransactionFee bc tx
      else let inAmount = 0; outAmount = getOutputAmount tx in
           if inAmount < outAmount then None else Some (inAmount - outAmount))"

definition push_one ::
  "('s, 'k) node_env \<Rightarrow> bool \<Rightarrow> u32 \<Rightarrow> hash \<times> Transaction \<Rightarrow> PushState \<Rightarrow> Blockchain + PushState" where
  "push_one E inCheckpoint height idtx st =
     (let (txid, tx) = idtx;
          bc = ps_bc st;
          isFree = (TRANSACTION_VERSION_1 \<le> version tx \<and> txType tx = TX_FREE_REG);
          frees = (if isFree then freeRegCount st + 1 else freeRegCount st);
          account = account_of (sha3_256 (ev_pq E)) tx
      in if isFree \<and> m_freeRegPerBlock (m_currency bc) < frees then Inl bc
         else if \<exists>a. account = Some a \<and> a \<in> set (pqRegistrationsInBlock st) then Inl bc
         else case block_tx_fee bc tx of
           None \<Rightarrow> Inl bc
         | Some fee \<Rightarrow>
             let (r, bc1) = (if inCheckpoint then (Some 0, bc) else checkTransactionInputs E tx height bc) in
             if r = None then Inl bc1
             else case store_tx E height (ps_slot st + 1) txid tx bc1 of
               (False, bc2) \<Rightarrow> Inl bc2
             | (True, bc2) \<Rightarrow>
                 Inr \<lparr>ps_bc = bc2, ps_slot = ps_slot st + 1, freeRegCount = frees,
                      pqRegistrationsInBlock = (case account of None \<Rightarrow> pqRegistrationsInBlock st
                                                | Some a \<Rightarrow> a # pqRegistrationsInBlock st),
                      cumulative_block_size = cumulative_block_size st + of_nat (length (object_bytes put_Transaction tx)),
                      fee_summary = fee_summary st + fee\<rparr>)"

fun push_all ::
  "('s, 'k) node_env \<Rightarrow> bool \<Rightarrow> u32 \<Rightarrow> (hash \<times> Transaction) list \<Rightarrow> PushState \<Rightarrow> Blockchain + PushState" where
  "push_all E inCheckpoint height [] st = Inr st"
| "push_all E inCheckpoint height (x # xs) st =
     (case push_one E inCheckpoint height x st of
        Inl bc \<Rightarrow> Inl bc
      | Inr st' \<Rightarrow> push_all E inCheckpoint height xs st')"

section \<open>The write section\<close>

text \<open>What the handlers of a failing store call leave behind.\<close>

definition store_fault :: "bool \<Rightarrow> Blockchain \<Rightarrow> Blockchain" where
  "store_fault blockTxnActive bc = (abortEntireBatchTxn blockTxnActive bc)\<lparr>m_batchFastMode := False\<rparr>"

definition block_entry :: "Block \<Rightarrow> u32 \<Rightarrow> Transaction list \<Rightarrow> u64 \<Rightarrow> u64 \<Rightarrow> u64 \<Rightarrow> BlockEntry" where
  "block_entry b height transactions sz difficulty coins =
     \<lparr>be_bl = b, be_height = height, block_cumulative_size = sz, cumulative_difficulty = difficulty,
      already_generated_coins = coins, be_transactions = map new_entry (baseTransaction b # transactions)\<rparr>"

datatype push_outcome = Rejected Blockchain | Faulted Blockchain | Written Blockchain

definition write_block ::
  "('s, 'k) node_env \<Rightarrow> u64 \<Rightarrow> nat option \<Rightarrow> Block \<Rightarrow> Transaction list \<Rightarrow> hash \<Rightarrow> u64 \<Rightarrow> Blockchain \<Rightarrow> push_outcome" where
  "write_block E now fault b transactions blockHash currentDifficulty bc0 =
     (let newHeight = getChainHeight (db_tables bc0);
          inCheckpoint = is_in_checkpoint_zone (m_checkpoints bc0) newHeight;
          minerTransactionHash = object_hash (pw_fast_hash (ev_pow E)) put_Transaction (baseTransaction b);
          coinbase_blob_size = snd (getObjectBinarySize put_Transaction (baseTransaction b));
          prevMeta = (if 0 < newHeight then blockMetaOrZero (db_tables bc0) (newHeight - 1) else zero_meta);
          bc1 = beginBatchIfNeeded now bc0;
          blockTxnActive = (0 < m_batchCount bc1);
          bc2 = (if blockTxnActive then bc1\<lparr>m_db := beginNestedWriteTxn (m_db bc1)\<rparr> else bc1);
          idtxs = zip (transactionHashes b) transactions
      in case store_tx E newHeight 0 minerTransactionHash (baseTransaction b) bc2 of
           (False, bc3) \<Rightarrow> Rejected (abortCurrentBlockTxn blockTxnActive bc3)
         | (True, bc3) \<Rightarrow>
             let st0 = \<lparr>ps_bc = bc3, ps_slot = 0, freeRegCount = 0, pqRegistrationsInBlock = [],
                        cumulative_block_size = coinbase_blob_size, fee_summary = 0\<rparr>
             in case push_all E inCheckpoint newHeight (case fault of None \<Rightarrow> idtxs | Some k \<Rightarrow> take k idtxs) st0 of
                  Inl bc4 \<Rightarrow> Rejected (abortCurrentBlockTxn blockTxnActive bc4)
                | Inr st \<Rightarrow>
                    let bc4 = ps_bc st; sz = cumulative_block_size st in
                    if \<exists>k. fault = Some k \<and> k < length idtxs then Faulted (store_fault blockTxnActive bc4)
                    else if \<not> checkCumulativeBlockSize bc4 sz (ucast newHeight) then Rejected (abortCurrentBlockTxn blockTxnActive bc4)
                    else case validate_miner_transaction bc4 b newHeight sz (meta_alreadyGeneratedCoins prevMeta) (fee_summary st) of
                      None \<Rightarrow> Rejected (abortCurrentBlockTxn blockTxnActive bc4)
                    | Some (reward, emissionChange) \<Rightarrow>
                        if fault \<noteq> None then Faulted (store_fault blockTxnActive bc4)
                        else
                          let block = block_entry b newHeight transactions sz
                                        (currentDifficulty + meta_cumulativeDifficulty prevMeta)
                                        (meta_alreadyGeneratedCoins prevMeta + emissionChange);
                              bc5 = bc4\<lparr>m_db := writeTxn (pushBlock_entry block blockHash) (m_db bc4)\<rparr>;
                              bc6 = (if blockTxnActive then bc5\<lparr>m_db := commitNestedWriteTxn (m_db bc5)\<rparr> else bc5)
                          in Written (commitBatchOrBlock now (newHeight = 0) bc6))"

definition pushBlock ::
  "('s, 'k) node_env \<Rightarrow> u64 \<Rightarrow> nat option \<Rightarrow> Block \<Rightarrow> Transaction list \<Rightarrow> hash \<Rightarrow> hash option \<Rightarrow>
     block_verification_context \<Rightarrow> Blockchain \<Rightarrow> bool \<times> block_verification_context \<times> Blockchain" where
  "pushBlock E now fault b transactions blockHash proof bvc bc =
     (case block_checks E now bc b blockHash proof of
        Inl vf \<Rightarrow> (False, (if vf then bvc\<lparr>m_verification_failed := True\<rparr> else bvc), bc)
      | Inr currentDifficulty \<Rightarrow>
          (case write_block E now fault b transactions blockHash currentDifficulty bc of
             Rejected bc' \<Rightarrow> (False, bvc\<lparr>m_verification_failed := True\<rparr>, bc')
           | Faulted bc' \<Rightarrow> (False, bvc, bc')
           | Written bc' \<Rightarrow>
               (True, bvc\<lparr>m_added_to_main_chain := True\<rparr>,
                update_next_cumulative_size_limit (fold detector_blockPushed [2, 3, 4, 5, 6] bc'))))"

section \<open>Taking blocks off\<close>

text \<open>\<open>removeLastBlock\<close> in the active write transaction, or in one of its own.\<close>

definition remove_last :: "('s, 'k) node_env \<Rightarrow> Blockchain \<Rightarrow> Blockchain res" where
  "remove_last E bc =
     (case removeLastBlock (sha3_256 (ev_pq E)) (pw_fast_hash (ev_pow E)) (db_tables bc) of
        Inl e \<Rightarrow> Inl e
      | Inr t \<Rightarrow>
          if hasActiveTxn (m_db bc) then Inr (bc\<lparr>m_db := writeTxn (\<lambda>_. t) (m_db bc)\<rparr>)
          else Inr (bc\<lparr>m_db := commitTxn (writeTxn (\<lambda>_. t) (beginWriteTxn (m_db bc)))\<rparr>))"

text \<open>The transactions to give back to the pool, without the coinbase.\<close>

fun read_transactions :: "tables \<Rightarrow> u32 \<Rightarrow> nat list \<Rightarrow> Transaction list res" where
  "read_transactions t height [] = Inr []"
| "read_transactions t height (i # is) =
     (case transactionByIndex t height (of_nat i) of
        Inl e \<Rightarrow> Inl e
      | Inr te \<Rightarrow> (case read_transactions t height is of Inl e \<Rightarrow> Inl e | Inr r \<Rightarrow> Inr (te_tx te # r)))"

text \<open>The loop may not end when a block cannot be removed; that is the value \<open>None\<close>.\<close>

partial_function (option) rollback_loop :: "('s, 'k) node_env \<Rightarrow> u32 \<Rightarrow> Blockchain \<Rightarrow> Blockchain res option" where
  "rollback_loop E height bc =
     (if height + 1 < getChainHeight (db_tables bc) then
        (case remove_last E bc of Inl e \<Rightarrow> Some (Inl e) | Inr bc' \<Rightarrow> rollback_loop E height bc')
      else Some (Inr bc))"

definition rollbackBlockchainTo :: "('s, 'k) node_env \<Rightarrow> u32 \<Rightarrow> Blockchain \<Rightarrow> Blockchain res option" where
  "rollbackBlockchainTo E height bc = rollback_loop E height (snd (flushBatch True bc))"

section \<open>What the write section leaves alone\<close>

definition frame :: "Blockchain \<Rightarrow> Blockchain \<Rightarrow> bool" where
  "frame bc bc' \<longleftrightarrow> m_currency bc' = m_currency bc \<and> m_checkpoints bc' = m_checkpoints bc \<and>
     m_alternative_chains bc' = m_alternative_chains bc \<and> m_orphanBlocksIndex bc' = m_orphanBlocksIndex bc \<and>
     m_votingCompleteHeight bc' = m_votingCompleteHeight bc \<and>
     m_current_block_cumul_sz_limit bc' = m_current_block_cumul_sz_limit bc \<and> m_batchCount bc' = m_batchCount bc \<and>
     m_finalityForkState bc' = m_finalityForkState bc \<and>
     m_env (m_db bc') = m_env (m_db bc) \<and> m_parentWriteTxn (m_db bc') = m_parentWriteTxn (m_db bc) \<and>
     hasActiveTxn (m_db bc') = hasActiveTxn (m_db bc)"

lemma frame_refl [simp]: "frame bc bc"
  by (simp add: frame_def)

lemma frame_trans: "frame a b \<Longrightarrow> frame b c \<Longrightarrow> frame a c"
  by (simp add: frame_def)

lemma remember_frame [simp]:
  "frame bc (rememberBadFreeRegProof p bc)" "m_db (rememberBadFreeRegProof p bc) = m_db bc"
  "frame bc (rememberGoodFreeRegProof p bc)" "m_db (rememberGoodFreeRegProof p bc) = m_db bc"
  by (simp_all add: rememberBadFreeRegProof_def rememberGoodFreeRegProof_def frame_def split: prod.splits)

lemma checkTransactionInputs_frame:
  "frame bc (snd (checkTransactionInputs E tx h bc)) \<and> m_db (snd (checkTransactionInputs E tx h bc)) = m_db bc"
  by (auto simp: checkTransactionInputs_def checkFreeRegInputs_def Let_def split: option.splits sum.splits prod.splits)

lemma store_tx_frame: "frame bc (snd (store_tx E h slot txid tx bc))"
  by (auto simp: store_tx_def frame_def writeTxn_def hasActiveTxn_def split: prod.splits)

lemma store_tx_True:
  assumes "hasActiveTxn (m_db bc)"
  shows "store_tx E h slot txid tx bc = (True, bc') \<longleftrightarrow>
     (\<exists>t. push_entry (sha3_256 (ev_pq E)) h (new_entry tx) txid slot (db_tables bc) = (True, t) \<and>
          bc' = bc\<lparr>m_db := (m_db bc)\<lparr>m_writeTxn := Some t\<rparr>\<rparr>)"
  using assms by (auto simp: store_tx_def hasActiveTxn_def writeTxn_def split: prod.splits)

lemma readTxn_write [simp]: "readTxn (db\<lparr>m_writeTxn := Some t\<rparr>) = t"
  by (simp add: readTxn_def)

abbreviation input_verdict :: "('s, 'k) node_env \<Rightarrow> bool \<Rightarrow> Transaction \<Rightarrow> u32 \<Rightarrow> Blockchain \<Rightarrow> u32 option \<times> Blockchain" where
  "input_verdict E ic tx h bc \<equiv> (if ic then (Some 0, bc) else checkTransactionInputs E tx h bc)"

lemma input_verdict_frame: "input_verdict E ic tx h bc = (r, bc1) \<Longrightarrow> frame bc bc1 \<and> m_db bc1 = m_db bc"
  using checkTransactionInputs_frame [of bc E tx h] by (auto split: if_splits)

lemma push_one_Inl:
  assumes "push_one E ic h x st = Inl bc'"
  shows "frame (ps_bc st) bc'"
proof -
  obtain txid tx where x: "x = (txid, tx)" by fastforce
  obtain r bc1 where v: "input_verdict E ic tx h (ps_bc st) = (r, bc1)" by fastforce
  obtain ok bc2 where w: "store_tx E h (ps_slot st + 1) txid tx bc1 = (ok, bc2)" by fastforce
  have "bc' \<in> {ps_bc st, bc1, bc2}"
    using assms unfolding push_one_def x Let_def prod.case v w by (auto split: if_splits option.splits bool.splits)
  moreover have "frame (ps_bc st) bc1" using input_verdict_frame [OF v] by simp
  moreover have "frame bc1 bc2" using store_tx_frame [of bc1 E h "ps_slot st + 1" txid tx] by (simp add: w)
  ultimately show ?thesis using frame_trans by auto
qed

lemma push_one_Inr:
  assumes "push_one E ic h (txid, tx) st = Inr st'" and "hasActiveTxn (m_db (ps_bc st))"
  obtains fee where "frame (ps_bc st) (ps_bc st')" and "ps_slot st' = ps_slot st + 1"
    and "push_entry (sha3_256 (ev_pq E)) h (new_entry tx) txid (ps_slot st') (db_tables (ps_bc st)) = (True, db_tables (ps_bc st'))"
    and "block_tx_fee (ps_bc st) tx = Some fee" and "fee_summary st' = fee_summary st + fee"
    and "\<not> ic \<longrightarrow> fst (checkTransactionInputs E tx h (ps_bc st)) \<noteq> None"
proof -
  obtain r bc1 where v: "input_verdict E ic tx h (ps_bc st) = (r, bc1)" by fastforce
  obtain ok bc2 where w: "store_tx E h (ps_slot st + 1) txid tx bc1 = (ok, bc2)" by fastforce
  have step: "r \<noteq> None \<and> ok \<and> ps_bc st' = bc2 \<and> ps_slot st' = ps_slot st + 1 \<and>
      (\<exists>fee. block_tx_fee (ps_bc st) tx = Some fee \<and> fee_summary st' = fee_summary st + fee)"
    using assms(1) unfolding push_one_def Let_def prod.case v w
    by (auto split: if_splits option.splits bool.splits)
  have f1: "frame (ps_bc st) bc1" "m_db bc1 = m_db (ps_bc st)" using input_verdict_frame [OF v] by simp_all
  have f2: "frame bc1 bc2" using store_tx_frame [of bc1 E h "ps_slot st + 1" txid tx] by (simp add: w)
  obtain t where t: "push_entry (sha3_256 (ev_pq E)) h (new_entry tx) txid (ps_slot st + 1) (db_tables bc1) = (True, t)"
      "bc2 = bc1\<lparr>m_db := (m_db bc1)\<lparr>m_writeTxn := Some t\<rparr>\<rparr>"
    using step w assms(2) store_tx_True [of bc1 E h "ps_slot st + 1" txid tx bc2] f1 by auto
  have "\<not> ic \<longrightarrow> fst (checkTransactionInputs E tx h (ps_bc st)) \<noteq> None" using v step by (auto split: if_splits)
  then show thesis using that step frame_trans [OF f1(1) f2] t f1(2) by auto
qed

lemma push_all_Inl: "push_all E ic h xs st = Inl bc' \<Longrightarrow> frame (ps_bc st) bc' \<or> \<not> hasActiveTxn (m_db (ps_bc st))"
proof (induction xs arbitrary: st)
  case (Cons x xs)
  obtain txid tx where x: "x = (txid, tx)" by fastforce
  show ?case
  proof (cases "push_one E ic h x st")
    case (Inl b)
    then show ?thesis using Cons.prems push_one_Inl [OF Inl] by simp
  next
    case (Inr st')
    show ?thesis
    proof (cases "hasActiveTxn (m_db (ps_bc st))")
      case True
      have f: "frame (ps_bc st) (ps_bc st')" using push_one_Inr [OF Inr [unfolded x] True] by blast
      then have "hasActiveTxn (m_db (ps_bc st'))" using True by (simp add: frame_def)
      then show ?thesis using Cons.IH [of st'] Cons.prems Inr f frame_trans by auto
    qed simp
  qed
qed simp

abbreviation as_entries :: "(hash \<times> Transaction) list \<Rightarrow> (hash \<times> TransactionEntry) list" where
  "as_entries \<equiv> map (\<lambda>(txid, tx). (txid, new_entry tx))"

lemma push_all_Inr:
  "push_all E ic h xs st = Inr st' \<Longrightarrow> hasActiveTxn (m_db (ps_bc st)) \<Longrightarrow>
     frame (ps_bc st) (ps_bc st') \<and>
     push_entries (sha3_256 (ev_pq E)) h (ps_slot st + 1) (as_entries xs) (db_tables (ps_bc st)) = (True, db_tables (ps_bc st'))"
proof (induction xs arbitrary: st)
  case (Cons x xs)
  obtain txid tx where x: "x = (txid, tx)" by fastforce
  obtain st1 where one: "push_one E ic h (txid, tx) st = Inr st1" and rest: "push_all E ic h xs st1 = Inr st'"
    using Cons.prems(1) by (auto simp: x split: sum.splits)
  from one Cons.prems(2) have f: "frame (ps_bc st) (ps_bc st1)" "ps_slot st1 = ps_slot st + 1"
    "push_entry (sha3_256 (ev_pq E)) h (new_entry tx) txid (ps_slot st1) (db_tables (ps_bc st)) = (True, db_tables (ps_bc st1))"
    by (auto elim!: push_one_Inr)
  have "hasActiveTxn (m_db (ps_bc st1))" using f(1) Cons.prems(2) by (simp add: frame_def)
  from Cons.IH [OF rest this] show ?case
    using f frame_trans by (auto simp: x push_entries_Cons_True)
qed simp

section \<open>A rejected block changes nothing\<close>

text \<open>Between blocks a write transaction is open exactly when a batch is in flight, and none is nested.\<close>

definition txn_ok :: "Blockchain \<Rightarrow> bool" where
  "txn_ok bc \<longleftrightarrow> m_parentWriteTxn (m_db bc) = None \<and> (hasActiveTxn (m_db bc) \<longleftrightarrow> 0 < m_batchCount bc)"

definition opened :: "u64 \<Rightarrow> Blockchain \<Rightarrow> Blockchain" where
  "opened now bc =
     (let bc1 = beginBatchIfNeeded now bc
      in if 0 < m_batchCount bc1 then bc1\<lparr>m_db := beginNestedWriteTxn (m_db bc1)\<rparr> else bc1)"

lemma opened_facts:
  assumes "txn_ok bc"
  shows "m_batchCount (opened now bc) = m_batchCount bc" "hasActiveTxn (m_db (opened now bc))"
    "m_env (m_db (opened now bc)) = m_env (m_db bc)" "db_tables (opened now bc) = db_tables bc"
    "m_parentWriteTxn (m_db (opened now bc)) = (if 0 < m_batchCount bc then m_writeTxn (m_db bc) else None)"
    "m_currency (opened now bc) = m_currency bc" "m_checkpoints (opened now bc) = m_checkpoints bc"
    "m_votingCompleteHeight (opened now bc) = m_votingCompleteHeight bc"
    "m_alternative_chains (opened now bc) = m_alternative_chains bc"
  using assms
  by (auto simp: opened_def beginBatchIfNeeded_def txn_ok_def Let_def beginWriteTxn_def beginNestedWriteTxn_def
      hasActiveTxn_def readTxn_def split: option.splits)

lemma abort_restores:
  assumes ok: "txn_ok bc" and f: "frame (opened now bc) bc'"
  shows "txn_ok (abortCurrentBlockTxn (0 < m_batchCount bc) bc')"
    and "m_env (m_db (abortCurrentBlockTxn (0 < m_batchCount bc) bc')) = m_env (m_db bc)"
    and "db_tables (abortCurrentBlockTxn (0 < m_batchCount bc) bc') = db_tables bc"
    and "m_batchCount (abortCurrentBlockTxn (0 < m_batchCount bc) bc') = m_batchCount bc"
  using opened_facts [OF ok, of now] f ok
  by (auto simp: abortCurrentBlockTxn_def frame_def txn_ok_def hasActiveTxn_def hasNestedTxn_def abortNestedWriteTxn_def
      abortTxn_def readTxn_def split: option.splits)

lemma fault_reverts:
  assumes ok: "txn_ok bc" and f: "frame (opened now bc) bc'"
  shows "txn_ok (store_fault n bc')" and "m_env (m_db (store_fault n bc')) = m_env (m_db bc)"
    and "db_tables (store_fault n bc') = m_env (m_db bc)" and "m_batchCount (store_fault n bc') = 0"
  using opened_facts [OF ok, of now] f
  by (auto simp: store_fault_def abortEntireBatchTxn_def frame_def txn_ok_def hasActiveTxn_def hasNestedTxn_def
      abortNestedWriteTxn_def abortTxn_def readTxn_def Let_def)

lemma batch_kept: "m_batchCount (beginBatchIfNeeded now bc) = m_batchCount bc"
  by (simp add: beginBatchIfNeeded_def)

abbreviation start_state :: "('s, 'k) node_env \<Rightarrow> Block \<Rightarrow> Blockchain \<Rightarrow> PushState" where
  "start_state E b bc \<equiv> \<lparr>ps_bc = bc, ps_slot = 0, freeRegCount = 0, pqRegistrationsInBlock = [],
     cumulative_block_size = snd (getObjectBinarySize put_Transaction (baseTransaction b)), fee_summary = 0\<rparr>"

text \<open>The last block's metadata, a run of the loop that passes every check, and the state it leaves.\<close>

definition prev_meta :: "Blockchain \<Rightarrow> DbBlockMeta" where
  "prev_meta bc = (let h = getChainHeight (db_tables bc) in if 0 < h then blockMetaOrZero (db_tables bc) (h - 1) else zero_meta)"

definition passes :: "('s, 'k) node_env \<Rightarrow> Block \<Rightarrow> Transaction list \<Rightarrow> Blockchain \<Rightarrow> Blockchain \<Rightarrow> PushState \<Rightarrow> 64 word \<Rightarrow> bool" where
  "passes E b txs bc bc2 st emission \<longleftrightarrow>
     (let h = getChainHeight (db_tables bc) in
      \<exists>bc3 reward.
        store_tx E h 0 (object_hash (pw_fast_hash (ev_pow E)) put_Transaction (baseTransaction b)) (baseTransaction b) bc2 = (True, bc3) \<and>
        push_all E (is_in_checkpoint_zone (m_checkpoints bc) h) h (zip (transactionHashes b) txs) (start_state E b bc3) = Inr st \<and>
        checkCumulativeBlockSize (ps_bc st) (cumulative_block_size st) (ucast h) \<and>
        validate_miner_transaction (ps_bc st) b h (cumulative_block_size st) (meta_alreadyGeneratedCoins (prev_meta bc))
          (fee_summary st) = Some (reward, emission))"

definition stored_block :: "Block \<Rightarrow> Transaction list \<Rightarrow> u64 \<Rightarrow> Blockchain \<Rightarrow> PushState \<Rightarrow> 64 word \<Rightarrow> BlockEntry" where
  "stored_block b txs diff bc st emission =
     block_entry b (getChainHeight (db_tables bc)) txs (cumulative_block_size st)
       (diff + meta_cumulativeDifficulty (prev_meta bc)) (meta_alreadyGeneratedCoins (prev_meta bc) + emission)"

definition written_state :: "u64 \<Rightarrow> BlockEntry \<Rightarrow> hash \<Rightarrow> Blockchain \<Rightarrow> PushState \<Rightarrow> Blockchain" where
  "written_state now block bh bc st =
     (let bc5 = (ps_bc st)\<lparr>m_db := writeTxn (pushBlock_entry block bh) (m_db (ps_bc st))\<rparr>;
          bc6 = (if 0 < m_batchCount bc then bc5\<lparr>m_db := commitNestedWriteTxn (m_db bc5)\<rparr> else bc5)
      in commitBatchOrBlock now (getChainHeight (db_tables bc) = 0) bc6)"

lemma write_block_stages:
  fixes E :: "('s, 'k) node_env"
  assumes ok: "txn_ok bc"
    and s3: "store_tx E (getChainHeight (db_tables bc)) 0 (object_hash (pw_fast_hash (ev_pow E)) put_Transaction (baseTransaction b))
           (baseTransaction b) (opened now bc) = (True, bc3)"
    and run: "push_all E (is_in_checkpoint_zone (m_checkpoints bc) (getChainHeight (db_tables bc))) (getChainHeight (db_tables bc))
           (case fault of None \<Rightarrow> zip (transactionHashes b) txs | Some k \<Rightarrow> take k (zip (transactionHashes b) txs)) (start_state E b bc3) = Inr st"
  shows "write_block E now fault b txs bh diff bc \<in> {Rejected (abortCurrentBlockTxn (0 < m_batchCount bc) (ps_bc st)),
              Faulted (store_fault (0 < m_batchCount bc) (ps_bc st))} \<and>
         (fault = None \<longrightarrow> write_block E now fault b txs bh diff bc = Rejected (abortCurrentBlockTxn (0 < m_batchCount bc) (ps_bc st))) \<or>
         (\<exists>emission. fault = None \<and> passes E b txs bc (opened now bc) st emission \<and>
            write_block E now fault b txs bh diff bc = Written (written_state now (stored_block b txs diff bc st emission) bh bc st))"
proof -
  let ?h = "getChainHeight (db_tables bc)"
  have op: "opened now bc = (if 0 < m_batchCount bc then (beginBatchIfNeeded now bc)\<lparr>m_db := beginNestedWriteTxn (m_db (beginBatchIfNeeded now bc))\<rparr>
      else beginBatchIfNeeded now bc)" by (simp add: opened_def Let_def batch_kept)
  note eq = write_block_def [of E now fault b txs bh diff bc, unfolded Let_def batch_kept, folded op, unfolded s3 prod.case bool.case run sum.case,
      folded prev_meta_def [unfolded Let_def]]
  show ?thesis
  proof (cases "\<exists>reward emission. fault = None \<and> checkCumulativeBlockSize (ps_bc st) (cumulative_block_size st) (ucast ?h) \<and>
      validate_miner_transaction (ps_bc st) b ?h (cumulative_block_size st) (meta_alreadyGeneratedCoins (prev_meta bc)) (fee_summary st)
        = Some (reward, emission)")
    case True
    then obtain reward emission where t: "fault = None" "checkCumulativeBlockSize (ps_bc st) (cumulative_block_size st) (ucast ?h)"
      "validate_miner_transaction (ps_bc st) b ?h (cumulative_block_size st) (meta_alreadyGeneratedCoins (prev_meta bc)) (fee_summary st)
        = Some (reward, emission)" by blast
    then have "passes E b txs bc (opened now bc) st emission" using s3 run by (auto simp: passes_def Let_def)
    then show ?thesis using t unfolding eq by (auto simp: written_state_def stored_block_def Let_def)
  next
    case False
    then show ?thesis unfolding eq by (auto split: option.splits)
  qed
qed

lemma write_block_outcome:
  fixes E :: "('s, 'k) node_env"
  assumes ok: "txn_ok bc"
  shows "(\<exists>bc4. frame (opened now bc) bc4 \<and>
            write_block E now fault b txs bh diff bc \<in> {Rejected (abortCurrentBlockTxn (0 < m_batchCount bc) bc4),
              Faulted (store_fault (0 < m_batchCount bc) bc4)} \<and>
            (fault = None \<longrightarrow> write_block E now fault b txs bh diff bc = Rejected (abortCurrentBlockTxn (0 < m_batchCount bc) bc4))) \<or>
         (\<exists>st emission. fault = None \<and> passes E b txs bc (opened now bc) st emission \<and>
            write_block E now fault b txs bh diff bc = Written (written_state now (stored_block b txs diff bc st emission) bh bc st))"
proof -
  let ?h = "getChainHeight (db_tables bc)" and ?ids = "zip (transactionHashes b) txs"
  let ?ic = "is_in_checkpoint_zone (m_checkpoints bc) ?h"
  let ?run = "case fault of None \<Rightarrow> ?ids | Some k \<Rightarrow> take k ?ids"
  have op: "opened now bc = (if 0 < m_batchCount bc then (beginBatchIfNeeded now bc)\<lparr>m_db := beginNestedWriteTxn (m_db (beginBatchIfNeeded now bc))\<rparr>
      else beginBatchIfNeeded now bc)" by (simp add: opened_def Let_def batch_kept)
  obtain ok3 bc3 where s3: "store_tx E ?h 0 (object_hash (pw_fast_hash (ev_pow E)) put_Transaction (baseTransaction b)) (baseTransaction b) (opened now bc) = (ok3, bc3)"
    by fastforce
  have f3: "frame (opened now bc) bc3" using store_tx_frame by (metis s3 snd_conv)
  have act: "hasActiveTxn (m_db bc3)" using f3 opened_facts(2) [OF ok] by (simp add: frame_def)
  note unfold = write_block_def Let_def batch_kept op [symmetric]
  show ?thesis
  proof (cases ok3)
    case False
    then show ?thesis using f3 s3 by (intro disjI1 exI [of _ bc3]) (simp add: unfold)
  next
    case True
    then have s3': "store_tx E ?h 0 (object_hash (pw_fast_hash (ev_pow E)) put_Transaction (baseTransaction b)) (baseTransaction b) (opened now bc) = (True, bc3)"
      using s3 by simp
    show ?thesis
    proof (cases "push_all E ?ic ?h ?run (start_state E b bc3)")
      case (Inl bc4)
      then have "frame bc3 bc4" using push_all_Inl [OF Inl] act by simp
      then show ?thesis using frame_trans [OF f3] s3 True Inl by (intro disjI1 exI [of _ bc4]) (auto simp: unfold)
    next
      case (Inr st)
      have "frame bc3 (ps_bc st)" using push_all_Inr [OF Inr] act by simp
      then have f4: "frame (opened now bc) (ps_bc st)" by (rule frame_trans [OF f3])
      show ?thesis using write_block_stages [OF ok s3' Inr, of bh diff] f4 by blast
    qed
  qed
qed

text \<open>The bytes a registration and a miner key take; both do not fit in the extra of a coinbase.\<close>

definition field_bytes :: "TransactionExtraField \<Rightarrow> nat" where
  "field_bytes f = (case f of
     ExtraPqAccountRegistration _ _ \<Rightarrow> 3137
   | ExtraPqMinerSpendPub _ \<Rightarrow> 1953
   | _ \<Rightarrow> 0)"

lemma parse_field_bytes: "parse_field c s = Inr (Some f, s') \<Longrightarrow> field_bytes f + length s' \<le> Suc (length s)"
  using parse_field_rest [of c s "Some f" s']
  by (auto simp: parse_field_def rbind_eq_Inr field_bytes_def read_bytes_Inr_iff extra_sizes split: if_splits prod.splits)

lemma parseExtra_bytes:
  "sum_list (map field_bytes (snd (parseExtra_loop s fs))) \<le> length s + sum_list (map field_bytes fs)"
proof (induction s fs rule: parseExtra_loop.induct)
  case (2 c s fs)
  consider e where "parse_field c s = Inl e" | s' where "parse_field c s = Inr (None, s')"
    | f s' where "parse_field c s = Inr (Some f, s')" by (metis Inl_Inr_False not_None_eq obj_sumE surj_pair)
  then show ?case
  proof cases
    case 2
    then show ?thesis using "2.IH"(1) parse_field_rest [OF 2] by fastforce
  next
    case 3
    then show ?thesis using "2.IH"(2) parse_field_bytes [OF 3] by fastforce
  qed simp
qed simp

lemma findField_in: "findField sel fs = Some x \<Longrightarrow> \<exists>f \<in> set fs. sel f = Some x"
  by (induction fs) (auto split: option.splits)

lemma selectors:
  "as_pqReg f = Some (v, s) \<longleftrightarrow> f = ExtraPqAccountRegistration v s"
  "as_minerPub f = Some k \<longleftrightarrow> f = ExtraPqMinerSpendPub k"
  by (cases f; auto simp: as_defs)+

lemma registration_excludes_miner_key:
  assumes "length ex \<le> MAX_EXTRA_SIZE_PQ" and "getPqMinerSpendPubFromExtra ex = Some k"
  shows "getPqAccountRegistrationFromExtra ex = None"
proof (rule ccontr)
  assume "getPqAccountRegistrationFromExtra ex \<noteq> None"
  then obtain v s where "getPqAccountRegistrationFromExtra ex = Some (v, s)" by auto
  then obtain fs where fs0: "parseTransactionExtra ex = (True, fs)" "findField as_pqReg fs = Some (v, s)" "findField as_minerPub fs = Some k"
    using assms(2) by (auto simp: getPqAccountRegistrationFromExtra_def getPqMinerSpendPubFromExtra_def get_parsed_def split: if_splits prod.splits)
  have fs: "parseTransactionExtra ex = (True, fs)" "ExtraPqAccountRegistration v s \<in> set fs" "ExtraPqMinerSpendPub k \<in> set fs"
    using fs0(1) findField_in [OF fs0(2)] findField_in [OF fs0(3)] by (auto simp: selectors)
  have "ExtraPqMinerSpendPub k \<in> set (remove1 (ExtraPqAccountRegistration v s) fs)" using fs by simp
  then have "field_bytes (ExtraPqMinerSpendPub k) \<le> sum_list (map field_bytes (remove1 (ExtraPqAccountRegistration v s) fs))"
    by (intro member_le_sum_list) simp_all
  then have "3137 + 1953 \<le> sum_list (map field_bytes fs)"
    using sum_list_map_remove1 [OF fs(2), of field_bytes] by (simp add: field_bytes_def)
  also have "\<dots> \<le> length ex" using parseExtra_bytes [of ex "[]"] fs(1) by (simp add: parse_as_loop)
  finally show False using assms(1) by (simp add: MAX_EXTRA_SIZE_PQ_def)
qed

section \<open>An accepted block extends the chain\<close>

lemma block_checks_Inr:
  assumes "block_checks E now bc b bh proof = Inr diff"
  shows "getHashHeight (db_tables bc) bh = None" "previousBlockHash b = getTailId bc"
    "diff = getDifficultyForNextBlock bc (previousBlockHash b)" "diff \<noteq> 0"
    "prevalidate_miner_transaction bc b (getChainHeight (db_tables bc))"
    "validate_block_signature E b (getChainHeight (db_tables bc))"
  using assms by (auto simp: block_checks_def Let_def split: if_splits)

lemma checked_coinbase:
  assumes "block_checks E now bc b bh proof = Inr diff" and "getChainHeight (db_tables bc) \<noteq> 0"
  shows "account_of sha3 (baseTransaction b) = None"
proof -
  have "length (extra (baseTransaction b)) \<le> MAX_EXTRA_SIZE_PQ"
    using block_checks_Inr(5) [OF assms(1)]
    by (auto simp: prevalidate_miner_transaction_def Let_def split: if_splits TransactionInput.splits)
  moreover have "\<exists>k. getPqMinerSpendPubFromExtra (extra (baseTransaction b)) = Some k"
    using block_checks_Inr(6) [OF assms(1)] assms(2)
    by (auto simp: validate_block_signature_def split: if_splits option.splits)
  ultimately show ?thesis using registration_excludes_miner_key by (auto simp: account_of_def)
qed

lemma commit_facts:
  assumes "hasActiveTxn (m_db bc)" and "m_parentWriteTxn (m_db bc) = None"
  shows "txn_ok (commitBatchOrBlock now f bc)" "db_tables (commitBatchOrBlock now f bc) = db_tables bc"
  using assms by (auto simp: commitBatchOrBlock_def txn_ok_def hasActiveTxn_def commitTxn_def readTxn_def Let_def)

lemma detectors_db [simp]:
  "m_db (detector_blockPushed v bc) = m_db bc" "m_batchCount (detector_blockPushed v bc) = m_batchCount bc"
  "m_db (detector_blockPopped v bc) = m_db bc" "m_batchCount (detector_blockPopped v bc) = m_batchCount bc"
  by (simp_all add: detector_blockPushed_def detector_blockPopped_def Let_def)

lemma size_limit_db [simp]: "m_db (update_next_cumulative_size_limit bc) = m_db bc"
  "m_batchCount (update_next_cumulative_size_limit bc) = m_batchCount bc"
  by (simp_all add: update_next_cumulative_size_limit_def Let_def)

lemma written_facts:
  assumes ok: "txn_ok bc" and run: "passes E b txs bc (opened now bc) st emission"
    and len: "length txs = length (transactionHashes b)"
    and block_def: "block = stored_block b txs diff bc st emission"
  shows "txn_ok (written_state now block bh bc st)"
    and "store_block (sha3_256 (ev_pq E)) (pw_fast_hash (ev_pow E)) block bh (db_tables bc) = Some (db_tables (written_state now block bh bc st))"
proof -
  let ?h = "getChainHeight (db_tables bc)" and ?sha = "sha3_256 (ev_pq E)" and ?H = "pw_fast_hash (ev_pow E)"
  obtain bc3 where s3: "store_tx E ?h 0 (object_hash ?H put_Transaction (baseTransaction b)) (baseTransaction b) (opened now bc) = (True, bc3)"
    and run: "push_all E (is_in_checkpoint_zone (m_checkpoints bc) ?h) ?h (zip (transactionHashes b) txs) (start_state E b bc3) = Inr st"
    using run by (auto simp: passes_def Let_def)
  have f3: "frame (opened now bc) bc3" using store_tx_frame by (metis s3 snd_conv)
  have p3: "push_entry ?sha ?h (new_entry (baseTransaction b)) (object_hash ?H put_Transaction (baseTransaction b)) 0 (db_tables bc) = (True, db_tables bc3)"
    using s3 opened_facts [OF ok, of now] by (auto simp: store_tx_True)
  have a3: "hasActiveTxn (m_db bc3)" using f3 opened_facts(2) [OF ok] by (simp add: frame_def)
  have r: "frame bc3 (ps_bc st)" "push_entries ?sha ?h 1 (as_entries (zip (transactionHashes b) txs)) (db_tables bc3) = (True, db_tables (ps_bc st))"
    using push_all_Inr [OF run] a3 by simp_all
  have f4: "frame (opened now bc) (ps_bc st)" by (rule frame_trans [OF f3 r(1)])
  have el: "entry_list ?H block = (object_hash ?H put_Transaction (baseTransaction b), new_entry (baseTransaction b)) # as_entries (zip (transactionHashes b) txs)"
    by (simp add: entry_list_def block_def stored_block_def block_entry_def zip_map2)
  have "push_entries ?sha ?h 0 (entry_list ?H block) (db_tables bc) = (True, db_tables (ps_bc st))"
    using p3 r(2) unfolding el by (auto simp: push_entries_Cons_True)
  moreover have "be_height block = ?h" by (simp add: block_def stored_block_def block_entry_def)
  ultimately have st: "store_block ?sha ?H block bh (db_tables bc) = Some (pushBlock_entry block bh (db_tables (ps_bc st)))"
    by (simp add: store_block_Some)
  define bc5 where "bc5 = (ps_bc st)\<lparr>m_db := writeTxn (pushBlock_entry block bh) (m_db (ps_bc st))\<rparr>"
  define bc6 where "bc6 = (if 0 < m_batchCount bc then bc5\<lparr>m_db := commitNestedWriteTxn (m_db bc5)\<rparr> else bc5)"
  have "hasActiveTxn (m_db (ps_bc st))" "m_parentWriteTxn (m_db (ps_bc st)) = (if 0 < m_batchCount bc then m_writeTxn (m_db bc) else None)"
    using f4 opened_facts [OF ok, of now] by (simp_all add: frame_def)
  then have "hasActiveTxn (m_db bc6)" "m_parentWriteTxn (m_db bc6) = None" "db_tables bc6 = pushBlock_entry block bh (db_tables (ps_bc st))"
    by (auto simp: bc6_def bc5_def hasActiveTxn_def writeTxn_def commitNestedWriteTxn_def readTxn_def)
  note facts = this(3) commit_facts [OF this(1,2)]
  have w: "written_state now block bh bc st = commitBatchOrBlock now (?h = 0) bc6"
    by (simp add: written_state_def bc6_def bc5_def Let_def)
  show "txn_ok (written_state now block bh bc st)" unfolding w by (rule facts)
  show "store_block ?sha ?H block bh (db_tables bc) = Some (db_tables (written_state now block bh bc st))"
    unfolding w facts(3) facts(1) by (rule st)
qed

section \<open>Rolling back\<close>

lemma flush_facts:
  assumes "txn_ok bc"
  shows "txn_ok (snd (flushBatch True bc))" "db_tables (snd (flushBatch True bc)) = db_tables bc"
    "m_batchCount (snd (flushBatch True bc)) = 0"
  using assms by (auto simp: flushBatch_def txn_ok_def hasActiveTxn_def commitTxn_def readTxn_def)

lemma idle_tables: "txn_ok bc \<Longrightarrow> m_batchCount bc = 0 \<Longrightarrow> m_writeTxn (m_db bc) = None \<and> m_env (m_db bc) = db_tables bc"
  by (simp add: txn_ok_def hasActiveTxn_def readTxn_def)

lemma remove_last_chain:
  assumes "chain_tables (sha3_256 (ev_pq E)) (pw_fast_hash (ev_pow E)) (bs @ [x]) (db_tables bc)" and "txn_ok bc" and "m_batchCount bc = 0"
  obtains bc' where "remove_last E bc = Inr bc'" and "txn_ok bc'" and "m_batchCount bc' = 0"
    and "chain_tables (sha3_256 (ev_pq E)) (pw_fast_hash (ev_pow E)) bs (db_tables bc')"
proof -
  obtain block bh where x: "x = (block, bh)" by fastforce
  obtain u where u: "removeLastBlock (sha3_256 (ev_pq E)) (pw_fast_hash (ev_pow E)) (db_tables bc) = Inr u"
    "chain_tables (sha3_256 (ev_pq E)) (pw_fast_hash (ev_pow E)) bs u"
    using chain_remove assms(1) x by blast
  show thesis
    using that [of "bc\<lparr>m_db := commitTxn (writeTxn (\<lambda>_. u) (beginWriteTxn (m_db bc)))\<rparr>"] u assms(2,3)
    by (simp add: remove_last_def txn_ok_def hasActiveTxn_def commitTxn_def writeTxn_def beginWriteTxn_def readTxn_def)
qed

lemma rollback_loop_chain:
  "chain_tables (sha3_256 (ev_pq E)) (pw_fast_hash (ev_pow E)) bs (db_tables bc) \<Longrightarrow> txn_ok bc \<Longrightarrow> m_batchCount bc = 0 \<Longrightarrow>
     \<exists>bc'. rollback_loop E h bc = Some (Inr bc') \<and> txn_ok bc' \<and> m_batchCount bc' = 0 \<and>
       chain_tables (sha3_256 (ev_pq E)) (pw_fast_hash (ev_pow E)) (take (unat (h + 1)) bs) (db_tables bc')"
proof (induction bs arbitrary: bc rule: rev_induct)
  case Nil
  then show ?case using chain_height [OF Nil(1)] by (simp add: rollback_loop.simps)
next
  case (snoc x bs)
  have n: "getChainHeight (db_tables bc) = of_nat (Suc (length bs))" "Suc (length bs) < 2 ^ 32"
    using chain_height [OF snoc.prems(1)] chain_db_ok [OF snoc.prems(1)] by (simp_all add: db_ok_def)
  show ?case
  proof (cases "unat (h + 1) < Suc (length bs)")
    case True
    obtain bc1 where "remove_last E bc = Inr bc1" "txn_ok bc1" "m_batchCount bc1 = 0"
      "chain_tables (sha3_256 (ev_pq E)) (pw_fast_hash (ev_pow E)) bs (db_tables bc1)"
      using remove_last_chain [OF snoc.prems] by blast
    moreover have "h + 1 < getChainHeight (db_tables bc)" using True n by (simp only: word_less_nat_alt unat_of_nat_u32)
    ultimately show ?thesis using snoc.IH [of bc1] True by (simp add: rollback_loop.simps [of E h bc])
  next
    case False
    then have "\<not> h + 1 < getChainHeight (db_tables bc)" using n by (simp only: word_less_nat_alt unat_of_nat_u32 not_False_eq_True)
    then show ?thesis using snoc.prems False by (simp add: rollback_loop.simps [of E h bc])
  qed
qed

section \<open>Properties\<close>

text \<open>The members that are neither the database nor a cache.\<close>

definition members_kept :: "Blockchain \<Rightarrow> Blockchain \<Rightarrow> bool" where
  "members_kept bc bc' \<longleftrightarrow> m_currency bc' = m_currency bc \<and> m_checkpoints bc' = m_checkpoints bc \<and>
     m_alternative_chains bc' = m_alternative_chains bc \<and> m_orphanBlocksIndex bc' = m_orphanBlocksIndex bc \<and>
     m_votingCompleteHeight bc' = m_votingCompleteHeight bc \<and>
     m_current_block_cumul_sz_limit bc' = m_current_block_cumul_sz_limit bc \<and> m_finalityForkState bc' = m_finalityForkState bc"

lemma opened_kept: "members_kept bc (opened now bc)"
  by (simp add: members_kept_def opened_def beginBatchIfNeeded_def Let_def)

lemma frame_kept: "frame (opened now bc) bc' \<Longrightarrow> members_kept bc bc'"
  using opened_kept [of bc now] by (simp add: frame_def members_kept_def)

lemma aborts_kept: "members_kept bc bc' \<Longrightarrow> members_kept bc (abortCurrentBlockTxn n bc') \<and> members_kept bc (store_fault n bc')"
  by (simp add: members_kept_def abortCurrentBlockTxn_def store_fault_def abortEntireBatchTxn_def Let_def)

lemma write_block_refused:
  assumes ok: "txn_ok bc" and w: "write_block E now fault b txs bh diff bc \<in> {Rejected bc', Faulted bc'}"
  shows "members_kept bc bc' \<and> txn_ok bc' \<and> m_env (m_db bc') = m_env (m_db bc) \<and>
     (db_tables bc' = db_tables bc \<and> m_batchCount bc' = m_batchCount bc \<or>
      fault \<noteq> None \<and> db_tables bc' = m_env (m_db bc) \<and> m_batchCount bc' = 0)"
  using write_block_outcome [OF ok, of now E fault b txs bh diff]
proof (elim disjE exE conjE)
  fix bc4
  assume f: "frame (opened now bc) bc4"
    and o: "write_block E now fault b txs bh diff bc
        \<in> {Rejected (abortCurrentBlockTxn (0 < m_batchCount bc) bc4), Faulted (store_fault (0 < m_batchCount bc) bc4)}"
    and n: "fault = None \<longrightarrow> write_block E now fault b txs bh diff bc = Rejected (abortCurrentBlockTxn (0 < m_batchCount bc) bc4)"
  have "bc' = abortCurrentBlockTxn (0 < m_batchCount bc) bc4 \<or> fault \<noteq> None \<and> bc' = store_fault (0 < m_batchCount bc) bc4"
    using o n w by (cases fault) auto
  then show ?thesis using abort_restores [OF ok f] fault_reverts [OF ok f] aborts_kept [OF frame_kept [OF f]] by auto
qed (use w in auto)

text \<open>A node with an empty database, and a first block for it.\<close>

definition sample_env :: "(bytes, nat) node_env" where
  "sample_env = \<lparr>ev_pq = toy_crypto\<lparr>sha3_256 := toy_sha3\<rparr>, ev_pow = toy_pow\<lparr>pw_fast_hash := toy_sha3\<rparr>,
     ev_parent = undefined\<rparr>"

definition sample_node :: Blockchain where
  "sample_node = \<lparr>m_currency = default_currency (sample_block 0) [], m_db = \<lparr>m_env = empty_tables, m_writeTxn = None, m_parentWriteTxn = None\<rparr>,
     m_checkpoints = [], m_alternative_chains = [], m_orphanBlocksIndex = [], m_votingCompleteHeight = (\<lambda>_. UNDEF_HEIGHT),
     m_current_block_cumul_sz_limit = 0, m_batchCount = 0, m_batchFastMode = False, m_finalityForkState = no_fork,
     m_badFreeRegProofs = [], m_badFreeRegProofsOrder = [], m_goodFreeRegProofs = [], m_goodFreeRegProofsOrder = [],
     m_freeRegPrechecks = 0\<rparr>"

definition first_block :: "hash list \<Rightarrow> Block" where
  "first_block hs = (be_bl sample_stored)\<lparr>transactionHashes := hs\<rparr>"

lemma sample_node_simps [simp]:
  "db_tables sample_node = empty_tables" "getChainHeight empty_tables = 0" "m_currency sample_node = default_currency (sample_block 0) []"
  "m_batchCount sample_node = 0" "m_checkpoints sample_node = []" "txn_ok sample_node" "getHashHeight empty_tables k = None"
  "getBlockMetaRange empty_tables x y = []" "sha3_256 (ev_pq sample_env) = toy_sha3" "pw_fast_hash (ev_pow sample_env) = toy_sha3"
  by (simp_all add: sample_node_def txn_ok_def hasActiveTxn_def readTxn_def empty_tables_def getChainHeight_def mdb_last_def
      getHashHeight_def getBlockMetaRange_def mdb_from_def sample_env_def)

lemma first_block_simps [simp]: "baseTransaction (first_block hs) = sample_coinbase" "transactionHashes (first_block hs) = hs"
  "majorVersion (first_block hs) = 1" "timestamp (first_block hs) = 1784123353" "previousBlockHash (first_block hs) = NULL_HASH"
  by (simp_all add: first_block_def sample_stored_def NULL_HASH_def size_defs)

lemma first_block_checks: "block_checks sample_env 1784123353 sample_node (first_block hs) bh None = Inr 1"
proof -
  have "checkBlockVersion sample_node (first_block hs)"
    using version_one [of sample_node "sample_block 0" "[]" 0]
    by (simp add: checkBlockVersion_def get_block_height_def sample_coinbase_def)
  moreover have "checkParentBlockSize sample_env (first_block hs)"
    by (simp add: checkParentBlockSize_def version_defs)
  moreover have "check_block_timestamp_main sample_node 1784123353 (first_block hs)"
    by (simp add: check_block_timestamp_main_def check_block_timestamp_def Let_def default_currency_def builder_plain_def config_simps)
  moreover have "prevalidate_miner_transaction sample_node (first_block hs) 0"
    by (simp add: prevalidate_miner_transaction_def sample_coinbase_def is_coinbase_output_def TRANSACTION_VERSION_1_def TX_COINBASE_def
        check_outs_overflow_def MAX_EXTRA_SIZE_PQ_def)
  moreover have "\<not> (5 :: byte) \<le> 1" by (simp add: word_le_nat_alt)
  ultimately show ?thesis
    by (simp add: block_checks_def getTailId_def getDifficultyForNextBlock_def validate_block_signature_def Let_def)
qed

lemma first_block_stores:
  "\<exists>bc3. store_tx sample_env 0 0 (object_hash toy_sha3 put_Transaction sample_coinbase) sample_coinbase (opened now sample_node) = (True, bc3)"
  using opened_facts(2,4) [of sample_node now]
  by (simp add: store_tx_True push_entry_True sample_images sample_extra slot_account_def)
    (simp add: empty_tables_def keys_def)

lemma push_all_first: "push_all sample_env ic 0 [(replicate 32 77, sample_coinbase)] st = Inl (ps_bc st)"
proof -
  have "txType sample_coinbase \<noteq> TX_FREE_REG" "block_tx_fee (ps_bc st) sample_coinbase = None"
    by (simp_all add: block_tx_fee_def getOutputAmount_def sample_coinbase_def isPqTransfer_def TX_FREE_REG_def TX_PQ_def TX_PQ_V2_def)
  then show ?thesis by (simp add: push_one_def sample_extra Let_def)
qed

lemma first_block_refused:
  "\<exists>bvc' bc'. pushBlock sample_env 1784123353 None (first_block [replicate 32 77]) [sample_coinbase] bh None bvc sample_node = (False, bvc', bc')"
proof -
  have "\<not> passes sample_env (first_block [replicate 32 77]) [sample_coinbase] sample_node (opened 1784123353 sample_node) st emission" for st emission
    by (auto simp: passes_def push_all_first simp del: push_all.simps)
  then show ?thesis
    using write_block_outcome [of sample_node 1784123353 sample_env None "first_block [replicate 32 77]" "[sample_coinbase]" bh 1]
    by (auto simp: pushBlock_def first_block_checks)
qed

lemma push_refused:
  assumes "txn_ok bc" and "pushBlock E now fault b txs bh proof bvc bc = (False, bvc', bc')"
  shows "members_kept bc bc' \<and> txn_ok bc' \<and> m_env (m_db bc') = m_env (m_db bc) \<and>
     (db_tables bc' = db_tables bc \<and> m_batchCount bc' = m_batchCount bc \<or>
      fault \<noteq> None \<and> db_tables bc' = m_env (m_db bc) \<and> m_batchCount bc' = 0)"
proof (cases "block_checks E now bc b bh proof")
  case (Inl vf)
  then have "bc' = bc" using assms(2) by (simp add: pushBlock_def)
  then show ?thesis using assms(1) by (simp add: members_kept_def)
next
  case (Inr diff)
  then have "write_block E now fault b txs bh diff bc \<in> {Rejected bc', Faulted bc'}"
    using assms(2) by (auto simp: pushBlock_def split: push_outcome.splits)
  then show ?thesis by (rule write_block_refused [OF assms(1)])
qed



text \<open>A block as it arrives from the parser, with the transactions its hashes name.\<close>

definition wf_block :: "Block \<Rightarrow> Transaction list \<Rightarrow> hash \<Rightarrow> bool" where
  "wf_block b txs bh \<longleftrightarrow> block_ok b \<and> length bh = HASH_SIZE \<and> length txs = length (transactionHashes b) \<and>
     length txs < 65535 \<and> list_all (\<lambda>tx. entry_fits (new_entry tx)) (baseTransaction b # txs)"

lemma tail_id:
  assumes "chain_tables sha3 H bs (db_tables bc)"
  shows "getTailId bc = (if bs = [] then NULL_HASH else snd (last bs))"
proof (cases "bs = []")
  case True
  then show ?thesis using chain_height [OF assms] by (simp add: getTailId_def)
next
  case False
  have lt: "length bs < 2 ^ 32" using chain_db_ok [OF assms] by (simp add: db_ok_def)
  have h: "getChainHeight (db_tables bc) = of_nat (length bs)" by (rule chain_height [OF assms])
  have "getChainHeight (db_tables bc) \<noteq> 0" using False lt by (simp add: h unat_of_nat_u32 unat_eq_0 [symmetric] del: unat_eq_0)
  moreover have "getChainHeight (db_tables bc) - 1 = of_nat (length bs - 1)" using False by (simp add: h of_nat_diff Suc_leI)
  ultimately show ?thesis
    using chain_block_lookup [OF assms, of "length bs - 1"] False
    by (simp add: getTailId_def Let_def blockMetaOrZero_def entry_meta_def last_conv_nth)
qed

lemma stored_block_storable:
  assumes chain: "chain_tables (sha3_256 (ev_pq E)) H bs (db_tables bc)" and n: "Suc (length bs) < 2 ^ 32"
    and wf: "wf_block b txs bh" and chk: "block_checks E now bc b bh proof = Inr diff"
    and g: "bs = [] \<longrightarrow> account_of (sha3_256 (ev_pq E)) (baseTransaction b) = None"
  shows "storable (sha3_256 (ev_pq E)) (length bs) (stored_block b txs diff bc st emission) bh"
proof -
  have h: "getChainHeight (db_tables bc) = of_nat (length bs)" by (rule chain_height [OF chain])
  have "account_of (sha3_256 (ev_pq E)) (baseTransaction b) = None"
  proof (cases "bs = []")
    case False
    then have "getChainHeight (db_tables bc) \<noteq> 0" using n by (simp add: h unat_of_nat_u32 unat_eq_0 [symmetric] del: unat_eq_0)
    then show ?thesis by (rule checked_coinbase [OF chk])
  qed (use g in simp)
  then show ?thesis using wf n h
    by (simp add: storable_def wf_block_def stored_block_def block_entry_def list_all_iff)
qed

lemma pushBlock_True:
  assumes "txn_ok bc" and "pushBlock E now fault b txs bh proof bvc bc = (True, bvc', bc')"
  obtains diff st emission where "block_checks E now bc b bh proof = Inr diff" and "fault = None"
    and "passes E b txs bc (opened now bc) st emission"
    and "bc' = update_next_cumulative_size_limit (fold detector_blockPushed [2, 3, 4, 5, 6]
           (written_state now (stored_block b txs diff bc st emission) bh bc st))"
    and "bvc' = bvc\<lparr>m_added_to_main_chain := True\<rparr>"
proof -
  obtain diff where d: "block_checks E now bc b bh proof = Inr diff"
    using assms(2) by (auto simp: pushBlock_def split: sum.splits)
  obtain w where w: "write_block E now fault b txs bh diff bc = Written w"
    "bc' = update_next_cumulative_size_limit (fold detector_blockPushed [2, 3, 4, 5, 6] w)"
    "bvc' = bvc\<lparr>m_added_to_main_chain := True\<rparr>"
    using assms(2) d by (auto simp: pushBlock_def split: push_outcome.splits)
  then obtain st emission where "fault = None" "passes E b txs bc (opened now bc) st emission"
    "w = written_state now (stored_block b txs diff bc st emission) bh bc st"
    using write_block_outcome [OF assms(1), of now E fault b txs bh diff] by auto
  then show thesis using that d w by blast
qed

lemma passes_accepted:
  assumes ok: "txn_ok bc" and chk: "block_checks E now bc b bh proof = Inr diff"
    and run: "passes E b txs bc (opened now bc) st emission"
  shows "\<exists>bvc' bc'. pushBlock E now None b txs bh proof bvc bc = (True, bvc', bc')"
proof -
  have op: "opened now bc = (if 0 < m_batchCount bc then (beginBatchIfNeeded now bc)\<lparr>m_db := beginNestedWriteTxn (m_db (beginBatchIfNeeded now bc))\<rparr>
      else beginBatchIfNeeded now bc)" by (simp add: opened_def Let_def batch_kept)
  note eq = write_block_def [of E now None b txs bh diff bc, unfolded Let_def batch_kept, folded op, folded prev_meta_def [unfolded Let_def]]
  show ?thesis using run unfolding pushBlock_def chk sum.case eq by (auto simp: passes_def Let_def)
qed

lemma first_block_accepted:
  "\<exists>bvc' bc'. pushBlock sample_env 1784123353 None (first_block []) [] bh None bvc sample_node = (True, bvc', bc')"
proof -
  obtain bc3 where s3: "store_tx sample_env 0 0 (object_hash toy_sha3 put_Transaction sample_coinbase) sample_coinbase (opened 1784123353 sample_node) = (True, bc3)"
    using first_block_stores by blast
  have "frame (opened 1784123353 sample_node) bc3" using store_tx_frame by (metis s3 snd_conv)
  then have "m_currency bc3 = default_currency (sample_block 0) []" using opened_facts(6) [of sample_node] by (simp add: frame_def)
  moreover have "checkCumulativeBlockSize bc3 (snd (getObjectBinarySize put_Transaction sample_coinbase)) 0" if "m_currency bc3 = default_currency (sample_block 0) []"
    by (simp add: checkCumulativeBlockSize_def maxBlockCumulativeSize_def that default_currency_def builder_plain_def config_simps
        getObjectBinarySize_def sample_coinbase_def sample_bytes)
  ultimately have "passes sample_env (first_block []) [] sample_node (opened 1784123353 sample_node) (start_state sample_env (first_block []) bc3) 900"
    using s3 by (simp add: passes_def validate_miner_transaction_def sample_coinbase_def)
  then show ?thesis using passes_accepted [OF _ first_block_checks] by simp
qed

lemma push_stores:
  assumes "txn_ok bc" and "chain_tables (sha3_256 (ev_pq E)) (pw_fast_hash (ev_pow E)) bs (db_tables bc)"
    and "Suc (length bs) < 2 ^ 32" and "wf_block b txs bh"
    and "bs = [] \<longrightarrow> account_of (sha3_256 (ev_pq E)) (baseTransaction b) = None"
    and "pushBlock E now fault b txs bh proof bvc bc = (True, bvc', bc')"
  obtains diff st emission where "block_checks E now bc b bh proof = Inr diff" and "passes E b txs bc (opened now bc) st emission"
    and "chain_tables (sha3_256 (ev_pq E)) (pw_fast_hash (ev_pow E)) (bs @ [(stored_block b txs diff bc st emission, bh)]) (db_tables bc')"
    and "txn_ok bc'" and "bvc' = bvc\<lparr>m_added_to_main_chain := True\<rparr>"
proof -
  obtain diff st emission where p: "block_checks E now bc b bh proof = Inr diff" "passes E b txs bc (opened now bc) st emission"
    "bc' = update_next_cumulative_size_limit (fold detector_blockPushed [2, 3, 4, 5, 6]
           (written_state now (stored_block b txs diff bc st emission) bh bc st))" "bvc' = bvc\<lparr>m_added_to_main_chain := True\<rparr>"
    using pushBlock_True [OF assms(1,6)] by metis
  define block where "block = stored_block b txs diff bc st emission"
  have len: "length txs = length (transactionHashes b)" using assms(4) by (simp add: wf_block_def)
  note w = written_facts [OF assms(1) p(2) len block_def, of bh]
  have "bh \<notin> snd ` set bs"
    using block_checks_Inr(1) [OF p(1)] chain_hash_keys [OF assms(2)] by (simp add: getHashHeight_def get_None_keys)
  then have "chain_tables (sha3_256 (ev_pq E)) (pw_fast_hash (ev_pow E)) (bs @ [(block, bh)]) (db_tables (written_state now block bh bc st))"
    using chain_store [OF assms(2) _ _ w(2)] stored_block_storable [OF assms(2,3,4) p(1) assms(5)] by (simp add: block_def)
  moreover have "txn_ok bc'" "db_tables bc' = db_tables (written_state now block bh bc st)"
    using w(1) by (simp_all add: p(3) block_def txn_ok_def)
  ultimately show thesis using that p(1,2,4) by (simp add: block_def)
qed

text \<open>
  C8.  An accepted block is appended to the chain and to nothing else.  If the tables represent the
  block list \<open>bs\<close> and \<open>pushBlock\<close> accepts a parsed block with its transactions, the tables then
  represent \<open>bs\<close> with one more block, which holds exactly this block, its coinbase and its
  transactions, whose parent is the previous tip, and whose cumulative difficulty grew by the
  required difficulty.
\<close>

theorem push_extends_chain:
  assumes "txn_ok bc" and "chain_tables (sha3_256 (ev_pq E)) (pw_fast_hash (ev_pow E)) bs (db_tables bc)"
    and "Suc (length bs) < 2 ^ 32" and "wf_block b txs bh"
    and "bs = [] \<longrightarrow> account_of (sha3_256 (ev_pq E)) (baseTransaction b) = None"
    and "pushBlock E now fault b txs bh proof bvc bc = (True, bvc', bc')"
  shows "\<exists>block. chain_tables (sha3_256 (ev_pq E)) (pw_fast_hash (ev_pow E)) (bs @ [(block, bh)]) (db_tables bc') \<and> txn_ok bc' \<and>
     be_bl block = b \<and> map te_tx (be_transactions block) = baseTransaction b # txs \<and>
     previousBlockHash b = (if bs = [] then NULL_HASH else snd (last bs)) \<and>
     cumulative_difficulty block = getDifficultyForNextBlock bc (previousBlockHash b) + meta_cumulativeDifficulty (prev_meta bc) \<and>
     m_added_to_main_chain bvc'"
proof -
  obtain diff st emission where p: "block_checks E now bc b bh proof = Inr diff"
    "chain_tables (sha3_256 (ev_pq E)) (pw_fast_hash (ev_pow E)) (bs @ [(stored_block b txs diff bc st emission, bh)]) (db_tables bc')"
    "txn_ok bc'" "bvc' = bvc\<lparr>m_added_to_main_chain := True\<rparr>"
    using push_stores [OF assms] by metis
  then show ?thesis
    using block_checks_Inr(2,3) [OF p(1)] tail_id [OF assms(2)]
    by (intro exI [of _ "stored_block b txs diff bc st emission"]) (simp add: stored_block_def block_entry_def comp_def)
qed

lemma first_block_wf: "wf_block (first_block []) [] (replicate 32 5)"
  using sample_storable sample_fits
  by (simp add: wf_block_def storable_def sample_stored_def first_block_def block_ok_def header_ok_def size_defs container_ok_def)

lemma push_extends_chain_witness:
  "\<exists>bvc' bc' block. pushBlock sample_env 1784123353 None (first_block []) [] (replicate 32 5) None initial_bvc sample_node = (True, bvc', bc') \<and>
     chain_tables toy_sha3 toy_sha3 [(block, replicate 32 5)] (db_tables bc') \<and> be_bl block = first_block []"
proof -
  obtain bvc' bc' where p: "pushBlock sample_env 1784123353 None (first_block []) [] (replicate 32 5) None initial_bvc sample_node = (True, bvc', bc')"
    using first_block_accepted by blast
  show ?thesis
    using push_extends_chain [OF _ _ _ first_block_wf _ p, of "[]"] chain_empty sample_extra p by fastforce
qed

lemma rollback_returns:
  assumes "txn_ok bc" and "chain_tables (sha3_256 (ev_pq E)) (pw_fast_hash (ev_pow E)) bs (db_tables bc)"
  shows "\<exists>bc'. rollbackBlockchainTo E h bc = Some (Inr bc') \<and> txn_ok bc' \<and> m_batchCount bc' = 0 \<and>
     m_env (m_db bc') = db_tables bc' \<and>
     chain_tables (sha3_256 (ev_pq E)) (pw_fast_hash (ev_pow E)) (take (unat (h + 1)) bs) (db_tables bc')"
  using rollback_loop_chain [of E bs "snd (flushBatch True bc)" h] flush_facts [OF assms(1)] assms(2) idle_tables
  by (fastforce simp: rollbackBlockchainTo_def)

text \<open>
  C9.  Rolling back always ends.  On a node whose tables represent the block list \<open>bs\<close>,
  \<open>rollbackBlockchainTo h\<close> returns, without an error, in a committed state whose tables represent
  the first \<open>h + 1\<close> blocks (32-bit arithmetic: rolling back to the largest height empties the
  chain).
\<close>

theorem rollback_terminates:
  assumes "txn_ok bc" and "chain_tables (sha3_256 (ev_pq E)) (pw_fast_hash (ev_pow E)) bs (db_tables bc)"
  shows "\<exists>bc'. rollbackBlockchainTo E h bc = Some (Inr bc') \<and> txn_ok bc' \<and> m_batchCount bc' = 0 \<and>
     m_env (m_db bc') = db_tables bc' \<and>
     chain_tables (sha3_256 (ev_pq E)) (pw_fast_hash (ev_pow E)) (take (unat (h + 1)) bs) (db_tables bc')"
  using assms by (rule rollback_returns)

lemma rollback_terminates_witness:
  "\<exists>bc'. rollbackBlockchainTo sample_env (- 1) (sample_node\<lparr>m_db := (m_db sample_node)\<lparr>m_env := sample_tables\<rparr>\<rparr>) = Some (Inr bc') \<and>
     chain_tables toy_sha3 toy_sha3 [] (db_tables bc')"
  using rollback_terminates [of "sample_node\<lparr>m_db := (m_db sample_node)\<lparr>m_env := sample_tables\<rparr>\<rparr>" sample_env
      "[(sample_stored, replicate 32 5)]" "- 1"] sample_chain
  by (simp add: txn_ok_def hasActiveTxn_def sample_node_def readTxn_def) (use sample_node_simps in auto)

end
