(* ===== verification/Supply.thy ===== *)
theory Supply
  imports Push_Block
begin

text \<open>
  The money supply.  Every accepted block records the coins generated so far
  (\<open>already_generated_coins\<close>, src/src/CryptoNoteCore/Blockchain.cpp, \<open>pushBlock\<close>).  This theory relates
  that number to the transactions of the chain: all outputs ever created less all outputs referred to
  by the inputs of transfers, with the chain as a list of transactions and no tables.
\<close>

section \<open>Coins of a list of transactions\<close>

type_synonym entries = "(hash \<times> TransactionEntry) list"

definition is_transfer :: "Transaction \<Rightarrow> bool" where
  "is_transfer tx \<longleftrightarrow> TRANSACTION_VERSION_1 \<le> version tx \<and> isPqTransfer (txType tx)"

definition pq_inputs :: "Transaction \<Rightarrow> PqInput list" where
  "pq_inputs tx = List.map_filter the_pq (inputs tx)"

text \<open>The amount of the output an input refers to.\<close>

definition out_ref :: "entries \<Rightarrow> PqInput \<Rightarrow> u64" where
  "out_ref es p =
     (case map_of es (prevTxid p) of
        None \<Rightarrow> 0
      | Some te \<Rightarrow>
          let outs = outputs (te_tx te) in
          if unat (prevOutIndex p) < length outs \<and> spend_commit_of (outs ! unat (prevOutIndex p)) \<noteq> None
          then amount (outs ! unat (prevOutIndex p)) else 0)"

definition tx_in :: "entries \<Rightarrow> Transaction \<Rightarrow> u64" where
  "tx_in es tx = (if is_transfer tx then sum_list (map (out_ref es) (pq_inputs tx)) else 0)"

definition created :: "entries \<Rightarrow> u64" where
  "created es = (\<Sum>(_, te) \<leftarrow> es. getOutputAmount (te_tx te))"

definition spent :: "entries \<Rightarrow> u64" where
  "spent es = (\<Sum>(_, te) \<leftarrow> es. tx_in es (te_tx te))"

definition coins_of :: "entries \<Rightarrow> u64" where
  "coins_of es = created es - spent es"

text \<open>No input refers to a transaction that is not there.\<close>

definition refers_into :: "entries \<Rightarrow> Transaction \<Rightarrow> bool" where
  "refers_into es tx \<longleftrightarrow> (is_transfer tx \<longrightarrow> (\<forall>p \<in> set (pq_inputs tx). map_of es (prevTxid p) \<noteq> None))"

definition refs_closed :: "entries \<Rightarrow> bool" where
  "refs_closed es \<longleftrightarrow> (\<forall>(_, te) \<in> set es. refers_into es (te_tx te))"

lemma out_ref_append: "map_of es (prevTxid p) \<noteq> None \<Longrightarrow> out_ref (es @ fs) p = out_ref es p"
  by (auto simp: out_ref_def map_add_Some_iff split: option.splits)

lemma refers_append: "refers_into es tx \<Longrightarrow> refers_into (es @ fs) tx"
  by (auto simp: refers_into_def map_add_def split: option.splits)

lemma tx_in_append: "refers_into es tx \<Longrightarrow> tx_in (es @ fs) tx = tx_in es tx"
  by (auto simp: tx_in_def refers_into_def out_ref_append intro!: arg_cong [of _ _ sum_list] map_cong)

lemma closed_snoc: "refs_closed es \<Longrightarrow> refers_into es (te_tx te) \<Longrightarrow> refs_closed (es @ [(txid, te)])"
  by (fastforce simp: refs_closed_def refers_append)

lemma coins_snoc:
  assumes "refs_closed es" and "refers_into es (te_tx te)"
  shows "coins_of (es @ [(txid, te)]) = coins_of es + getOutputAmount (te_tx te) - tx_in es (te_tx te)"
proof -
  have m: "map (\<lambda>(_, t). tx_in (es @ [(txid, te)]) (te_tx t)) es = map (\<lambda>(_, t). tx_in es (te_tx t)) es"
    using assms(1) by (auto simp: refs_closed_def tx_in_append)
  have "spent (es @ [(txid, te)]) = spent es + tx_in (es @ [(txid, te)]) (te_tx te)"
    unfolding spent_def map_append sum_list_append m by simp
  then have "spent (es @ [(txid, te)]) = spent es + tx_in es (te_tx te)" using assms(2) by (simp add: tx_in_append)
  then show ?thesis by (simp add: coins_of_def created_def)
qed

section \<open>Tables that hold a list of transactions\<close>

definition holds :: "tables \<Rightarrow> entries \<Rightarrow> bool" where
  "holds t es \<longleftrightarrow>
     (\<forall>txid. case map_of es txid of
        None \<Rightarrow> getTxIndex t txid = None
      | Some te \<Rightarrow> ref_found (ref_of t txid) \<and> ref_outputs (ref_of t txid) = outputs (te_tx te))"

text \<open>The records of a height from a slot on are unused.\<close>

definition unused :: "tables \<Rightarrow> u32 \<Rightarrow> nat \<Rightarrow> bool" where
  "unused t h n \<longleftrightarrow> (\<forall>s. n \<le> unat s \<longrightarrow> getTxEntry t h s = None)"

lemma ref_of_eq:
  "ref_of t txid =
     (case getTxIndex t txid of
        None \<Rightarrow> no_ref
      | Some (block, slot) \<Rightarrow>
          (case transactionByIndex t block slot of
             Inl _ \<Rightarrow> no_ref
           | Inr te \<Rightarrow> \<lparr>ref_found = True, ref_block = block, ref_slot = slot, ref_outputs = outputs (te_tx te)\<rparr>))"
  by (simp add: ref_of_def pqReferencedTx_def Let_def)

lemma holds_amount:
  assumes "holds t es"
  shows "referenced_amount t p = out_ref es p"
    and "referenced_output t p \<noteq> None \<Longrightarrow> map_of es (prevTxid p) \<noteq> None"
proof -
  have h: "case map_of es (prevTxid p) of None \<Rightarrow> getTxIndex t (prevTxid p) = None
      | Some te \<Rightarrow> ref_found (ref_of t (prevTxid p)) \<and> ref_outputs (ref_of t (prevTxid p)) = outputs (te_tx te)"
    using assms by (simp add: holds_def)
  show "referenced_amount t p = out_ref es p" "referenced_output t p \<noteq> None \<Longrightarrow> map_of es (prevTxid p) \<noteq> None"
    using h by (auto simp: referenced_amount_def referenced_output_def out_ref_def ref_of_eq [of t "prevTxid p"] no_ref_def Let_def
        split: option.splits)
qed

lemma holds_push:
  assumes h: "holds t es" and push: "push_entry sha3 ht te txid slot t = (True, t')"
    and fresh: "getTxEntry t ht slot = None" and fits: "entry_fits te"
  shows "holds t' (es @ [(txid, te)])"
proof -
  have eq: "tx_indices t' = mdb_put txid (encBE32 ht @ encBE16 slot) (tx_indices t)"
    "tx_entries t' = mdb_put (encBE32 ht @ encBE16 slot) (record_bytes te) (tx_entries t)" and new: "txid \<notin> keys (tx_indices t)"
    using push by (simp_all add: push_entry_True record_bytes_def)
  have "getTxIndex t' txid = Some (ht, slot)" by (simp add: getTxIndex_def eq mdb_get_put)
  moreover have "getTxEntry t' ht slot = Some (record_bytes te)" by (simp add: getTxEntry_def eq mdb_get_put)
  ultimately have here: "ref_found (ref_of t' txid) \<and> ref_outputs (ref_of t' txid) = outputs (te_tx te)"
    using transactionByIndex_ok [OF _ fits] by (simp add: ref_of_eq)
  have none: "map_of es txid = None"
  proof (rule ccontr)
    assume "map_of es txid \<noteq> None"
    then have "ref_found (ref_of t txid)" using h [unfolded holds_def, rule_format, of txid] by auto
    then show False using new by (simp add: ref_of_eq getTxIndex_def get_None_keys [THEN iffD2] no_ref_def)
  qed
  have index: "getTxIndex t' k = getTxIndex t k" if "k \<noteq> txid" for k using that by (simp add: getTxIndex_def eq mdb_get_put)
  have entry: "getTxEntry t' b s = getTxEntry t b s" if "getTxEntry t b s \<noteq> None" for b s
    using that fresh by (auto simp: getTxEntry_def eq mdb_get_put)
  have other: "ref_of t' k = ref_of t k" if kt: "k \<noteq> txid" "ref_found (ref_of t k)" for k
  proof -
    obtain b s where i: "getTxIndex t k = Some (b, s)" using kt(2) by (auto simp: ref_of_eq no_ref_def split: option.splits)
    then have "getTxEntry t b s \<noteq> None" using kt(2) by (auto simp: ref_of_eq transactionByIndex_def no_ref_def split: option.splits)
    then have "transactionByIndex t' b s = transactionByIndex t b s" using entry by (simp add: transactionByIndex_def)
    then show ?thesis using index [OF kt(1)] by (simp add: ref_of_eq i)
  qed
  show ?thesis unfolding holds_def
  proof
    fix k
    have "case map_of es k of None \<Rightarrow> getTxIndex t k = None
      | Some te \<Rightarrow> ref_found (ref_of t k) \<and> ref_outputs (ref_of t k) = outputs (te_tx te)" using h by (simp add: holds_def)
    then show "case map_of (es @ [(txid, te)]) k of None \<Rightarrow> getTxIndex t' k = None
      | Some te \<Rightarrow> ref_found (ref_of t' k) \<and> ref_outputs (ref_of t' k) = outputs (te_tx te)"
      using here none index [of k] other [of k] by (cases "k = txid") (auto simp: map_add_def split: option.splits)
  qed
qed

lemma unused_push:
  assumes "push_entry sha3 ht te txid slot t = (True, t')" and "unused t ht (unat slot)"
  shows "unused t' ht (Suc (unat slot))" and "getTxEntry t ht slot = None"
proof -
  have eq: "tx_entries t' = mdb_put (encBE32 ht @ encBE16 slot) (record_bytes te) (tx_entries t)"
    using assms(1) by (simp add: push_entry_True record_bytes_def)
  show "unused t' ht (Suc (unat slot))" using assms(2) by (auto simp: unused_def getTxEntry_def eq mdb_get_put)
  show "getTxEntry t ht slot = None" using assms(2) by (simp add: unused_def)
qed

lemma holds_pushes:
  "push_entries sha3 h slot es t = (True, t') \<Longrightarrow> holds t fs \<Longrightarrow> unused t h (unat slot) \<Longrightarrow> unat slot + length es \<le> 65536 \<Longrightarrow>
     list_all entry_fits (map snd es) \<Longrightarrow> holds t' (fs @ es)"
proof (induction es arbitrary: slot t fs)
  case (Cons e es)
  obtain txid te where e: "e = (txid, te)" by (cases e)
  obtain t1 where t1: "push_entry sha3 h te txid slot t = (True, t1)" "push_entries sha3 h (slot + 1) es t1 = (True, t')"
    using Cons.prems(1) by (auto simp: e push_entries_Cons_True)
  note u = unused_push [OF t1(1) Cons.prems(3)]
  have h1: "holds t1 (fs @ [e])" using holds_push [OF Cons.prems(2) t1(1) u(2)] Cons.prems(5) by (simp add: e)
  show ?case
  proof (cases es)
    case Nil
    then show ?thesis using h1 t1(2) by simp
  next
    case (Cons e' es')
    then have "unat (slot + 1) = Suc (unat slot)" using slot_next [of slot "length es"] Cons.prems(4) by simp
    then show ?thesis using Cons.IH [OF t1(2) h1] u(1) Cons.prems(4,5) by simp
  qed
qed simp

lemma holds_cong:
  assumes "tx_indices t' = tx_indices t" and "tx_entries t' = tx_entries t"
  shows "holds t' es = holds t es"
proof -
  have i: "getTxIndex t' = getTxIndex t" by (rule ext) (simp add: getTxIndex_def assms)
  have "getTxEntry t' b s = getTxEntry t b s" for b s by (simp add: getTxEntry_def assms)
  then have e: "transactionByIndex t' = transactionByIndex t" by (intro ext) (simp add: transactionByIndex_def)
  have r: "ref_of t' = ref_of t" by (rule ext) (simp only: ref_of_eq i e)
  show ?thesis unfolding holds_def i r ..
qed

lemma chain_unused:
  assumes "db_ok n t"
  shows "unused t (of_nat n) 0"
proof -
  have "encBE32 (of_nat n) \<notin> heights_below n" using assms by (simp add: db_ok_def unat_of_nat_u32)
  have "encBE32 (of_nat n) @ encBE16 s \<notin> keys (tx_entries t)" for s
  proof
    assume "encBE32 (of_nat n) @ encBE16 s \<in> keys (tx_entries t)"
    then obtain h r where "encBE32 (of_nat n) @ encBE16 s = encBE32 h @ encBE16 r" "encBE32 h \<in> heights_below n"
      using assms unfolding db_ok_def heights_below_def by blast
    then show False using \<open>encBE32 (of_nat n) \<notin> heights_below n\<close> by simp
  qed
  then show ?thesis by (simp add: unused_def getTxEntry_def get_None_keys)
qed

lemma chain_holds: "chain_tables sha3 H bs t \<Longrightarrow> holds t (chain_entries H bs)"
proof (induction rule: chain_tables.induct)
  case chain_empty
  then show ?case by (simp add: holds_def chain_entries_def getTxIndex_def empty_tables_def)
next
  case (chain_store bs t block bh t')
  obtain t1 where push: "push_entries sha3 (be_height block) 0 (entry_list H block) t = (True, t1)"
    and eq: "tx_indices t' = tx_indices t1" "tx_entries t' = tx_entries t1"
    using chain_store.hyps(4) by (rule store_block_cases) simp
  have st: "be_height block = of_nat (length bs)" "list_all entry_fits (be_transactions block)" "length (entry_list H block) \<le> 65535"
    using chain_store.hyps(2) storable_hd(2) [OF chain_store.hyps(2)] by (simp_all add: storable_def)
  have "list_all entry_fits (map snd (entry_list H block))"
    using st(2) set_zip_rightD by (fastforce simp: entry_list_def list_all_iff)
  then have "holds t1 (chain_entries H bs @ entry_list H block)"
    using holds_pushes [OF push chain_store.IH] chain_unused [OF chain_db_ok [OF chain_store.hyps(1)]] st by simp
  then show ?case by (simp add: holds_cong [OF eq] chain_entries_snoc)
qed

section \<open>The fees of a block\<close>

lemma pq_inputs_map [simp]: "inputs tx = map InPq ps \<Longrightarrow> pq_inputs tx = ps"
  by (simp add: pq_inputs_def map_filter_def the_pq_def comp_def)

lemma tx_coins:
  assumes h: "holds (db_tables bc) es" and fee: "block_tx_fee bc tx = Some fee"
    and chk: "fst (checkTransactionInputs E tx ht bc) \<noteq> None"
  shows "refers_into es tx" and "fee = tx_in es tx - getOutputAmount tx"
proof -
  have "refers_into es tx \<and> fee = tx_in es tx - getOutputAmount tx"
  proof (cases "is_transfer tx")
    case True
    then obtain mh where "checkPqInputs (ev_pq E) bc tx = Some mh"
      using chk by (auto simp: checkTransactionInputs_def is_transfer_def Let_def split: if_splits)
    then obtain ps where ps: "inputs tx = map InPq ps" "\<forall>p \<in> set ps. referenced_output (db_tables bc) p \<noteq> None"
      by (rule accepted_transfer) blast
    have "getPqTransactionFee bc tx = Some fee" using fee True by (simp add: block_tx_fee_def is_transfer_def)
    then have "fee = pqReferencedInputAmount bc tx - getOutputAmount tx" by (simp add: getPqTransactionFee_def Let_def split: if_splits)
    moreover have "pqReferencedInputAmount bc tx = tx_in es tx"
      using True by (simp add: pqReferencedInputAmount_def ps(1) referenced_sum_eq tx_in_def holds_amount(1) [OF h] cong: map_cong)
    ultimately show ?thesis using holds_amount(2) [OF h] ps by (simp add: refers_into_def)
  next
    case False
    then show ?thesis using fee by (auto simp: block_tx_fee_def is_transfer_def refers_into_def tx_in_def Let_def split: if_splits)
  qed
  then show "refers_into es tx" "fee = tx_in es tx - getOutputAmount tx" by simp_all
qed

lemma push_all_coins:
  "push_all E False h xs st = Inr st' \<Longrightarrow> hasActiveTxn (m_db (ps_bc st)) \<Longrightarrow> holds (db_tables (ps_bc st)) es \<Longrightarrow> refs_closed es \<Longrightarrow>
     unused (db_tables (ps_bc st)) h (Suc (unat (ps_slot st))) \<Longrightarrow> unat (ps_slot st) + length xs \<le> 65535 \<Longrightarrow>
     list_all entry_fits (map snd (as_entries xs)) \<Longrightarrow>
     refs_closed (es @ as_entries xs) \<and> coins_of (es @ as_entries xs) + fee_summary st' = coins_of es + fee_summary st"
proof (induction xs arbitrary: st es)
  case (Cons x xs)
  obtain txid tx where x: "x = (txid, tx)" by fastforce
  obtain st1 where one: "push_one E False h (txid, tx) st = Inr st1" and rest: "push_all E False h xs st1 = Inr st'"
    using Cons.prems(1) by (auto simp: x split: sum.splits)
  obtain fee where f: "frame (ps_bc st) (ps_bc st1)" "ps_slot st1 = ps_slot st + 1"
    "push_entry (sha3_256 (ev_pq E)) h (new_entry tx) txid (ps_slot st1) (db_tables (ps_bc st)) = (True, db_tables (ps_bc st1))"
    "block_tx_fee (ps_bc st) tx = Some fee" "fee_summary st1 = fee_summary st + fee"
    "fst (checkTransactionInputs E tx h (ps_bc st)) \<noteq> None"
    using push_one_Inr [OF one Cons.prems(2)] by auto
  have sl: "unat (ps_slot st1) = Suc (unat (ps_slot st))"
    using slot_next [of "ps_slot st" "Suc (length xs)"] Cons.prems(6) by (simp add: f(2))
  note u = unused_push [OF f(3)]
  have h1: "holds (db_tables (ps_bc st1)) (es @ [(txid, new_entry tx)])"
    using holds_push [OF Cons.prems(3) f(3) u(2)] Cons.prems(5,7) by (simp add: sl x)
  note c = tx_coins [OF Cons.prems(3) f(4,6)]
  have cl: "refs_closed (es @ [(txid, new_entry tx)])" using closed_snoc [OF Cons.prems(4)] c(1) by simp
  have "coins_of (es @ [(txid, new_entry tx)]) = coins_of es - fee" using coins_snoc [OF Cons.prems(4), of "new_entry tx"] c by simp
  moreover have "hasActiveTxn (m_db (ps_bc st1))" using f(1) Cons.prems(2) by (simp add: frame_def)
  ultimately show ?case
    using Cons.IH [OF rest _ h1 cl] u(1) Cons.prems(5,6,7) f(5) by (simp add: sl x)
qed simp

lemma emission_exact:
  assumes "validate_miner_transaction bc b h sz coins fee = Some (reward, emission)"
  shows "emission = getOutputAmount (baseTransaction b) - (if h = 0 then 0 else fee)"
  using assms
  by (auto simp: validate_miner_transaction_def getBlockReward_def getOutputAmount_def Let_def algebra_simps
      split: if_splits option.splits)

section \<open>Chains with the right coins\<close>

definition coins_ok :: "(bytes \<Rightarrow> hash) \<Rightarrow> (BlockEntry \<times> hash) list \<Rightarrow> bool" where
  "coins_ok H bs \<longleftrightarrow> (\<forall>n \<le> length bs. refs_closed (chain_entries H (take n bs)) \<and>
     (0 < n \<longrightarrow> already_generated_coins (fst (bs ! (n - 1))) = coins_of (chain_entries H (take n bs))))"

lemma coins_ok_Nil [simp]: "coins_ok H []"
  by (simp add: coins_ok_def chain_entries_def refs_closed_def)

lemma coins_ok_take: "coins_ok H bs \<Longrightarrow> coins_ok H (take n bs)"
  unfolding coins_ok_def by (auto simp: min_def)

lemma coins_ok_snoc:
  "coins_ok H (bs @ [x]) \<longleftrightarrow> coins_ok H bs \<and> refs_closed (chain_entries H (bs @ [x])) \<and>
     already_generated_coins (fst x) = coins_of (chain_entries H (bs @ [x]))"
  by (auto simp: coins_ok_def nth_append le_Suc_eq)

lemma last_coins:
  assumes chain: "chain_tables sha3 H bs (db_tables bc)" and ok: "coins_ok H bs"
  shows "meta_alreadyGeneratedCoins (prev_meta bc) = coins_of (chain_entries H bs)"
proof (cases "bs = []")
  case True
  then show ?thesis using chain_height [OF chain]
    by (simp add: prev_meta_def zero_meta_def coins_of_def created_def spent_def chain_entries_def)
next
  case False
  have lt: "length bs < 2 ^ 32" using chain_db_ok [OF chain] by (simp add: db_ok_def)
  have h: "getChainHeight (db_tables bc) = of_nat (length bs)" by (rule chain_height [OF chain])
  have "0 < getChainHeight (db_tables bc)" using False lt by (simp add: h word_less_nat_alt unat_of_nat_u32)
  moreover have "getChainHeight (db_tables bc) - 1 = of_nat (length bs - 1)" using False by (simp add: h of_nat_diff Suc_leI)
  ultimately have "meta_alreadyGeneratedCoins (prev_meta bc) = already_generated_coins (fst (bs ! (length bs - 1)))"
    using chain_block_lookup [OF chain, of "length bs - 1"] False
    by (simp add: prev_meta_def Let_def blockMetaOrZero_def entry_meta_def)
  moreover have "already_generated_coins (fst (bs ! (length bs - 1))) = coins_of (chain_entries H bs)"
    using ok [unfolded coins_ok_def, rule_format, of "length bs"] False by simp
  ultimately show ?thesis by simp
qed

lemma block_coins:
  assumes ok: "txn_ok bc" and chain: "chain_tables (sha3_256 (ev_pq E)) H bs (db_tables bc)" and H: "H = pw_fast_hash (ev_pow E)"
    and wf: "wf_block b txs bh" and zone: "\<not> is_in_checkpoint_zone (m_checkpoints bc) (getChainHeight (db_tables bc))"
    and g: "bs = [] \<longrightarrow> txs = []" and n: "Suc (length bs) < 2 ^ 32"
    and chk: "block_checks E now bc b bh proof = Inr diff" and run: "passes E b txs bc (opened now bc) st emission"
    and coins: "coins_ok H bs"
  shows "coins_ok H (bs @ [(stored_block b txs diff bc st emission, bh)])"
proof -
  let ?h = "getChainHeight (db_tables bc)" and ?cb = "(object_hash H put_Transaction (baseTransaction b), new_entry (baseTransaction b))"
    and ?es = "chain_entries H bs"
  obtain bc3 reward where s3: "store_tx E ?h 0 (fst ?cb) (baseTransaction b) (opened now bc) = (True, bc3)"
    and all: "push_all E False ?h (zip (transactionHashes b) txs) (start_state E b bc3) = Inr st"
    and v: "validate_miner_transaction (ps_bc st) b ?h (cumulative_block_size st) (meta_alreadyGeneratedCoins (prev_meta bc)) (fee_summary st)
      = Some (reward, emission)"
    using run zone by (auto simp: passes_def Let_def H)
  have fits: "entry_fits (new_entry (baseTransaction b))" "list_all (\<lambda>tx. entry_fits (new_entry tx)) txs" "length txs < 65535"
    using wf by (simp_all add: wf_block_def)
  have p3: "push_entry (sha3_256 (ev_pq E)) ?h (snd ?cb) (fst ?cb) 0 (db_tables bc) = (True, db_tables bc3)"
    and a3: "hasActiveTxn (m_db bc3)"
    using s3 opened_facts [OF ok, of now] by (auto simp: store_tx_True hasActiveTxn_def)
  have un: "unused (db_tables bc) ?h (unat (0 :: u16))"
    using chain_unused [OF chain_db_ok [OF chain]] by (simp add: chain_height [OF chain])
  have cl: "refs_closed ?es" using coins by (auto simp: coins_ok_def)
  have nt: "\<not> is_transfer (baseTransaction b)"
    using block_checks_Inr(5) [OF chk]
    by (auto simp: prevalidate_miner_transaction_def is_transfer_def isPqTransfer_def TX_COINBASE_def TX_PQ_def TX_PQ_V2_def Let_def split: if_splits)
  have h3: "holds (db_tables bc3) (?es @ [?cb])"
    using holds_push [OF chain_holds [OF chain] p3 unused_push(2) [OF p3 un]] fits(1) by simp
  have cl3: "refs_closed (?es @ [?cb])" and co3: "coins_of (?es @ [?cb]) = coins_of ?es + getOutputAmount (baseTransaction b)"
    using closed_snoc [OF cl, of "new_entry (baseTransaction b)"] coins_snoc [OF cl, of "new_entry (baseTransaction b)"] nt
    by (simp_all add: refers_into_def tx_in_def)
  have zf: "list_all entry_fits (map snd (as_entries (zip (transactionHashes b) txs)))"
    using fits(2) by (auto simp: list_all_iff dest: set_zip_rightD)
  have el: "entry_list H (stored_block b txs diff bc st emission) = ?cb # as_entries (zip (transactionHashes b) txs)"
    by (simp add: entry_list_def stored_block_def block_entry_def zip_map2)
  have res: "refs_closed ((?es @ [?cb]) @ as_entries (zip (transactionHashes b) txs)) \<and>
      coins_of ((?es @ [?cb]) @ as_entries (zip (transactionHashes b) txs)) + fee_summary st = coins_of (?es @ [?cb])"
    using push_all_coins [OF all _ _ cl3, unfolded PushState.simps] a3 h3 unused_push(1) [OF p3 un] fits(3) zf by simp
  have "fee_summary st = 0" if "?h = 0"
  proof -
    have "bs = []" using that n by (simp add: chain_height [OF chain] unat_of_nat_u32 unat_eq_0 [symmetric] del: unat_eq_0)
    then show ?thesis using g all by auto
  qed
  then have "emission = getOutputAmount (baseTransaction b) - fee_summary st" using emission_exact [OF v] by simp
  moreover have "coins_of (?es @ ?cb # as_entries (zip (transactionHashes b) txs)) = coins_of ?es + getOutputAmount (baseTransaction b) - fee_summary st"
    using res co3 by (metis add_diff_cancel_right' append.assoc append_Cons append_Nil)
  ultimately have "coins_of ?es + emission = coins_of (?es @ ?cb # as_entries (zip (transactionHashes b) txs))" by simp
  then show ?thesis
    using coins res last_coins [OF chain coins] by (simp add: coins_ok_snoc chain_entries_snoc el) (simp add: stored_block_def block_entry_def)
qed

section \<open>Reachable nodes\<close>

lemma passes_frame:
  assumes ok: "txn_ok bc" and run: "passes E b txs bc (opened now bc) st emission"
  shows "frame (opened now bc) (ps_bc st)"
proof -
  obtain bc3 hs where s3: "store_tx E (getChainHeight (db_tables bc)) 0 (fst hs) (snd hs) (opened now bc) = (True, bc3)"
    and all: "push_all E (is_in_checkpoint_zone (m_checkpoints bc) (getChainHeight (db_tables bc))) (getChainHeight (db_tables bc))
      (zip (transactionHashes b) txs) (start_state E b bc3) = Inr st"
    using run by (auto simp: passes_def Let_def)
  have f3: "frame (opened now bc) bc3" using store_tx_frame by (metis s3 snd_conv)
  have "hasActiveTxn (m_db bc3)" using f3 opened_facts(2) [OF ok] by (simp add: frame_def)
  then show ?thesis using push_all_Inr [OF all] f3 frame_trans by auto
qed

text \<open>After an accepted block the committed state is the old one or the new one.\<close>

lemma pushed_env:
  assumes ok: "txn_ok bc" and "pushBlock E now fault b txs bh proof bvc bc = (True, bvc', bc')"
  shows "m_env (m_db bc') = m_env (m_db bc) \<or> m_env (m_db bc') = db_tables bc'"
proof -
  obtain diff st emission where p: "passes E b txs bc (opened now bc) st emission"
    "bc' = update_next_cumulative_size_limit (fold detector_blockPushed [2, 3, 4, 5, 6]
           (written_state now (stored_block b txs diff bc st emission) bh bc st))"
    using pushBlock_True [OF assms] by metis
  have "m_env (m_db (ps_bc st)) = m_env (m_db bc)"
    using passes_frame [OF ok p(1)] opened_facts(3) [OF ok, of now] by (simp add: frame_def)
  then show ?thesis
    by (auto simp: p(2) written_state_def commitBatchOrBlock_def commitTxn_def commitNestedWriteTxn_def writeTxn_def readTxn_def Let_def
        split: option.splits)
qed

text \<open>
  What an empty node reaches: blocks that are accepted, blocks that are refused (with or without a
  failing store call), and rollbacks, in any order.  Blocks are well formed, the first one has no
  transactions besides its coinbase, and none is in the checkpoint zone, where inputs are not checked.
\<close>

inductive reached :: "('s, 'k) node_env \<Rightarrow> Blockchain \<Rightarrow> bool" for E :: "('s, 'k) node_env" where
  reached_empty: "\<lbrakk>txn_ok bc; db_tables bc = empty_tables; m_env (m_db bc) = empty_tables\<rbrakk> \<Longrightarrow> reached E bc"
| reached_push: "\<lbrakk>reached E bc; pushBlock E now fault b txs bh proof bvc bc = (True, bvc', bc'); wf_block b txs bh;
     getChainHeight (db_tables bc) < 4294967294; \<not> is_in_checkpoint_zone (m_checkpoints bc) (getChainHeight (db_tables bc));
     getChainHeight (db_tables bc) = 0 \<longrightarrow> txs = [] \<and> account_of (sha3_256 (ev_pq E)) (baseTransaction b) = None\<rbrakk> \<Longrightarrow> reached E bc'"
| reached_refuse: "\<lbrakk>reached E bc; pushBlock E now fault b txs bh proof bvc bc = (False, bvc', bc')\<rbrakk> \<Longrightarrow> reached E bc'"
| reached_rollback: "\<lbrakk>reached E bc; rollbackBlockchainTo E h bc = Some (Inr bc')\<rbrakk> \<Longrightarrow> reached E bc'"

definition sound_chain :: "('s, 'k) node_env \<Rightarrow> tables \<Rightarrow> bool" where
  "sound_chain E t \<longleftrightarrow> (\<exists>bs. chain_tables (sha3_256 (ev_pq E)) (pw_fast_hash (ev_pow E)) bs t \<and> coins_ok (pw_fast_hash (ev_pow E)) bs)"

lemma reached_sound: "reached E bc \<Longrightarrow> txn_ok bc \<and> sound_chain E (db_tables bc) \<and> sound_chain E (m_env (m_db bc))"
proof (induction rule: reached.induct)
  case (reached_empty bc)
  then show ?case using chain_empty by (auto simp: sound_chain_def intro!: exI [of _ "[]"])
next
  case (reached_push bc now fault b txs bh pw bvc bvc' bc')
  obtain bs where bs: "chain_tables (sha3_256 (ev_pq E)) (pw_fast_hash (ev_pow E)) bs (db_tables bc)" "coins_ok (pw_fast_hash (ev_pow E)) bs"
    using reached_push.IH by (auto simp: sound_chain_def)
  have lt: "length bs < 2 ^ 32" using chain_db_ok [OF bs(1)] by (simp add: db_ok_def)
  have n: "unat (getChainHeight (db_tables bc)) = length bs" using lt by (simp add: chain_height [OF bs(1)] unat_of_nat_u32)
  have len: "Suc (length bs) < 2 ^ 32" using reached_push.hyps(4) n by (simp add: word_less_nat_alt)
  have e: "bs = [] \<longleftrightarrow> getChainHeight (db_tables bc) = 0" using n by (metis length_0_conv unat_eq_zero)
  have ok: "txn_ok bc" using reached_push.IH by simp
  obtain diff st emission where p: "block_checks E now bc b bh pw = Inr diff" "passes E b txs bc (opened now bc) st emission"
    "chain_tables (sha3_256 (ev_pq E)) (pw_fast_hash (ev_pow E)) (bs @ [(stored_block b txs diff bc st emission, bh)]) (db_tables bc')" "txn_ok bc'"
    using push_stores [OF ok bs(1) len reached_push.hyps(3) _ reached_push.hyps(2)] reached_push.hyps(6) e by metis
  have "coins_ok (pw_fast_hash (ev_pow E)) (bs @ [(stored_block b txs diff bc st emission, bh)])"
    using block_coins [OF ok bs(1) refl reached_push.hyps(3,5) _ len p(1,2) bs(2)] reached_push.hyps(6) e by simp
  then have "sound_chain E (db_tables bc')" using p(3) by (auto simp: sound_chain_def)
  then show ?case using p(4) pushed_env [OF ok reached_push.hyps(2)] reached_push.IH by auto
next
  case (reached_refuse bc now fault b txs bh pw bvc bvc' bc')
  show ?case
  proof (cases "block_checks E now bc b bh pw")
    case (Inl vf)
    then show ?thesis using reached_refuse by (simp add: pushBlock_def)
  next
    case (Inr diff)
    then have "write_block E now fault b txs bh diff bc \<in> {Rejected bc', Faulted bc'}"
      using reached_refuse.hyps(2) by (auto simp: pushBlock_def split: push_outcome.splits)
    then show ?thesis using write_block_refused [of bc E now fault b txs bh diff bc'] reached_refuse.IH by auto
  qed
next
  case (reached_rollback bc h bc')
  obtain bs where bs: "chain_tables (sha3_256 (ev_pq E)) (pw_fast_hash (ev_pow E)) bs (db_tables bc)" "coins_ok (pw_fast_hash (ev_pow E)) bs"
    using reached_rollback.IH by (auto simp: sound_chain_def)
  show ?case using reached_rollback bs coins_ok_take rollback_returns [of bc E bs h] by (fastforce simp: sound_chain_def)
qed



end
