(* ===== verification/Tx_Pool.thy ===== *)
theory Tx_Pool
  imports Push_Block Complex_Main "HOL-Library.Multiset" "HOL-Library.Sublist"
begin

text \<open>
  The memory pool: src/src/CryptoNoteCore/TransactionPool.cpp and .h, its two indexes
  (BlockchainIndices.cpp), the validator interface the chain offers it
  (Blockchain.cpp, \<open>ITransactionValidator\<close>), and the admission checks of Core.cpp.  The container
  of transactions is the list of entries in order of insertion, the fee index that list ordered
  stably by priority; loops over the hashed index visit it in an unspecified order and are
  modelled in insertion order.  \<open>now\<close> is the clock.  Locks, log output and the observers have no
  effect on the state.
\<close>

section \<open>The validator\<close>

record BlockInfo =
  bi_height :: u32
  bi_id :: hash

definition clear_info :: BlockInfo where
  "clear_info = \<lparr>bi_height = 0, bi_id = NULL_HASH\<rparr>"

definition info_empty :: "BlockInfo \<Rightarrow> bool" where
  "info_empty i \<longleftrightarrow> bi_id i = NULL_HASH"

definition tail_info :: "Blockchain \<Rightarrow> BlockInfo" where
  "tail_info bc = \<lparr>bi_height = getChainHeight (db_tables bc) - 1, bi_id = getTailId bc\<rparr>"

text \<open>What a check at the tip leaves in the height it is handed: checks that fail early leave it alone.\<close>

definition reaches_inputs :: "('s, 'k) node_env \<Rightarrow> Transaction \<Rightarrow> Blockchain \<Rightarrow> bool" where
  "reaches_inputs E tx bc \<longleftrightarrow> version tx = TRANSACTION_VERSION_1 \<and>
     \<not> ((isPqTransfer (txType tx) \<or> txType tx = TX_FREE_REG) \<and>
        isPqAccountAlreadyRegistered (sha3_256 (ev_pq E)) (db_tables bc) tx) \<and>
     (if isPqTransfer (txType tx) then isPqTransferTypeAllowedAt (m_currency bc) (txType tx) (getCurrentBlockchainHeight bc)
      else txType tx = TX_FREE_REG)"

text \<open>The verdict, the block information after the call, and the chain with its proof caches.\<close>

definition checkInputs_info :: "('s, 'k) node_env \<Rightarrow> Transaction \<Rightarrow> BlockInfo \<Rightarrow> Blockchain \<Rightarrow> bool \<times> BlockInfo \<times> Blockchain" where
  "checkInputs_info E tx info bc =
     (let (res, bc') = checkTransactionInputs E tx AT_TIP bc;
          height = (if reaches_inputs E tx bc then (case res of Some h \<Rightarrow> h | None \<Rightarrow> 0) else bi_height info)
      in if res = None then (False, info\<lparr>bi_height := height\<rparr>, bc')
         else if \<not> height < getChainHeight (db_tables bc') then (False, info\<lparr>bi_height := height\<rparr>, bc')
         else (True, \<lparr>bi_height = height, bi_id = meta_hash (blockMetaOrZero (db_tables bc') height)\<rparr>, bc'))"

definition checkInputs_again ::
  "('s, 'k) node_env \<Rightarrow> Transaction \<Rightarrow> BlockInfo \<Rightarrow> BlockInfo \<Rightarrow> Blockchain \<Rightarrow> bool \<times> BlockInfo \<times> BlockInfo \<times> Blockchain" where
  "checkInputs_again E tx maxUsed lastFailed bc =
     (let tail = tail_info bc;
          check = (case checkInputs_info E tx maxUsed bc of
                     (True, m, bc') \<Rightarrow> (True, m, lastFailed, bc')
                   | (False, m, bc') \<Rightarrow> (False, m, tail, bc'))
      in if info_empty maxUsed then
           (if \<not> info_empty lastFailed \<and> bi_height lastFailed < getCurrentBlockchainHeight bc \<and>
               getBlockIdByHeight bc (bi_height lastFailed) = bi_id lastFailed
            then (False, maxUsed, lastFailed, bc) else check)
         else if getCurrentBlockchainHeight bc \<le> bi_height maxUsed then (False, maxUsed, lastFailed, bc)
         else if getBlockIdByHeight bc (bi_height maxUsed) \<noteq> bi_id maxUsed \<and>
                 bi_id lastFailed = getBlockIdByHeight bc (bi_height lastFailed) then (False, maxUsed, lastFailed, bc)
         else check)"

definition checkTransactionSize :: "Blockchain \<Rightarrow> u64 \<Rightarrow> bool" where
  "checkTransactionSize bc blobSize \<longleftrightarrow>
     \<not> m_current_block_cumul_sz_limit bc - m_minerTxBlobReservedSize (m_currency bc) < blobSize"

section \<open>Indexes\<close>

text \<open>The multimap from payment ids to transaction hashes.\<close>

definition getPaymentId :: "Transaction \<Rightarrow> hash option" where
  "getPaymentId tx =
     (case findField as_nonce (snd (parseTransactionExtra (extra tx))) of
        None \<Rightarrow> None | Some n \<Rightarrow> getPaymentIdFromTransactionExtraNonce n)"

definition PaymentIdIndex_add :: "(bytes \<Rightarrow> hash) \<Rightarrow> Transaction \<Rightarrow> (hash \<times> hash) list \<Rightarrow> (hash \<times> hash) list" where
  "PaymentIdIndex_add H tx index =
     (case getPaymentId tx of None \<Rightarrow> index | Some p \<Rightarrow> index @ [(p, object_hash H put_Transaction tx)])"

definition PaymentIdIndex_remove :: "(bytes \<Rightarrow> hash) \<Rightarrow> Transaction \<Rightarrow> (hash \<times> hash) list \<Rightarrow> (hash \<times> hash) list" where
  "PaymentIdIndex_remove H tx index =
     (case getPaymentId tx of None \<Rightarrow> index | Some p \<Rightarrow> remove1 (p, object_hash H put_Transaction tx) index)"

definition PaymentIdIndex_find :: "hash \<Rightarrow> (hash \<times> hash) list \<Rightarrow> hash list" where
  "PaymentIdIndex_find p index = map snd (filter (\<lambda>e. fst e = p) index)"

text \<open>The multimap from times to transaction hashes, ordered by time.\<close>

fun TimestampIndex_add :: "u64 \<Rightarrow> hash \<Rightarrow> (u64 \<times> hash) list \<Rightarrow> (u64 \<times> hash) list" where
  "TimestampIndex_add ts h [] = [(ts, h)]"
| "TimestampIndex_add ts h ((t, g) # index) =
     (if ts < t then (ts, h) # (t, g) # index else (t, g) # TimestampIndex_add ts h index)"

definition TimestampIndex_remove :: "u64 \<Rightarrow> hash \<Rightarrow> (u64 \<times> hash) list \<Rightarrow> (u64 \<times> hash) list" where
  "TimestampIndex_remove ts h index = remove1 (ts, h) index"

definition TimestampIndex_find :: "u64 \<Rightarrow> u64 \<Rightarrow> u64 \<Rightarrow> (u64 \<times> hash) list \<Rightarrow> (hash list \<times> u64) option" where
  "TimestampIndex_find tsBegin tsEnd limit index =
     (if tsEnd < tsBegin then None
      else let range = filter (\<lambda>e. tsBegin \<le> fst e \<and> fst e \<le> tsEnd) index;
               hashes = take (unat limit) (map snd range)
           in if hashes = [] then None else Some (hashes, ucast (of_nat (length range) :: u32)))"

section \<open>Entries and their order\<close>

record TransactionCheckInfo =
  maxUsedBlock :: BlockInfo
  lastFailedBlock :: BlockInfo

record TransactionDetails = TransactionCheckInfo +
  td_id :: hash
  td_tx :: Transaction
  blobSize :: u64
  td_fee :: u64
  keptByBlock :: bool
  receiveTime :: u64

definition priority_before :: "TransactionDetails \<Rightarrow> TransactionDetails \<Rightarrow> bool" where
  "priority_before l r \<longleftrightarrow>
     (let (lhs_hi, lhs_lo) = mul128 (td_fee l) (blobSize r);
          (rhs_hi, rhs_lo) = mul128 (td_fee r) (blobSize l)
      in lhs_hi > rhs_hi \<or> lhs_hi = rhs_hi \<and> lhs_lo > rhs_lo \<or>
         lhs_hi = rhs_hi \<and> lhs_lo = rhs_lo \<and> blobSize l < blobSize r \<or>
         lhs_hi = rhs_hi \<and> lhs_lo = rhs_lo \<and> blobSize l = blobSize r \<and> receiveTime l <s receiveTime r)"

fun insert_fee :: "TransactionDetails \<Rightarrow> TransactionDetails list \<Rightarrow> TransactionDetails list" where
  "insert_fee x [] = [x]"
| "insert_fee x (y # ys) = (if priority_before x y then x # y # ys else y # insert_fee x ys)"

record tx_memory_pool =
  m_transactions :: "TransactionDetails list"
  m_spent_key_images :: "hash \<rightharpoonup> hash list"
  m_pq_account_registrations :: "hash \<rightharpoonup> hash list"
  m_freeRegPoolCount :: u64
  m_recentlyDeletedTransactions :: "hash \<rightharpoonup> u64"
  m_validated_transactions :: "hash list"
  m_paymentIdIndex :: "(hash \<times> hash) list"
  m_timestampIndex :: "(u64 \<times> hash) list"
  m_lastWorkedTime :: u64

definition m_fee_index :: "tx_memory_pool \<Rightarrow> TransactionDetails list" where
  "m_fee_index pool = foldl (\<lambda>index txd. insert_fee txd index) [] (m_transactions pool)"

definition find_tx :: "hash \<Rightarrow> tx_memory_pool \<Rightarrow> TransactionDetails option" where
  "find_tx txid pool = find (\<lambda>txd. td_id txd = txid) (m_transactions pool)"

definition have_tx :: "tx_memory_pool \<Rightarrow> hash \<Rightarrow> bool" where
  "have_tx pool txid \<longleftrightarrow> find_tx txid pool \<noteq> None"

definition getTransaction :: "tx_memory_pool \<Rightarrow> hash \<Rightarrow> Transaction option" where
  "getTransaction pool txid = map_option td_tx (find_tx txid pool)"

definition is_free_reg :: "Transaction \<Rightarrow> bool" where
  "is_free_reg tx \<longleftrightarrow> TRANSACTION_VERSION_1 \<le> version tx \<and> txType tx = TX_FREE_REG"

section \<open>Spent inputs and registrations of the pool\<close>

text \<open>Adding an id to the set of a key and taking it out again; \<open>None\<close> when the code gives up.\<close>

definition add_id :: "bool \<Rightarrow> hash \<Rightarrow> hash \<Rightarrow> (hash \<rightharpoonup> hash list) \<Rightarrow> bool \<times> (hash \<rightharpoonup> hash list)" where
  "add_id kept txid k m =
     (let ids = (case m k of None \<Rightarrow> [] | Some ids \<Rightarrow> ids) in
      if \<not> (kept \<or> ids = []) then (False, m)
      else if txid \<in> set ids then (False, m)
      else (True, m(k \<mapsto> txid # ids)))"

definition remove_id :: "hash \<Rightarrow> hash \<Rightarrow> (hash \<rightharpoonup> hash list) \<Rightarrow> bool \<times> (hash \<rightharpoonup> hash list)" where
  "remove_id txid k m =
     (case m k of
        None \<Rightarrow> (False, m)
      | Some ids \<Rightarrow>
          if ids = [] then (False, m)
          else if txid \<notin> set ids then (False, m)
          else let ids' = removeAll txid ids in
               (True, if ids' = [] then m(k := None) else m(k \<mapsto> ids')))"

fun add_images :: "(bytes \<Rightarrow> hash) \<Rightarrow> bool \<Rightarrow> hash \<Rightarrow> TransactionInput list \<Rightarrow> (hash \<rightharpoonup> hash list) \<Rightarrow> bool \<times> (hash \<rightharpoonup> hash list)" where
  "add_images sha3 kept txid [] m = (True, m)"
| "add_images sha3 kept txid (i # is) m =
     (case i of
        InBase _ \<Rightarrow> add_images sha3 kept txid is m
      | InPq p \<Rightarrow>
          (case add_id kept txid (pqInputNullifierAsKeyImage sha3 p) m of
             (False, m') \<Rightarrow> (False, m')
           | (True, m') \<Rightarrow> add_images sha3 kept txid is m'))"

fun remove_images :: "(bytes \<Rightarrow> hash) \<Rightarrow> hash \<Rightarrow> TransactionInput list \<Rightarrow> (hash \<rightharpoonup> hash list) \<Rightarrow> bool \<times> (hash \<rightharpoonup> hash list)" where
  "remove_images sha3 txid [] m = (True, m)"
| "remove_images sha3 txid (i # is) m =
     (case i of
        InBase _ \<Rightarrow> remove_images sha3 txid is m
      | InPq p \<Rightarrow>
          (case remove_id txid (pqInputNullifierAsKeyImage sha3 p) m of
             (False, m') \<Rightarrow> (False, m')
           | (True, m') \<Rightarrow> remove_images sha3 txid is m'))"

definition addTransactionInputs :: "(bytes \<Rightarrow> hash) \<Rightarrow> hash \<Rightarrow> Transaction \<Rightarrow> bool \<Rightarrow> tx_memory_pool \<Rightarrow> bool \<times> tx_memory_pool" where
  "addTransactionInputs sha3 txid tx kept pool =
     (case add_images sha3 kept txid (inputs tx) (m_spent_key_images pool) of
        (False, m) \<Rightarrow> (False, pool\<lparr>m_spent_key_images := m\<rparr>)
      | (True, m) \<Rightarrow>
          let pool1 = pool\<lparr>m_spent_key_images := m\<rparr>;
              (ok, regs) = (case account_of sha3 tx of
                              None \<Rightarrow> (True, m_pq_account_registrations pool1)
                            | Some a \<Rightarrow> add_id kept txid a (m_pq_account_registrations pool1));
              pool2 = pool1\<lparr>m_pq_account_registrations := regs\<rparr>
          in if \<not> ok then (False, pool2)
             else (True, if is_free_reg tx then pool2\<lparr>m_freeRegPoolCount := m_freeRegPoolCount pool2 + 1\<rparr> else pool2))"

definition removeTransactionInputs :: "(bytes \<Rightarrow> hash) \<Rightarrow> hash \<Rightarrow> Transaction \<Rightarrow> tx_memory_pool \<Rightarrow> bool \<times> tx_memory_pool" where
  "removeTransactionInputs sha3 txid tx pool =
     (case remove_images sha3 txid (inputs tx) (m_spent_key_images pool) of
        (False, m) \<Rightarrow> (False, pool\<lparr>m_spent_key_images := m\<rparr>)
      | (True, m) \<Rightarrow>
          let pool1 = pool\<lparr>m_spent_key_images := m\<rparr>;
              (ok, regs) = (case account_of sha3 tx of
                              None \<Rightarrow> (True, m_pq_account_registrations pool1)
                            | Some a \<Rightarrow> remove_id txid a (m_pq_account_registrations pool1));
              pool2 = pool1\<lparr>m_pq_account_registrations := regs\<rparr>
          in if \<not> ok then (False, pool2)
             else (True, if is_free_reg tx \<and> 0 < m_freeRegPoolCount pool2
                         then pool2\<lparr>m_freeRegPoolCount := m_freeRegPoolCount pool2 - 1\<rparr> else pool2))"

definition haveSpentInputs :: "(bytes \<Rightarrow> hash) \<Rightarrow> tx_memory_pool \<Rightarrow> Transaction \<Rightarrow> bool" where
  "haveSpentInputs sha3 pool tx \<longleftrightarrow>
     (\<exists>i \<in> set (inputs tx). case i of
        InPq p \<Rightarrow> m_spent_key_images pool (pqInputNullifierAsKeyImage sha3 p) \<noteq> None
      | InBase _ \<Rightarrow> False)"

definition havePqAccountRegistration :: "(bytes \<Rightarrow> hash) \<Rightarrow> tx_memory_pool \<Rightarrow> Transaction \<Rightarrow> bool" where
  "havePqAccountRegistration sha3 pool tx \<longleftrightarrow>
     (case account_of sha3 tx of None \<Rightarrow> False | Some a \<Rightarrow> m_pq_account_registrations pool a \<noteq> None)"

section \<open>Adding and removing transactions\<close>

definition removeTransaction :: "('s, 'k) node_env \<Rightarrow> TransactionDetails \<Rightarrow> tx_memory_pool \<Rightarrow> tx_memory_pool" where
  "removeTransaction E txd pool =
     (let pool1 = snd (removeTransactionInputs (sha3_256 (ev_pq E)) (td_id txd) (td_tx txd) pool)
      in pool1\<lparr>m_paymentIdIndex := PaymentIdIndex_remove (pw_fast_hash (ev_pow E)) (td_tx txd) (m_paymentIdIndex pool1),
               m_timestampIndex := TimestampIndex_remove (receiveTime txd) (td_id txd) (m_timestampIndex pool1),
               m_validated_transactions := removeAll (td_id txd) (m_validated_transactions pool1),
               m_transactions := filter (\<lambda>t. td_id t \<noteq> td_id txd) (m_transactions pool1)\<rparr>)"

definition take_tx :: "('s, 'k) node_env \<Rightarrow> hash \<Rightarrow> tx_memory_pool \<Rightarrow> (Transaction \<times> u64 \<times> u64) option \<times> tx_memory_pool" where
  "take_tx E txid pool =
     (case find_tx txid pool of
        None \<Rightarrow> (None, pool)
      | Some txd \<Rightarrow> (Some (td_tx txd, blobSize txd, td_fee txd), removeTransaction E txd pool))"

record tx_verification_context =
  m_should_be_relayed :: bool
  tvc_verification_failed :: bool
  m_verifivation_impossible :: bool
  m_added_to_pool :: bool
  m_tx_fee_too_small :: bool
  m_ran_expensive_verification :: bool

definition initial_tvc :: tx_verification_context where
  "initial_tvc = \<lparr>m_should_be_relayed = False, tvc_verification_failed = False, m_verifivation_impossible = False,
     m_added_to_pool = False, m_tx_fee_too_small = False, m_ran_expensive_verification = False\<rparr>"

text \<open>The last part of \<open>add_tx\<close>: the insertion itself.\<close>

definition insert_tx ::
  "('s, 'k) node_env \<Rightarrow> u64 \<Rightarrow> Transaction \<Rightarrow> hash \<Rightarrow> u64 \<Rightarrow> u64 \<Rightarrow> BlockInfo \<Rightarrow> bool \<Rightarrow> bool \<Rightarrow> tx_verification_context \<Rightarrow>
     tx_memory_pool \<Rightarrow> bool \<times> tx_verification_context \<times> tx_memory_pool" where
  "insert_tx E now tx txid size' fee maxUsed kept inputsValid tvc pool =
     (let txd = \<lparr>maxUsedBlock = maxUsed, lastFailedBlock = clear_info, td_id = txid, td_tx = tx, blobSize = size',
                 td_fee = fee, keptByBlock = kept, receiveTime = now\<rparr>
      in if have_tx pool txid then (False, tvc, pool)
         else
           let pool1 = pool\<lparr>m_transactions := m_transactions pool @ [txd],
                            m_paymentIdIndex := PaymentIdIndex_add (pw_fast_hash (ev_pow E)) tx (m_paymentIdIndex pool),
                            m_timestampIndex := TimestampIndex_add now txid (m_timestampIndex pool)\<rparr>;
               tvc1 = tvc\<lparr>m_added_to_pool := True,
                          m_should_be_relayed := inputsValid \<and> (0 < fee \<or> is_free_reg tx \<and> fee = 0),
                          tvc_verification_failed := True\<rparr>
           in (case addTransactionInputs (sha3_256 (ev_pq E)) txid tx kept pool1 of
                 (False, pool2) \<Rightarrow> (False, tvc1, pool2)
               | (True, pool2) \<Rightarrow> (True, tvc1\<lparr>tvc_verification_failed := False\<rparr>, pool2)))"

definition add_tx ::
  "('s, 'k) node_env \<Rightarrow> u64 \<Rightarrow> Transaction \<Rightarrow> hash \<Rightarrow> u64 \<Rightarrow> tx_verification_context \<Rightarrow> bool \<Rightarrow> tx_memory_pool \<Rightarrow> Blockchain \<Rightarrow>
     bool \<times> tx_verification_context \<times> tx_memory_pool \<times> Blockchain" where
  "add_tx E now tx txid size' tvc kept pool bc =
     (let sha3 = sha3_256 (ev_pq E);
          pqOnlyInputs = (TRANSACTION_VERSION_1 \<le> version tx \<and> isPqTransfer (txType tx));
          bad = tvc\<lparr>tvc_verification_failed := True\<rparr>;
          outputs_amount = get_outs_money_amount tx;
          (haveInputs, inputs_amount) = get_inputs_money_amount tx
      in if \<not> check_inputs_types_supported tx then (False, bad, pool, bc)
         else if \<not> pqOnlyInputs \<and> \<not> haveInputs then (False, bad, pool, bc)
         else if \<not> pqOnlyInputs \<and> inputs_amount < outputs_amount then (False, bad, pool, bc)
         else if \<not> kept \<and> haveSpentInputs sha3 pool tx then (False, bad, pool, bc)
         else if \<not> kept \<and> havePqAccountRegistration sha3 pool tx then (False, bad, pool, bc)
         else if \<not> kept \<and> is_free_reg tx \<and> m_freeRegPoolLimit (m_currency bc) \<le> m_freeRegPoolCount pool then (False, bad, pool, bc)
         else
           let (inputsValid, used, bc1) = checkInputs_info E tx clear_info bc;
               legacy_fee = (if pqOnlyInputs then 0 else inputs_amount - outputs_amount)
           in if \<not> inputsValid \<and> \<not> kept then (False, bad, pool, bc1)
              else if inputsValid \<and> pqOnlyInputs \<and> getPqTransactionFee bc1 tx = None then (False, bad, pool, bc1)
              else
                let maxUsed = (if inputsValid then used else clear_info);
                    tvc1 = (if inputsValid then tvc else tvc\<lparr>m_verifivation_impossible := True\<rparr>);
                    fee = (if inputsValid \<and> pqOnlyInputs then the (getPqTransactionFee bc1 tx) else legacy_fee)
                in if \<not> kept \<and> \<not> checkTransactionSize bc1 size' then (False, tvc1\<lparr>tvc_verification_failed := True\<rparr>, pool, bc1)
                   else if \<not> kept \<and> m_recentlyDeletedTransactions pool txid \<noteq> None then
                     (True, tvc1\<lparr>tvc_verification_failed := False, m_should_be_relayed := False, m_added_to_pool := False\<rparr>, pool, bc1)
                   else
                     let (r, tvc2, pool1) = insert_tx E now tx txid size' fee maxUsed kept inputsValid tvc1 pool
                     in (r, tvc2, pool1, bc1))"

text \<open>The overload that hashes the transaction itself.\<close>

definition add_tx_hashed ::
  "('s, 'k) node_env \<Rightarrow> u64 \<Rightarrow> Transaction \<Rightarrow> tx_verification_context \<Rightarrow> bool \<Rightarrow> tx_memory_pool \<Rightarrow> Blockchain \<Rightarrow>
     bool \<times> tx_verification_context \<times> tx_memory_pool \<times> Blockchain" where
  "add_tx_hashed E now tx tvc kept pool bc =
     add_tx E now tx (object_hash (pw_fast_hash (ev_pow E)) put_Transaction tx)
       (snd (getObjectBinarySize put_Transaction tx)) tvc kept pool bc"

text \<open>The two periodic clean-ups.\<close>

definition removeExpiredTransactions :: "('s, 'k) node_env \<Rightarrow> Currency \<Rightarrow> u64 \<Rightarrow> tx_memory_pool \<Rightarrow> tx_memory_pool" where
  "removeExpiredTransactions E c now pool =
     (let forget = m_numberOfPeriodsToForgetTxDeletedFromPool c * m_mempoolTxLiveTime c;
          pool1 = pool\<lparr>m_recentlyDeletedTransactions :=
                    (\<lambda>h. case m_recentlyDeletedTransactions pool h of
                           None \<Rightarrow> None | Some t \<Rightarrow> if forget < now - t then None else Some t)\<rparr>;
          expired = (\<lambda>txd. (if keptByBlock txd then m_mempoolTxFromAltBlockLiveTime c else m_mempoolTxLiveTime c) < now - receiveTime txd)
      in fold (\<lambda>txd p. if expired txd
                 then removeTransaction E txd
                        (p\<lparr>m_recentlyDeletedTransactions := (case m_recentlyDeletedTransactions p (td_id txd) of
                             Some _ \<Rightarrow> m_recentlyDeletedTransactions p
                           | None \<Rightarrow> (m_recentlyDeletedTransactions p)(td_id txd \<mapsto> now))\<rparr>)
                 else p)
           (m_transactions pool1) pool1)"

definition isAccountAlreadyRegisteredOnChain :: "(bytes \<Rightarrow> hash) \<Rightarrow> Blockchain \<Rightarrow> Transaction \<Rightarrow> bool" where
  "isAccountAlreadyRegisteredOnChain sha3 bc tx \<longleftrightarrow>
     (case account_of sha3 tx of None \<Rightarrow> False | Some a \<Rightarrow> getPqAcctReg (db_tables bc) a \<noteq> None)"

definition removeStaleAccountRegistrations :: "('s, 'k) node_env \<Rightarrow> Blockchain \<Rightarrow> tx_memory_pool \<Rightarrow> tx_memory_pool" where
  "removeStaleAccountRegistrations E bc pool =
     fold (\<lambda>txd p. if isAccountAlreadyRegisteredOnChain (sha3_256 (ev_pq E)) bc (td_tx txd) then removeTransaction E txd p else p)
       (m_transactions pool) pool"

text \<open>Runs when more than 60 seconds have passed since the last run.\<close>

definition pool_on_idle :: "('s, 'k) node_env \<Rightarrow> u64 \<Rightarrow> Blockchain \<Rightarrow> tx_memory_pool \<Rightarrow> tx_memory_pool" where
  "pool_on_idle E now bc pool =
     (if 60 <s now - m_lastWorkedTime pool
      then (removeStaleAccountRegistrations E bc (removeExpiredTransactions E (m_currency bc) now pool))\<lparr>m_lastWorkedTime := now\<rparr>
      else pool)"

definition on_blockchain_inc :: "tx_memory_pool \<Rightarrow> tx_memory_pool" where
  "on_blockchain_inc pool = pool\<lparr>m_validated_transactions := []\<rparr>"

definition on_blockchain_dec :: "tx_memory_pool \<Rightarrow> tx_memory_pool" where
  "on_blockchain_dec pool = pool\<lparr>m_validated_transactions := []\<rparr>"

definition index_tx :: "('s, 'k) node_env \<Rightarrow> TransactionDetails \<Rightarrow> tx_memory_pool \<Rightarrow> tx_memory_pool" where
  "index_tx E txd pool =
     (let regs = m_pq_account_registrations pool in
      pool\<lparr>m_paymentIdIndex := PaymentIdIndex_add (pw_fast_hash (ev_pow E)) (td_tx txd) (m_paymentIdIndex pool),
           m_timestampIndex := TimestampIndex_add (receiveTime txd) (td_id txd) (m_timestampIndex pool),
           m_pq_account_registrations :=
             (case account_of (sha3_256 (ev_pq E)) (td_tx txd) of
                None \<Rightarrow> regs
              | Some a \<Rightarrow> regs(a \<mapsto> List.insert (td_id txd) (case regs a of None \<Rightarrow> [] | Some ids \<Rightarrow> ids))),
           m_freeRegPoolCount := (if is_free_reg (td_tx txd) then m_freeRegPoolCount pool + 1 else m_freeRegPoolCount pool)\<rparr>)"

definition buildIndices :: "('s, 'k) node_env \<Rightarrow> tx_memory_pool \<Rightarrow> tx_memory_pool" where
  "buildIndices E pool =
     fold (index_tx E) (m_transactions pool) (pool\<lparr>m_pq_account_registrations := (\<lambda>_. None), m_freeRegPoolCount := 0\<rparr>)"

section \<open>Block templates\<close>

record BlockTemplate =
  m_keyImages :: "hash list"
  m_pqAccountRegistrations :: "hash list"
  m_freeRegCount :: u64
  m_txHashes :: "hash list"

definition empty_template :: BlockTemplate where
  "empty_template = \<lparr>m_keyImages = [], m_pqAccountRegistrations = [], m_freeRegCount = 0, m_txHashes = []\<rparr>"

definition canAdd :: "(bytes \<Rightarrow> hash) \<Rightarrow> Transaction \<Rightarrow> BlockTemplate \<Rightarrow> bool" where
  "canAdd sha3 tx bt \<longleftrightarrow>
     \<not> (\<exists>k \<in> set (spend_images sha3 tx). k \<in> set (m_keyImages bt)) \<and>
     \<not> (case account_of sha3 tx of None \<Rightarrow> False | Some a \<Rightarrow> a \<in> set (m_pqAccountRegistrations bt)) \<and>
     \<not> (is_free_reg tx \<and> FREE_REG_PER_BLOCK \<le> m_freeRegCount bt)"

definition addTransaction :: "(bytes \<Rightarrow> hash) \<Rightarrow> hash \<Rightarrow> Transaction \<Rightarrow> BlockTemplate \<Rightarrow> bool \<times> BlockTemplate" where
  "addTransaction sha3 txid tx bt =
     (if \<not> canAdd sha3 tx bt then (False, bt)
      else (True, bt\<lparr>m_keyImages := m_keyImages bt @ spend_images sha3 tx,
                     m_pqAccountRegistrations := (case account_of sha3 tx of
                        None \<Rightarrow> m_pqAccountRegistrations bt | Some a \<Rightarrow> m_pqAccountRegistrations bt @ [a]),
                     m_freeRegCount := (if is_free_reg tx then m_freeRegCount bt + 1 else m_freeRegCount bt),
                     m_txHashes := m_txHashes bt @ [txid]\<rparr>))"

text \<open>The check of a pool entry at the tip: verdict, check information and chain.\<close>

definition is_transaction_ready_to_go ::
  "('s, 'k) node_env \<Rightarrow> Transaction \<Rightarrow> BlockInfo \<Rightarrow> BlockInfo \<Rightarrow> Blockchain \<Rightarrow> bool \<times> BlockInfo \<times> BlockInfo \<times> Blockchain" where
  "is_transaction_ready_to_go E tx maxUsed lastFailed bc =
     (case checkInputs_again E tx maxUsed lastFailed bc of
        (False, m, l, bc') \<Rightarrow> (False, m, l, bc')
      | (True, m, l, bc') \<Rightarrow> (\<not> haveTransactionKeyImagesAsSpent (sha3_256 (ev_pq E)) bc' tx, m, l, bc'))"

definition era_ok :: "Blockchain \<Rightarrow> Transaction \<Rightarrow> bool" where
  "era_ok bc tx \<longleftrightarrow>
     \<not> (version tx = TRANSACTION_VERSION_1 \<and> isPqTransfer (txType tx) \<and>
        \<not> isPqTransferTypeAllowedAt (m_currency bc) (txType tx) (getCurrentBlockchainHeight bc))"

section \<open>Admission\<close>

definition check_tx_fee :: "Blockchain \<Rightarrow> Transaction \<Rightarrow> tx_verification_context \<Rightarrow> u32 \<Rightarrow> bool \<times> tx_verification_context" where
  "check_tx_fee bc tx tvc height =
     (let isPqTx = (TRANSACTION_VERSION_1 \<le> version tx);
          (haveInputs, inputs_amount) = get_inputs_money_amount tx;
          outputs_amount = get_outs_money_amount tx;
          fee = inputs_amount - outputs_amount;
          min_fee = getMinimalFee (m_currency bc) height;
          min_fee = min_fee + getFeePerByte (m_currency bc) (of_nat (length (extra tx))) min_fee
      in if isPqTx \<and> isPqTransfer (txType tx) then (True, tvc)
         else if \<not> haveInputs then (False, tvc\<lparr>tvc_verification_failed := True\<rparr>)
         else if inputs_amount < outputs_amount then (False, tvc\<lparr>tvc_verification_failed := True\<rparr>)
         else if isPqTx \<and> txType tx = TX_FREE_REG \<and> fee = 0 then (True, tvc)
         else if \<not> is_in_checkpoint_zone (m_checkpoints bc) height \<and> fee < min_fee
           then (False, tvc\<lparr>tvc_verification_failed := True, m_tx_fee_too_small := True\<rparr>)
         else (True, tvc))"

definition check_tx_inputs_keyimages_diff :: "(bytes \<Rightarrow> hash) \<Rightarrow> Transaction \<Rightarrow> bool" where
  "check_tx_inputs_keyimages_diff sha3 tx \<longleftrightarrow> distinct (spend_images sha3 tx)"

definition check_tx_classical_output_amounts :: "Transaction \<Rightarrow> bool" where
  "check_tx_classical_output_amounts tx \<longleftrightarrow> list_all (\<lambda>out. is_valid_decomposed_amount (amount out)) (outputs tx)"

definition check_tx_semantic :: "(bytes \<Rightarrow> hash) \<Rightarrow> Transaction \<Rightarrow> bool \<Rightarrow> bool" where
  "check_tx_semantic sha3 tx kept =
     (if TRANSACTION_VERSION_1 \<le> version tx then
        (if isPqTransfer (txType tx) then (case checkPqTransactionSemantic tx of Inl _ \<Rightarrow> False | Inr _ \<Rightarrow> True)
         else if txType tx = TX_FREE_REG then
           (case checkFreeRegTransactionShape tx of Inl _ \<Rightarrow> False
            | Inr _ \<Rightarrow> \<not> (\<not> kept \<and> \<not> isCanonicalFreeRegExtra (extra tx)))
         else False)
      else if inputs tx = [] then False
      else if \<not> check_inputs_types_supported tx then False
      else if (case check_outs_valid tx of Inl _ \<Rightarrow> True | Inr _ \<Rightarrow> False) then False
      else if \<not> check_money_overflow tx then False
      else if snd (get_inputs_money_amount tx) < get_outs_money_amount tx then False
      else if \<not> check_tx_inputs_keyimages_diff sha3 tx then False
      else if getAccountRegistrationFromExtra (extra tx) \<noteq> None \<and> \<not> isWellFormedAccountRegistration (extra tx) then False
      else True)"

definition add_new_tx ::
  "('s, 'k) node_env \<Rightarrow> u64 \<Rightarrow> Transaction \<Rightarrow> hash \<Rightarrow> u64 \<Rightarrow> tx_verification_context \<Rightarrow> bool \<Rightarrow> tx_memory_pool \<Rightarrow> Blockchain \<Rightarrow>
     bool \<times> tx_verification_context \<times> tx_memory_pool \<times> Blockchain" where
  "add_new_tx E now tx txid size' tvc kept pool bc =
     (if haveTransaction bc txid then (True, tvc, pool, bc)
      else if have_tx pool txid then (True, tvc, pool, bc)
      else add_tx E now tx txid size' tvc kept pool bc)"

text \<open>The checks before the pool; the verdict and the verification context.\<close>

definition admission_checks :: "Blockchain \<Rightarrow> Transaction \<Rightarrow> u64 \<Rightarrow> tx_verification_context \<Rightarrow> u32 \<Rightarrow> bool \<times> tx_verification_context" where
  "admission_checks bc tx size' tvc height =
     (let bad = (\<lambda>t. t\<lparr>tvc_verification_failed := True\<rparr>);
          pqOnlyInputs = (TRANSACTION_VERSION_1 \<le> version tx \<and> isPqTransfer (txType tx));
          (feeOk, tvc1) = (if pqOnlyInputs then (True, tvc) else check_tx_fee bc tx tvc height)
      in if is_in_checkpoint_zone (m_checkpoints bc) (getCurrentBlockchainHeight bc) then (True, tvc)
         else if m_maxTransactionSizeLimit (m_currency bc) < size' then (False, bad tvc)
         else if \<not> feeOk then (False, bad tvc1)
         else if \<not> TRANSACTION_VERSION_1 \<le> version tx \<and> \<not> check_tx_classical_output_amounts tx then (False, bad tvc1)
         else if m_maxBlockHeight (m_currency bc) < unlockHeight tx then (False, bad tvc1)
         else (True, tvc1))"

definition handleIncomingTransaction ::
  "('s, 'k) node_env \<Rightarrow> u64 \<Rightarrow> Transaction \<Rightarrow> hash \<Rightarrow> u64 \<Rightarrow> tx_verification_context \<Rightarrow> bool \<Rightarrow> u32 \<Rightarrow> tx_memory_pool \<Rightarrow> Blockchain \<Rightarrow>
     bool \<times> tx_verification_context \<times> tx_memory_pool \<times> Blockchain" where
  "handleIncomingTransaction E now tx txid size' tvc kept height pool bc =
     (case admission_checks bc tx size' tvc height of
        (False, tvc1) \<Rightarrow> (False, tvc1, pool, bc)
      | (True, tvc1) \<Rightarrow>
          if \<not> check_tx_semantic (sha3_256 (ev_pq E)) tx kept then (False, tvc1\<lparr>tvc_verification_failed := True\<rparr>, pool, bc)
          else
            let (powOk, bc1) = (if \<not> kept \<and> is_free_reg tx then precheckFreeRegPow E tx bc else (True, bc))
            in if \<not> powOk then (False, tvc1\<lparr>tvc_verification_failed := True\<rparr>, pool, bc1)
               else add_new_tx E now tx txid size' tvc1 kept pool bc1)"

definition handle_incoming_tx ::
  "('s, 'k) node_env \<Rightarrow> u64 \<Rightarrow> bytes \<Rightarrow> bool \<Rightarrow> tx_memory_pool \<Rightarrow> Blockchain \<Rightarrow>
     bool \<times> tx_verification_context \<times> tx_memory_pool \<times> Blockchain" where
  "handle_incoming_tx E now tx_blob kept pool bc =
     (if m_maxTransactionSizeLimit (m_currency bc) < of_nat (length tx_blob)
        then (False, initial_tvc\<lparr>tvc_verification_failed := True\<rparr>, pool, bc)
      else case parseAndValidateTransactionFromBinaryArray (pw_fast_hash (ev_pow E)) tx_blob of
        None \<Rightarrow> (False, initial_tvc\<lparr>tvc_verification_failed := True\<rparr>, pool, bc)
      | Some (tx, tx_hash, _) \<Rightarrow>
          let height = (case getTxIndex (db_tables bc) tx_hash of
                          None \<Rightarrow> getCurrentBlockchainHeight bc | Some (block, _) \<Rightarrow> block)
          in handleIncomingTransaction E now tx tx_hash (of_nat (length tx_blob)) initial_tvc kept height pool bc)"

section \<open>Filling a block template\<close>

record TemplateState =
  ts_pool :: tx_memory_pool
  ts_bc :: Blockchain
  ts_template :: BlockTemplate
  total_size :: u64
  total_fee :: u64

definition update_info :: "hash \<Rightarrow> BlockInfo \<Rightarrow> BlockInfo \<Rightarrow> tx_memory_pool \<Rightarrow> tx_memory_pool" where
  "update_info txid m l pool =
     pool\<lparr>m_transactions := map (\<lambda>t. if td_id t = txid then t\<lparr>maxUsedBlock := m, lastFailedBlock := l\<rparr> else t) (m_transactions pool)\<rparr>"

definition fill_step :: "('s, 'k) node_env \<Rightarrow> u64 \<Rightarrow> u64 \<Rightarrow> TransactionDetails \<Rightarrow> TemplateState \<Rightarrow> TemplateState" where
  "fill_step E median_size max_total_size txd st =
     (let bc = ts_bc st; pool = ts_pool st; tx = td_tx txd; sha3 = sha3_256 (ev_pq E);
          blockSizeLimit = (if td_fee txd = 0 then median_size else max_total_size)
      in if \<not> era_ok bc tx then st
         else if blockSizeLimit < total_size st + blobSize txd then st
         else if \<not> fst (check_tx_fee bc tx initial_tvc (getCurrentBlockchainHeight bc)) then st
         else if isAccountAlreadyRegisteredOnChain sha3 bc tx then st
         else
           let cached = td_id txd \<in> set (m_validated_transactions pool);
               (ready, m, l, bc1) = (if cached then (True, maxUsedBlock txd, lastFailedBlock txd, bc)
                                     else is_transaction_ready_to_go E tx (maxUsedBlock txd) (lastFailedBlock txd) bc);
               pool1 = (if ready \<and> \<not> cached then pool\<lparr>m_validated_transactions := td_id txd # m_validated_transactions pool\<rparr> else pool);
               st1 = st\<lparr>ts_pool := update_info (td_id txd) m l pool1, ts_bc := bc1\<rparr>
           in if \<not> ready then st1
              else case addTransaction sha3 (td_id txd) tx (ts_template st1) of
                (False, _) \<Rightarrow> st1
              | (True, bt) \<Rightarrow> st1\<lparr>ts_template := bt, total_size := total_size st1 + blobSize txd, total_fee := total_fee st1 + td_fee txd\<rparr>)"

definition fill_limit :: "Currency \<Rightarrow> u64 \<Rightarrow> u64 \<Rightarrow> u64" where
  "fill_limit c median_size maxCumulativeSize =
     min (125 * median_size div 100) maxCumulativeSize - m_minerTxBlobReservedSize c"

definition fill_block_template :: "('s, 'k) node_env \<Rightarrow> u64 \<Rightarrow> u64 \<Rightarrow> tx_memory_pool \<Rightarrow> Blockchain \<Rightarrow> TemplateState" where
  "fill_block_template E median_size maxCumulativeSize pool bc =
     fold (fill_step E median_size (fill_limit (m_currency bc) median_size maxCumulativeSize)) (m_fee_index pool)
       \<lparr>ts_pool = pool, ts_bc = bc, ts_template = empty_template, total_size = 0, total_fee = 0\<rparr>"

text \<open>Which transactions the caller lacks and which it has too many.\<close>

definition ready_step ::
  "('s, 'k) node_env \<Rightarrow> TransactionDetails \<Rightarrow> hash list \<times> tx_memory_pool \<times> Blockchain \<Rightarrow> hash list \<times> tx_memory_pool \<times> Blockchain" where
  "ready_step E txd st =
     (case st of (ready, pool, bc) \<Rightarrow>
        if \<not> era_ok bc (td_tx txd) then (ready, pool, bc)
        else if td_id txd \<in> set (m_validated_transactions pool) then (ready @ [td_id txd], pool, bc)
        else (case is_transaction_ready_to_go E (td_tx txd) (maxUsedBlock txd) (lastFailedBlock txd) bc of
                (False, _, _, bc') \<Rightarrow> (ready, pool, bc')
              | (True, _, _, bc') \<Rightarrow>
                  (ready @ [td_id txd], pool\<lparr>m_validated_transactions := td_id txd # m_validated_transactions pool\<rparr>, bc')))"

definition get_difference ::
  "('s, 'k) node_env \<Rightarrow> hash list \<Rightarrow> tx_memory_pool \<Rightarrow> Blockchain \<Rightarrow> hash list \<times> hash list \<times> tx_memory_pool \<times> Blockchain" where
  "get_difference E known pool bc =
     (case fold (ready_step E) (m_transactions pool) ([], pool, bc) of (ready, pool', bc') \<Rightarrow>
        (filter (\<lambda>h. h \<notin> set known) ready, filter (\<lambda>h. h \<notin> set ready) (remdups known), pool', bc'))"

section \<open>The two indexes of the pool\<close>

text \<open>Both indexes map a key to the ids of the entries that have it.\<close>

fun add_keys :: "bool \<Rightarrow> hash \<Rightarrow> hash list \<Rightarrow> (hash \<rightharpoonup> hash list) \<Rightarrow> bool \<times> (hash \<rightharpoonup> hash list)" where
  "add_keys kept txid [] m = (True, m)"
| "add_keys kept txid (k # ks) m =
     (case add_id kept txid k m of (False, m') \<Rightarrow> (False, m') | (True, m') \<Rightarrow> add_keys kept txid ks m')"

fun remove_keys :: "hash \<Rightarrow> hash list \<Rightarrow> (hash \<rightharpoonup> hash list) \<Rightarrow> bool \<times> (hash \<rightharpoonup> hash list)" where
  "remove_keys txid [] m = (True, m)"
| "remove_keys txid (k # ks) m =
     (case remove_id txid k m of (False, m') \<Rightarrow> (False, m') | (True, m') \<Rightarrow> remove_keys txid ks m')"

definition account_keys :: "(bytes \<Rightarrow> hash) \<Rightarrow> Transaction \<Rightarrow> hash list" where
  "account_keys sha3 tx = (case account_of sha3 tx of None \<Rightarrow> [] | Some a \<Rightarrow> [a])"

lemma add_images_keys: "add_images sha3 kept txid is m = add_keys kept txid (List.map_filter (spendImageForInput sha3) is) m"
  by (induction "is" arbitrary: m) (auto simp: map_filter_def spendImageForInput_def split: TransactionInput.splits prod.splits bool.splits)

lemma remove_images_keys: "remove_images sha3 txid is m = remove_keys txid (List.map_filter (spendImageForInput sha3) is) m"
  by (induction "is" arbitrary: m) (auto simp: map_filter_def spendImageForInput_def split: TransactionInput.splits prod.splits bool.splits)

definition ids_at :: "(hash \<rightharpoonup> hash list) \<Rightarrow> hash \<Rightarrow> hash set" where
  "ids_at m k = (case m k of None \<Rightarrow> {} | Some ids \<Rightarrow> set ids)"

definition no_empty :: "(hash \<rightharpoonup> hash list) \<Rightarrow> bool" where
  "no_empty m \<longleftrightarrow> (\<forall>k. m k \<noteq> Some [])"

lemma absent_iff: "no_empty m \<Longrightarrow> m k = None \<longleftrightarrow> ids_at m k = {}"
  by (auto simp: no_empty_def ids_at_def split: option.splits)

lemma add_id_ok:
  assumes "no_empty m" and "kept \<or> m k = None" and "txid \<notin> ids_at m k"
  shows "\<exists>m'. add_id kept txid k m = (True, m') \<and> no_empty m' \<and> (\<forall>j. ids_at m' j = (if j = k then insert txid (ids_at m k) else ids_at m j))"
  using assms by (auto simp: add_id_def ids_at_def no_empty_def Let_def split: option.splits)

lemma remove_id_ok:
  assumes "no_empty m" and "txid \<in> ids_at m k"
  shows "\<exists>m'. remove_id txid k m = (True, m') \<and> no_empty m' \<and> (\<forall>j. ids_at m' j = (if j = k then ids_at m k - {txid} else ids_at m j))"
proof -
  obtain ids where ids: "m k = Some ids" "txid \<in> set ids" using assms(2) by (auto simp: ids_at_def split: option.splits)
  then have "ids \<noteq> []" by auto
  have "set ids \<subseteq> {txid}" if "removeAll txid ids = []" using set_removeAll [of txid ids] that by simp
  then have "ids_at (if removeAll txid ids = [] then m(k := None) else m(k \<mapsto> removeAll txid ids)) j = (if j = k then ids_at m k - {txid} else ids_at m j)" for j
    using ids by (auto simp: ids_at_def)
  moreover have "no_empty (if removeAll txid ids = [] then m(k := None) else m(k \<mapsto> removeAll txid ids))"
    using assms(1) by (auto simp: no_empty_def)
  ultimately show ?thesis using ids \<open>ids \<noteq> []\<close> by (simp add: remove_id_def Let_def)
qed

lemma add_keys_ok:
  "no_empty m \<Longrightarrow> \<forall>k \<in> set ks. (kept \<or> m k = None) \<and> txid \<notin> ids_at m k \<Longrightarrow> distinct ks \<Longrightarrow>
     \<exists>m'. add_keys kept txid ks m = (True, m') \<and> no_empty m' \<and>
       (\<forall>j. ids_at m' j = (if j \<in> set ks then insert txid (ids_at m j) else ids_at m j))"
proof (induction ks arbitrary: m)
  case (Cons k ks)
  obtain m1 where m1: "add_id kept txid k m = (True, m1)" "no_empty m1"
    "\<And>j. ids_at m1 j = (if j = k then insert txid (ids_at m k) else ids_at m j)"
    using add_id_ok [of m kept k txid] Cons.prems by auto
  have "\<forall>k' \<in> set ks. (kept \<or> m1 k' = None) \<and> txid \<notin> ids_at m1 k'"
    using Cons.prems m1(3) absent_iff [OF m1(2)] absent_iff [OF Cons.prems(1)] by (metis distinct.simps(2) list.set_intros(2))
  then obtain m' where "add_keys kept txid ks m1 = (True, m')" "no_empty m'"
    "\<forall>j. ids_at m' j = (if j \<in> set ks then insert txid (ids_at m1 j) else ids_at m1 j)"
    using Cons.IH [OF m1(2)] Cons.prems(3) by auto
  then show ?case using m1 Cons.prems(3) by auto
qed simp

lemma remove_keys_ok:
  "no_empty m \<Longrightarrow> \<forall>k \<in> set ks. txid \<in> ids_at m k \<Longrightarrow> distinct ks \<Longrightarrow>
     \<exists>m'. remove_keys txid ks m = (True, m') \<and> no_empty m' \<and>
       (\<forall>j. ids_at m' j = (if j \<in> set ks then ids_at m j - {txid} else ids_at m j))"
proof (induction ks arbitrary: m)
  case (Cons k ks)
  obtain m1 where m1: "remove_id txid k m = (True, m1)" "no_empty m1"
    "\<And>j. ids_at m1 j = (if j = k then ids_at m k - {txid} else ids_at m j)"
    using remove_id_ok [of m txid k] Cons.prems by auto
  have "\<forall>k' \<in> set ks. txid \<in> ids_at m1 k'" using Cons.prems m1(3) by auto
  then obtain m' where "remove_keys txid ks m1 = (True, m')" "no_empty m'"
    "\<forall>j. ids_at m' j = (if j \<in> set ks then ids_at m1 j - {txid} else ids_at m1 j)"
    using Cons.IH [OF m1(2)] Cons.prems(3) by auto
  then show ?case using m1 Cons.prems(3) by auto
qed simp

section \<open>The invariant of the pool\<close>

definition index_ok :: "(hash \<rightharpoonup> hash list) \<Rightarrow> (Transaction \<Rightarrow> hash list) \<Rightarrow> TransactionDetails list \<Rightarrow> bool" where
  "index_ok m f txs \<longleftrightarrow> no_empty m \<and> (\<forall>k. ids_at m k = td_id ` {t \<in> set txs. k \<in> set (f (td_tx t))})"

definition conflict :: "(bytes \<Rightarrow> hash) \<Rightarrow> Transaction \<Rightarrow> Transaction \<Rightarrow> bool" where
  "conflict sha3 a b \<longleftrightarrow> set (spend_images sha3 a) \<inter> set (spend_images sha3 b) \<noteq> {} \<or>
     set (account_keys sha3 a) \<inter> set (account_keys sha3 b) \<noteq> {}"

definition free_count :: "TransactionDetails list \<Rightarrow> nat" where
  "free_count txs = length (filter (\<lambda>t. is_free_reg (td_tx t)) txs)"

definition pool_ok :: "(bytes \<Rightarrow> hash) \<Rightarrow> tx_memory_pool \<Rightarrow> bool" where
  "pool_ok sha3 pool \<longleftrightarrow>
     (let txs = m_transactions pool in
      distinct (map td_id txs) \<and> length txs < 2 ^ 64 \<and>
      index_ok (m_spent_key_images pool) (spend_images sha3) txs \<and>
      index_ok (m_pq_account_registrations pool) (account_keys sha3) txs \<and>
      m_freeRegPoolCount pool = of_nat (free_count txs) \<and>
      (\<forall>t \<in> set txs. distinct (spend_images sha3 (td_tx t))) \<and>
      (\<forall>t \<in> set txs. \<forall>u \<in> set txs. td_id t \<noteq> td_id u \<and> conflict sha3 (td_tx t) (td_tx u) \<longrightarrow> keptByBlock t \<or> keptByBlock u))"

lemma distinct_account_keys [simp]: "distinct (account_keys sha3 tx)"
  by (simp add: account_keys_def split: option.splits)

lemma addTransactionInputs_keys:
  "addTransactionInputs sha3 txid tx kept pool =
     (case add_keys kept txid (spend_images sha3 tx) (m_spent_key_images pool) of
        (False, m) \<Rightarrow> (False, pool\<lparr>m_spent_key_images := m\<rparr>)
      | (True, m) \<Rightarrow>
          let pool1 = pool\<lparr>m_spent_key_images := m\<rparr>;
              (ok, regs) = add_keys kept txid (account_keys sha3 tx) (m_pq_account_registrations pool1);
              pool2 = pool1\<lparr>m_pq_account_registrations := regs\<rparr>
          in if \<not> ok then (False, pool2)
             else (True, if is_free_reg tx then pool2\<lparr>m_freeRegPoolCount := m_freeRegPoolCount pool2 + 1\<rparr> else pool2))"
  unfolding addTransactionInputs_def add_images_keys spend_images_def account_keys_def
  by (auto simp: Let_def split: prod.splits bool.splits option.splits)

lemma removeTransactionInputs_keys:
  "removeTransactionInputs sha3 txid tx pool =
     (case remove_keys txid (spend_images sha3 tx) (m_spent_key_images pool) of
        (False, m) \<Rightarrow> (False, pool\<lparr>m_spent_key_images := m\<rparr>)
      | (True, m) \<Rightarrow>
          let pool1 = pool\<lparr>m_spent_key_images := m\<rparr>;
              (ok, regs) = remove_keys txid (account_keys sha3 tx) (m_pq_account_registrations pool1);
              pool2 = pool1\<lparr>m_pq_account_registrations := regs\<rparr>
          in if \<not> ok then (False, pool2)
             else (True, if is_free_reg tx \<and> 0 < m_freeRegPoolCount pool2
                         then pool2\<lparr>m_freeRegPoolCount := m_freeRegPoolCount pool2 - 1\<rparr> else pool2))"
  unfolding removeTransactionInputs_def remove_images_keys spend_images_def account_keys_def
  by (auto simp: Let_def split: prod.splits bool.splits option.splits)

lemma have_tx_iff: "have_tx pool txid \<longleftrightarrow> txid \<in> td_id ` set (m_transactions pool)"
  by (auto simp: have_tx_def find_tx_def find_None_iff)

lemma haveSpentInputs_iff:
  "haveSpentInputs sha3 pool tx \<longleftrightarrow> (\<exists>k \<in> set (spend_images sha3 tx). m_spent_key_images pool k \<noteq> None)"
proof -
  have "(\<exists>i \<in> set is. case i of InPq p \<Rightarrow> m_spent_key_images pool (pqInputNullifierAsKeyImage sha3 p) \<noteq> None | InBase _ \<Rightarrow> False) \<longleftrightarrow>
     (\<exists>k \<in> set (List.map_filter (spendImageForInput sha3) is). m_spent_key_images pool k \<noteq> None)" for "is"
    by (induction "is") (auto simp: map_filter_def spendImageForInput_def split: TransactionInput.splits)
  then show ?thesis by (simp add: haveSpentInputs_def spend_images_def)
qed

lemma havePqAccountRegistration_iff:
  "havePqAccountRegistration sha3 pool tx \<longleftrightarrow> (\<exists>k \<in> set (account_keys sha3 tx). m_pq_account_registrations pool k \<noteq> None)"
  by (simp add: havePqAccountRegistration_def account_keys_def split: option.splits)

lemma index_add:
  assumes ok: "index_ok m f txs" and new: "td_id t \<notin> td_id ` set txs" and d: "distinct (f (td_tx t))"
    and free: "kept \<or> (\<forall>k \<in> set (f (td_tx t)). m k = None)"
  shows "\<exists>m'. add_keys kept (td_id t) (f (td_tx t)) m = (True, m') \<and> index_ok m' f (txs @ [t])"
proof -
  have "\<forall>k \<in> set (f (td_tx t)). (kept \<or> m k = None) \<and> td_id t \<notin> ids_at m k"
    using ok new free by (auto simp: index_ok_def)
  then obtain m' where "add_keys kept (td_id t) (f (td_tx t)) m = (True, m')" "no_empty m'"
    "\<forall>j. ids_at m' j = (if j \<in> set (f (td_tx t)) then insert (td_id t) (ids_at m j) else ids_at m j)"
    using add_keys_ok [of m "f (td_tx t)" kept "td_id t"] ok d by (auto simp: index_ok_def)
  then show ?thesis using ok by (auto simp: index_ok_def)
qed

lemma index_remove:
  assumes ok: "index_ok m f txs" and t: "t \<in> set txs" and ids: "distinct (map td_id txs)" and d: "distinct (f (td_tx t))"
  shows "\<exists>m'. remove_keys (td_id t) (f (td_tx t)) m = (True, m') \<and> index_ok m' f (filter (\<lambda>u. td_id u \<noteq> td_id t) txs)"
proof -
  have "\<forall>k \<in> set (f (td_tx t)). td_id t \<in> ids_at m k" using ok t by (auto simp: index_ok_def)
  then obtain m' where m': "remove_keys (td_id t) (f (td_tx t)) m = (True, m')" "no_empty m'"
    "\<forall>j. ids_at m' j = (if j \<in> set (f (td_tx t)) then ids_at m j - {td_id t} else ids_at m j)"
    using remove_keys_ok [of m "f (td_tx t)" "td_id t"] ok d by (auto simp: index_ok_def)
  have u: "u = t" if "u \<in> set txs" "td_id u = td_id t" for u
    using ids that t by (auto simp: distinct_map inj_on_def)
  have "ids_at m' k = td_id ` {x \<in> set (filter (\<lambda>u. td_id u \<noteq> td_id t) txs). k \<in> set (f (td_tx x))}" for k
    using m'(3) ok u by (auto simp: index_ok_def)
  then show ?thesis using m' by (auto simp: index_ok_def)
qed

lemma free_count_simps:
  "free_count (txs @ [t]) = free_count txs + (if is_free_reg (td_tx t) then 1 else 0)"
  "free_count txs \<le> length txs"
  by (simp_all add: free_count_def)

lemma free_count_remove:
  assumes "distinct (map td_id txs)" and "t \<in> set txs"
  shows "free_count txs = free_count (filter (\<lambda>u. td_id u \<noteq> td_id t) txs) + (if is_free_reg (td_tx t) then 1 else 0)"
  using assms
proof (induction txs)
  case (Cons u txs)
  show ?case
  proof (cases "u = t")
    case True
    then have "filter (\<lambda>u. td_id u \<noteq> td_id t) txs = txs" using Cons.prems(1) by (auto simp: filter_id_conv image_iff dest: sym)
    then show ?thesis using True by (simp add: free_count_def)
  next
    case False
    then have "t \<in> set txs" "td_id u \<noteq> td_id t" using Cons.prems by auto
    then show ?thesis using Cons by (simp add: free_count_def)
  qed
qed simp

lemma insert_tx_ok:
  assumes ok: "pool_ok (sha3_256 (ev_pq E)) pool" and new: "\<not> have_tx pool txid" and len: "Suc (length (m_transactions pool)) < 2 ^ 64"
    and d: "distinct (spend_images (sha3_256 (ev_pq E)) tx)"
    and free: "kept \<or> \<not> haveSpentInputs (sha3_256 (ev_pq E)) pool tx \<and> \<not> havePqAccountRegistration (sha3_256 (ev_pq E)) pool tx"
  shows "\<exists>tvc' pool' t. insert_tx E now tx txid sz fee used kept valid tvc pool = (True, tvc', pool') \<and>
     pool_ok (sha3_256 (ev_pq E)) pool' \<and> m_transactions pool' = m_transactions pool @ [t] \<and> td_id t = txid \<and> td_tx t = tx \<and>
     td_fee t = fee \<and> keptByBlock t = kept \<and> m_validated_transactions pool' = m_validated_transactions pool"
proof -
  let ?s = "sha3_256 (ev_pq E)" and ?txs = "m_transactions pool"
  define t where "t = \<lparr>maxUsedBlock = used, lastFailedBlock = clear_info, td_id = txid, td_tx = tx, blobSize = sz,
                 td_fee = fee, keptByBlock = kept, receiveTime = now\<rparr>"
  have t: "td_id t = txid" "td_tx t = tx" "td_fee t = fee" "keptByBlock t = kept" by (simp_all add: t_def)
  have inv: "index_ok (m_spent_key_images pool) (spend_images ?s) ?txs" "index_ok (m_pq_account_registrations pool) (account_keys ?s) ?txs"
    using ok by (simp_all add: pool_ok_def Let_def)
  have n: "td_id t \<notin> td_id ` set ?txs" using new by (simp add: have_tx_iff t)
  obtain m1 where m1: "add_keys kept txid (spend_images ?s tx) (m_spent_key_images pool) = (True, m1)" "index_ok m1 (spend_images ?s) (?txs @ [t])"
    using index_add [OF inv(1) n, of kept] d free by (auto simp: t haveSpentInputs_iff)
  obtain m2 where m2: "add_keys kept txid (account_keys ?s tx) (m_pq_account_registrations pool) = (True, m2)" "index_ok m2 (account_keys ?s) (?txs @ [t])"
    using index_add [OF inv(2) n, of kept] free by (auto simp: t havePqAccountRegistration_iff)
  have apart: "\<not> conflict ?s tx (td_tx u)" if "u \<in> set ?txs" "\<not> kept" for u
    using free that inv absent_iff unfolding conflict_def haveSpentInputs_iff havePqAccountRegistration_iff index_ok_def by fastforce
  define pool' where "pool' = pool\<lparr>m_transactions := ?txs @ [t],
      m_paymentIdIndex := PaymentIdIndex_add (pw_fast_hash (ev_pow E)) tx (m_paymentIdIndex pool),
      m_timestampIndex := TimestampIndex_add now txid (m_timestampIndex pool), m_spent_key_images := m1, m_pq_account_registrations := m2,
      m_freeRegPoolCount := (if is_free_reg tx then m_freeRegPoolCount pool + 1 else m_freeRegPoolCount pool)\<rparr>"
  have run: "\<exists>tvc'. insert_tx E now tx txid sz fee used kept valid tvc pool = (True, tvc', pool')"
    using new m1(1) m2(1) by (simp add: insert_tx_def addTransactionInputs_keys pool'_def Let_def t_def)
  have "\<forall>a \<in> set (?txs @ [t]). \<forall>b \<in> set (?txs @ [t]). td_id a \<noteq> td_id b \<and> conflict ?s (td_tx a) (td_tx b) \<longrightarrow> keptByBlock a \<or> keptByBlock b"
    using ok apart t by (auto simp: pool_ok_def Let_def conflict_def)
  then have "pool_ok ?s pool'"
    using ok n d m1(2) m2(2) len by (simp add: pool_ok_def Let_def pool'_def t free_count_simps)
  then show ?thesis using run t by (auto simp: pool'_def)
qed

lemma removeTransaction_ok:
  assumes ok: "pool_ok (sha3_256 (ev_pq E)) pool" and t: "t \<in> set (m_transactions pool)"
  shows "pool_ok (sha3_256 (ev_pq E)) (removeTransaction E t pool)"
    and "m_transactions (removeTransaction E t pool) = filter (\<lambda>u. td_id u \<noteq> td_id t) (m_transactions pool)"
proof -
  let ?s = "sha3_256 (ev_pq E)" and ?txs = "m_transactions pool"
  let ?rest = "filter (\<lambda>u. td_id u \<noteq> td_id t) ?txs"
  have inv: "index_ok (m_spent_key_images pool) (spend_images ?s) ?txs" "index_ok (m_pq_account_registrations pool) (account_keys ?s) ?txs"
    "distinct (map td_id ?txs)" "distinct (spend_images ?s (td_tx t))" "length ?txs < 2 ^ 64" "m_freeRegPoolCount pool = of_nat (free_count ?txs)"
    using ok t by (simp_all add: pool_ok_def Let_def)
  obtain m1 where m1: "remove_keys (td_id t) (spend_images ?s (td_tx t)) (m_spent_key_images pool) = (True, m1)" "index_ok m1 (spend_images ?s) ?rest"
    using index_remove [OF inv(1) t inv(3,4)] by auto
  obtain m2 where m2: "remove_keys (td_id t) (account_keys ?s (td_tx t)) (m_pq_account_registrations pool) = (True, m2)" "index_ok m2 (account_keys ?s) ?rest"
    using index_remove [OF inv(2) t inv(3)] by auto
  define count where "count = (if is_free_reg (td_tx t) \<and> 0 < m_freeRegPoolCount pool then m_freeRegPoolCount pool - 1 else m_freeRegPoolCount pool)"
  have small: "free_count ?txs < 2 ^ 64" using free_count_simps(2) inv(5) by (rule le_less_trans)
  have "count = of_nat (free_count ?rest)"
  proof (cases "is_free_reg (td_tx t)")
    case True
    then have c: "free_count ?txs = Suc (free_count ?rest)" using free_count_remove [OF inv(3) t] by simp
    have "unat (of_nat (Suc (free_count ?rest)) :: u64) \<noteq> 0" using small unfolding c by (subst unat_of_nat_u64) simp_all
    then have "0 < m_freeRegPoolCount pool" unfolding inv(6) c by (metis unat_0 word_gt_0)
    then show ?thesis using True by (simp add: count_def inv(6) c)
  qed (use free_count_remove [OF inv(3) t] inv(6) in \<open>simp add: count_def\<close>)
  moreover have eq: "removeTransaction E t pool = pool\<lparr>m_spent_key_images := m1, m_pq_account_registrations := m2, m_freeRegPoolCount := count,
      m_paymentIdIndex := PaymentIdIndex_remove (pw_fast_hash (ev_pow E)) (td_tx t) (m_paymentIdIndex pool),
      m_timestampIndex := TimestampIndex_remove (receiveTime t) (td_id t) (m_timestampIndex pool),
      m_validated_transactions := removeAll (td_id t) (m_validated_transactions pool), m_transactions := ?rest\<rparr>"
    using m1(1) m2(1) by (auto simp: removeTransaction_def removeTransactionInputs_keys Let_def count_def)
  moreover have "length ?rest < 2 ^ 64" using inv(5) by (meson length_filter_le le_less_trans)
  ultimately show "pool_ok ?s (removeTransaction E t pool)"
    using ok m1(2) m2(2) by (auto simp: pool_ok_def Let_def distinct_map_filter)
  show "m_transactions (removeTransaction E t pool) = ?rest" by (simp add: eq)
qed

lemma inputs_keep:
  "checkTransactionInputs E tx h b = (r, b') \<Longrightarrow> m_db b' = m_db b \<and> m_currency b' = m_currency b \<and>
     m_current_block_cumul_sz_limit b' = m_current_block_cumul_sz_limit b"
  by (auto simp: checkTransactionInputs_def checkFreeRegInputs_def rememberBadFreeRegProof_def rememberGoodFreeRegProof_def Let_def
      split: option.splits sum.splits prod.splits if_splits)

lemma info_keep:
  "checkInputs_info E tx i b = (r, i', b') \<Longrightarrow> m_db b' = m_db b \<and> m_currency b' = m_currency b \<and>
     m_current_block_cumul_sz_limit b' = m_current_block_cumul_sz_limit b"
  by (auto simp: checkInputs_info_def Let_def split: prod.splits if_splits dest: inputs_keep)

text \<open>The outcome of \<open>add_tx\<close>: nothing changes, or the insertion runs under its precondition.\<close>

lemma add_tx_cases:
  assumes "add_tx E now tx txid sz tvc kept pool bc = (r, tvc', pool', bc')"
  obtains "pool' = pool" "\<not> r \<or> \<not> kept"
  | fee used valid tvc1 where "insert_tx E now tx txid sz fee used kept valid tvc1 pool = (r, tvc', pool')"
    "kept \<or> valid \<and> \<not> haveSpentInputs (sha3_256 (ev_pq E)) pool tx \<and> \<not> havePqAccountRegistration (sha3_256 (ev_pq E)) pool tx"
    "check_inputs_types_supported tx"
    "valid = fst (checkInputs_info E tx clear_info bc)"
    "fee = (if valid \<and> TRANSACTION_VERSION_1 \<le> version tx \<and> isPqTransfer (txType tx)
            then the (getPqTransactionFee (snd (snd (checkInputs_info E tx clear_info bc))) tx)
            else if TRANSACTION_VERSION_1 \<le> version tx \<and> isPqTransfer (txType tx) then 0
            else snd (get_inputs_money_amount tx) - get_outs_money_amount tx)"
proof -
  obtain v u b where c: "checkInputs_info E tx clear_info bc = (v, u, b)" by (metis prod_cases3)
  show thesis
    using assms that unfolding add_tx_def Let_def c
    by (auto split: if_splits prod.splits)
qed

text \<open>A transaction whose inputs check out spends no nullifier twice.\<close>

lemma valid_distinct:
  assumes "fst (checkInputs_info E tx info bc)" and ty: "check_inputs_types_supported tx"
  shows "distinct (spend_images (sha3_256 (ev_pq E)) tx)"
proof (cases "TRANSACTION_VERSION_1 \<le> version tx \<and> isPqTransfer (txType tx)")
  case True
  have "fst (checkTransactionInputs E tx AT_TIP bc) \<noteq> None"
    using assms(1) by (auto simp: checkInputs_info_def Let_def split: prod.splits if_splits)
  then obtain mh where "checkPqInputs (ev_pq E) bc tx = Some mh"
    using True by (auto simp: checkTransactionInputs_def Let_def split: if_splits)
  then obtain ps nfs where ps: "inputs tx = map InPq ps"
    and chk: "checkPqTransactionInputs (ev_pq E) tx (map (resolved_of bc) ps) MINIMUM_FEE
           (pqSigningContextForHeight (getCurrentBlockchainHeight bc) (m_genesisBlockHash (m_currency bc))) = Inr nfs"
    by (rule checkPqInputs_Some)
  then have "distinct (map (pqNullifier (sha3_256 (ev_pq E))) ps)"
    using spend_all [of "map (resolved_of bc) ps" ps] unfolding check_inputs_stages by auto
  moreover have "spend_images (sha3_256 (ev_pq E)) tx = map (pqNullifier (sha3_256 (ev_pq E))) ps"
    by (simp add: spend_images_def ps spendImageForInput_def map_filter_def comp_def pqInputNullifierAsKeyImage_def)
  ultimately show ?thesis by simp
next
  case False
  then have "List.map_filter (spendImageForInput sha3) is = []"
    if "list_all (\<lambda>i. case i of InPq _ \<Rightarrow> False | InBase _ \<Rightarrow> True) is" for sha3 "is"
    using that by (induction "is") (auto simp: map_filter_simps spendImageForInput_def split: TransactionInput.splits)
  then show ?thesis using ty False by (simp add: check_inputs_types_supported_def spend_images_def)
qed

lemma add_tx_ok:
  assumes ok: "pool_ok (sha3_256 (ev_pq E)) pool" and d: "kept \<longrightarrow> distinct (spend_images (sha3_256 (ev_pq E)) tx)"
    and len: "Suc (length (m_transactions pool)) < 2 ^ 64" and add: "add_tx E now tx txid sz tvc kept pool bc = (r, tvc', pool', bc')"
  shows "pool_ok (sha3_256 (ev_pq E)) pool' \<and> (pool' = pool \<or> r \<and> (\<exists>t. m_transactions pool' = m_transactions pool @ [t] \<and> td_id t = txid \<and> td_tx t = tx))"
  using add
proof (cases rule: add_tx_cases)
  case (2 fee used valid tvc1)
  show ?thesis
  proof (cases "have_tx pool txid")
    case True
    then show ?thesis using 2(1) ok by (simp add: insert_tx_def)
  next
    case False
    have "distinct (spend_images (sha3_256 (ev_pq E)) tx)" using d 2(2,3,4) valid_distinct by blast
    then show ?thesis using insert_tx_ok [OF ok False len, of tx kept now sz fee used valid tvc1] 2(1,2) by auto
  qed
qed (use ok in simp)

text \<open>A transfer that passes the checks is inserted; the fee is the one the chain's outputs give.\<close>

lemma valid_fee:
  assumes "fst (checkInputs_info E tx info bc)" and "isPqTransfer (txType tx)"
  obtains ps fee where "getPqTransactionFee bc tx = Some fee" and "inputs tx = map InPq ps"
    and "(\<Sum>p \<leftarrow> ps. unat (referenced_amount (db_tables bc) p)) = out_total (outputs tx) + unat fee"
proof -
  have "fst (checkTransactionInputs E tx AT_TIP bc) \<noteq> None"
    using assms(1) by (auto simp: checkInputs_info_def Let_def split: prod.splits if_splits)
  then obtain mh where "checkPqInputs (ev_pq E) bc tx = Some mh"
    using assms(2) by (auto simp: checkTransactionInputs_def Let_def split: if_splits)
  then show thesis by (rule accepted_transfer) (use that in blast)
qed

lemma add_tx_inserts:
  assumes pq: "TRANSACTION_VERSION_1 \<le> version tx" "isPqTransfer (txType tx)" and ty: "check_inputs_types_supported tx"
    and adm: "kept \<or> fst (checkInputs_info E tx clear_info bc) \<and> \<not> haveSpentInputs (sha3_256 (ev_pq E)) pool tx \<and>
       \<not> havePqAccountRegistration (sha3_256 (ev_pq E)) pool tx \<and> checkTransactionSize bc sz \<and> m_recentlyDeletedTransactions pool txid = None"
    and fee: "fee = (if fst (checkInputs_info E tx clear_info bc) then the (getPqTransactionFee bc tx) else 0)"
  shows "\<exists>used tvc1 bc'. add_tx E now tx txid sz tvc kept pool bc =
     (case insert_tx E now tx txid sz fee used kept (fst (checkInputs_info E tx clear_info bc)) tvc1 pool of
        (r, tvc', pool') \<Rightarrow> (r, tvc', pool', bc'))"
proof -
  obtain v u b where c: "checkInputs_info E tx clear_info bc = (v, u, b)" by (metis prod_cases3)
  have k: "m_db b = m_db bc" "m_currency b = m_currency bc" "m_current_block_cumul_sz_limit b = m_current_block_cumul_sz_limit bc"
    using info_keep [OF c] by simp_all
  have sz: "checkTransactionSize b sz = checkTransactionSize bc sz" by (simp add: checkTransactionSize_def k)
  have fe: "getPqTransactionFee b tx = getPqTransactionFee bc tx"
    unfolding getPqTransactionFee_def pqReferencedInputAmount_def k(1) by simp
  have so: "v \<longrightarrow> getPqTransactionFee bc tx \<noteq> None"
    using valid_fee [of E tx clear_info bc] pq(2) c by (metis fst_conv option.distinct(1))
  have nf: "\<not> is_free_reg tx" using pq(2) by (auto simp: is_free_reg_def isPqTransfer_def TX_FREE_REG_def TX_PQ_def TX_PQ_V2_def)
  show ?thesis
  proof (intro exI)
    show "add_tx E now tx txid sz tvc kept pool bc =
      (case insert_tx E now tx txid sz fee (if v then u else clear_info) kept (fst (checkInputs_info E tx clear_info bc))
          (if v then tvc else tvc\<lparr>m_verifivation_impossible := True\<rparr>) pool of
        (r, tvc', pool') \<Rightarrow> (r, tvc', pool', b))"
      using adm so ty pq nf by (cases v) (auto simp: add_tx_def c fee sz fe Let_def get_inputs_money_amount_def)
  qed
qed

lemma remove_some_ok:
  assumes "pool_ok (sha3_256 (ev_pq E)) pool" and "distinct (map td_id ts)" and "set ts \<subseteq> set (m_transactions pool)"
    and "\<And>p t. g t p = (if P t then removeTransaction E t (h t p) else p)"
    and "\<And>p t. m_transactions (h t p) = m_transactions p \<and> (pool_ok (sha3_256 (ev_pq E)) p \<longrightarrow> pool_ok (sha3_256 (ev_pq E)) (h t p))"
  shows "pool_ok (sha3_256 (ev_pq E)) (fold g ts pool)"
  using assms(1-3)
proof (induction ts arbitrary: pool)
  case (Cons t ts)
  show ?case
  proof (cases "P t")
    case True
    have p: "pool_ok (sha3_256 (ev_pq E)) (h t pool)" "t \<in> set (m_transactions (h t pool))" using Cons.prems assms(5) by auto
    note r = removeTransaction_ok [OF p]
    have "set ts \<subseteq> set (m_transactions (removeTransaction E t (h t pool)))" using Cons.prems assms(5) unfolding r(2) by (auto simp: image_iff)
    then have "pool_ok (sha3_256 (ev_pq E)) (fold g ts (removeTransaction E t (h t pool)))" using Cons.IH [OF r(1)] Cons.prems(2) by simp
    moreover have "g t pool = removeTransaction E t (h t pool)" using True assms(4) by metis
    ultimately show ?thesis by simp
  next
    case False
    then have "g t pool = pool" using assms(4) by metis
    then show ?thesis using Cons by simp
  qed
qed simp

lemma removeExpired_ok:
  "pool_ok (sha3_256 (ev_pq E)) pool \<Longrightarrow> pool_ok (sha3_256 (ev_pq E)) (removeExpiredTransactions E c now pool)"
  unfolding removeExpiredTransactions_def Let_def
  by (rule remove_some_ok [where h = "\<lambda>txd p. p\<lparr>m_recentlyDeletedTransactions := (case m_recentlyDeletedTransactions p (td_id txd) of
        Some _ \<Rightarrow> m_recentlyDeletedTransactions p | None \<Rightarrow> (m_recentlyDeletedTransactions p)(td_id txd \<mapsto> now))\<rparr>"
      and P = "\<lambda>txd. (if keptByBlock txd then m_mempoolTxFromAltBlockLiveTime c else m_mempoolTxLiveTime c) < now - receiveTime txd"])
    (auto simp: pool_ok_def Let_def)

lemma removeStale_ok:
  "pool_ok (sha3_256 (ev_pq E)) pool \<Longrightarrow> pool_ok (sha3_256 (ev_pq E)) (removeStaleAccountRegistrations E bc pool)"
  unfolding removeStaleAccountRegistrations_def
  by (rule remove_some_ok [where h = "\<lambda>t p. p" and P = "\<lambda>t. isAccountAlreadyRegisteredOnChain (sha3_256 (ev_pq E)) bc (td_tx t)"])
    (auto simp: pool_ok_def Let_def)

lemma pool_ok_update [simp]:
  "pool_ok sha3 (pool\<lparr>m_lastWorkedTime := x\<rparr>) = pool_ok sha3 pool"
  "pool_ok sha3 (pool\<lparr>m_validated_transactions := v\<rparr>) = pool_ok sha3 pool"
  by (simp_all add: pool_ok_def Let_def)

lemma on_idle_ok: "pool_ok (sha3_256 (ev_pq E)) pool \<Longrightarrow> pool_ok (sha3_256 (ev_pq E)) (pool_on_idle E now bc pool)"
  by (simp add: pool_on_idle_def removeStale_ok removeExpired_ok)

lemma take_tx_ok: "pool_ok (sha3_256 (ev_pq E)) pool \<Longrightarrow> pool_ok (sha3_256 (ev_pq E)) (snd (take_tx E txid pool))"
  by (auto simp: take_tx_def find_tx_def find_Some_iff intro!: removeTransaction_ok(1) split: option.splits)

text \<open>Operations that change neither the entries nor the indexes.\<close>

definition core :: "TransactionDetails \<Rightarrow> hash \<times> Transaction \<times> u64 \<times> u64 \<times> bool \<times> u64" where
  "core t = (td_id t, td_tx t, blobSize t, td_fee t, keptByBlock t, receiveTime t)"

definition same_pool :: "tx_memory_pool \<Rightarrow> tx_memory_pool \<Rightarrow> bool" where
  "same_pool p q \<longleftrightarrow> map core (m_transactions q) = map core (m_transactions p) \<and> m_spent_key_images q = m_spent_key_images p \<and>
     m_pq_account_registrations q = m_pq_account_registrations p \<and> m_freeRegPoolCount q = m_freeRegPoolCount p"

lemma same_pool_trans: "same_pool p q \<Longrightarrow> same_pool q r \<Longrightarrow> same_pool p r" and same_pool_refl [simp]: "same_pool p p"
  by (simp_all add: same_pool_def)

lemma core_inj: "core t = core u \<Longrightarrow> td_id t = td_id u \<and> td_tx t = td_tx u \<and> keptByBlock t = keptByBlock u"
  by (simp add: core_def)

lemma core_transfer:
  assumes "map core ts = map core us" and "\<And>t u. core t = core u \<Longrightarrow> P t = P u" and "\<forall>t \<in> set ts. P t"
  shows "\<forall>u \<in> set us. P u"
proof
  fix u assume "u \<in> set us"
  then have "core u \<in> set (map core us)" by simp
  then have "core u \<in> set (map core ts)" by (simp only: assms(1))
  then obtain t where "t \<in> set ts" "core t = core u" by auto
  then show "P u" using assms(2,3) by blast
qed

lemma core_images:
  assumes "map core ts = map core us"
  shows "td_id ` {t \<in> set ts. Q (td_tx t)} = td_id ` {t \<in> set us. Q (td_tx t)}"
proof -
  have "td_id ` {t \<in> set xs. Q (td_tx t)} = fst ` {c \<in> set (map core xs). Q (fst (snd c))}" for xs
    by (force simp: core_def)
  then show ?thesis by (simp only: assms)
qed

lemma core_index: "map core ts = map core us \<Longrightarrow> index_ok m f ts = index_ok m f us"
  by (simp add: index_ok_def core_images [of ts us "\<lambda>tx. k \<in> set (f tx)" for k])

lemma core_lists:
  assumes "map core ts = map core us"
  shows "map td_id ts = map td_id us" "free_count ts = free_count us" "length ts = length us"
proof -
  have "map td_id xs = map fst (map core xs)" for xs by (simp add: core_def comp_def)
  then show "map td_id ts = map td_id us" by (simp only: assms)
  have "free_count xs = length (filter (\<lambda>c. is_free_reg (fst (snd c))) (map core xs))" for xs
    by (simp add: free_count_def core_def filter_map comp_def)
  then show "free_count ts = free_count us" by (simp only: assms)
  show "length ts = length us" using map_eq_imp_length_eq [OF assms] .
qed

lemma same_pool_ok:
  assumes "same_pool p q" and "pool_ok sha3 p"
  shows "pool_ok sha3 q"
proof -
  have c: "map core (m_transactions p) = map core (m_transactions q)" using assms(1) by (simp add: same_pool_def)
  have "\<forall>t \<in> set (m_transactions q). distinct (spend_images sha3 (td_tx t))"
    by (rule core_transfer [OF c]) (use assms(2) in \<open>auto simp: pool_ok_def Let_def dest: core_inj\<close>)
  moreover have "\<forall>t \<in> set (m_transactions q). \<forall>u \<in> set (m_transactions q).
      td_id t \<noteq> td_id u \<and> conflict sha3 (td_tx t) (td_tx u) \<longrightarrow> keptByBlock t \<or> keptByBlock u"
  proof (rule core_transfer [OF c])
    fix t u assume "core t = core u"
    then show "(\<forall>x \<in> set (m_transactions q). td_id t \<noteq> td_id x \<and> conflict sha3 (td_tx t) (td_tx x) \<longrightarrow> keptByBlock t \<or> keptByBlock x) =
        (\<forall>x \<in> set (m_transactions q). td_id u \<noteq> td_id x \<and> conflict sha3 (td_tx u) (td_tx x) \<longrightarrow> keptByBlock u \<or> keptByBlock x)"
      by (auto dest: core_inj)
  next
    show "\<forall>t \<in> set (m_transactions p). \<forall>u \<in> set (m_transactions q).
      td_id t \<noteq> td_id u \<and> conflict sha3 (td_tx t) (td_tx u) \<longrightarrow> keptByBlock t \<or> keptByBlock u"
    proof
      fix t assume t: "t \<in> set (m_transactions p)"
      show "\<forall>u \<in> set (m_transactions q). td_id t \<noteq> td_id u \<and> conflict sha3 (td_tx t) (td_tx u) \<longrightarrow> keptByBlock t \<or> keptByBlock u"
        by (rule core_transfer [OF c]) (use assms(2) t in \<open>auto simp: pool_ok_def Let_def dest: core_inj\<close>)
    qed
  qed
  ultimately show ?thesis
    using assms core_lists [OF c] core_index [OF c] by (simp add: pool_ok_def Let_def same_pool_def)
qed

lemma update_info_same: "same_pool pool (update_info txid m l pool)"
  by (simp add: same_pool_def update_info_def core_def comp_def cong: map_cong)

lemma fill_step_same: "same_pool (ts_pool st) (ts_pool (fill_step E median limit txd st))"
proof -
  have v: "same_pool p (p\<lparr>m_validated_transactions := v\<rparr>)" for p v by (simp add: same_pool_def)
  show ?thesis
    unfolding fill_step_def Let_def
    by (auto split: prod.splits bool.splits intro: update_info_same same_pool_trans [OF v update_info_same])
qed

lemma fill_ok:
  assumes "pool_ok sha3 pool"
  shows "pool_ok sha3 (ts_pool (fill_block_template E median maxSize pool bc))"
proof -
  have f: "same_pool (ts_pool st) (ts_pool (fold (fill_step E median limit) ts st))" for limit ts st
    by (induction ts arbitrary: st) (auto intro: same_pool_trans fill_step_same)
  show ?thesis unfolding fill_block_template_def by (rule same_pool_ok [OF f]) (simp add: assms)
qed

lemma difference_ok:
  assumes "pool_ok sha3 pool" and "get_difference E known pool bc = (new, gone, pool', bc')"
  shows "pool_ok sha3 pool'"
proof -
  have step: "same_pool (fst (snd st)) (fst (snd (ready_step E t st)))" for st t
    by (auto simp: ready_step_def same_pool_def split: prod.splits bool.splits)
  have f: "same_pool (fst (snd st)) (fst (snd (fold (ready_step E) ts st)))" for ts st
  proof (induction ts arbitrary: st)
    case (Cons t ts)
    show ?case using same_pool_trans [OF step Cons.IH] by simp
  qed simp
  have "same_pool pool (fst (snd (fold (ready_step E) (m_transactions pool) ([], pool, bc))))" using f [of "([], pool, bc)"] by simp
  moreover have "pool' = fst (snd (fold (ready_step E) (m_transactions pool) ([], pool, bc)))"
    using assms(2) by (auto simp: get_difference_def split: prod.splits)
  ultimately show ?thesis using same_pool_ok assms(1) by simp
qed

text \<open>Every state the operations reach from an empty pool, on any chain at any time.\<close>

definition empty_pool :: tx_memory_pool where
  "empty_pool = \<lparr>m_transactions = [], m_spent_key_images = (\<lambda>_. None), m_pq_account_registrations = (\<lambda>_. None), m_freeRegPoolCount = 0,
     m_recentlyDeletedTransactions = (\<lambda>_. None), m_validated_transactions = [], m_paymentIdIndex = [], m_timestampIndex = [],
     m_lastWorkedTime = 0\<rparr>"

inductive pool_reach :: "('s, 'k) node_env \<Rightarrow> tx_memory_pool \<Rightarrow> bool" for E :: "('s, 'k) node_env" where
  pool_start: "pool_reach E empty_pool"
| pool_add: "\<lbrakk>pool_reach E pool; add_tx E now tx txid sz tvc kept pool bc = (r, tvc', pool', bc');
     kept \<longrightarrow> distinct (spend_images (sha3_256 (ev_pq E)) tx); Suc (length (m_transactions pool)) < 2 ^ 64\<rbrakk> \<Longrightarrow> pool_reach E pool'"
| pool_take: "pool_reach E pool \<Longrightarrow> pool_reach E (snd (take_tx E txid pool))"
| pool_idle: "pool_reach E pool \<Longrightarrow> pool_reach E (pool_on_idle E now bc pool)"
| pool_fill: "pool_reach E pool \<Longrightarrow> pool_reach E (ts_pool (fill_block_template E median maxSize pool bc))"
| pool_difference: "\<lbrakk>pool_reach E pool; get_difference E known pool bc = (new, gone, pool', bc')\<rbrakk> \<Longrightarrow> pool_reach E pool'"
| pool_inc: "pool_reach E pool \<Longrightarrow> pool_reach E (on_blockchain_inc pool)"
| pool_dec: "pool_reach E pool \<Longrightarrow> pool_reach E (on_blockchain_dec pool)"

lemma empty_pool_ok: "pool_ok sha3 empty_pool"
  by (simp add: pool_ok_def empty_pool_def index_ok_def no_empty_def ids_at_def free_count_def)

lemma reach_ok: "pool_reach E pool \<Longrightarrow> pool_ok (sha3_256 (ev_pq E)) pool"
proof (induction rule: pool_reach.induct)
  case (pool_add pool now tx txid sz tvc kept bc r tvc' pool' bc')
  then show ?case using add_tx_ok [OF pool_add.IH] by blast
qed (auto simp: empty_pool_ok take_tx_ok on_idle_ok fill_ok on_blockchain_inc_def on_blockchain_dec_def intro: difference_ok)

section \<open>The order of the fee index\<close>

text \<open>The entries of the index by their key: price, then size, then age.\<close>

lemma priority_before_nat:
  "priority_before l r \<longleftrightarrow>
     unat (td_fee r) * unat (blobSize l) < unat (td_fee l) * unat (blobSize r) \<or>
     unat (td_fee r) * unat (blobSize l) = unat (td_fee l) * unat (blobSize r) \<and>
       (blobSize l < blobSize r \<or> blobSize l = blobSize r \<and> sint (receiveTime l) < sint (receiveTime r))"
proof -
  obtain a b where ab: "mul128 (td_fee l) (blobSize r) = (a, b)" by fastforce
  obtain c d where cd: "mul128 (td_fee r) (blobSize l) = (c, d)" by fastforce
  have x: "unat (td_fee l) * unat (blobSize r) = unat a * 2 ^ 64 + unat b" "unat (td_fee r) * unat (blobSize l) = unat c * 2 ^ 64 + unat d"
    using mul128_exact [of "td_fee l" "blobSize r"] mul128_exact [of "td_fee r" "blobSize l"] ab cd by simp_all
  have lt: "unat b < 2 ^ 64" "unat d < 2 ^ 64" using unsigned_less [of b] unsigned_less [of d] by simp_all
  have less: "c < a \<or> c = a \<and> d < b \<longleftrightarrow> unat c * 2 ^ 64 + unat d < unat a * 2 ^ 64 + unat b"
    "a < c \<or> a = c \<and> b < d \<longleftrightarrow> unat a * 2 ^ 64 + unat b < unat c * 2 ^ 64 + unat d"
    using lt by (auto simp: word_less_nat_alt word_unat_eq_iff)
  moreover have "a = c \<and> b = d \<longleftrightarrow> unat c * 2 ^ 64 + unat d = unat a * 2 ^ 64 + unat b"
    using less by (metis less_irrefl linorder_neqE)
  ultimately show ?thesis unfolding priority_before_def ab cd x by (auto simp: word_sless_alt)
qed

definition priority_key :: "TransactionDetails \<Rightarrow> rat \<times> u64 \<times> int" where
  "priority_key t = (- (of_nat (unat (td_fee t)) / of_nat (unat (blobSize t))), blobSize t, sint (receiveTime t))"

lemma ratio_order:
  fixes a b c d :: nat
  assumes "0 < b" and "0 < d"
  shows "(of_nat a / of_nat b :: rat) < of_nat c / of_nat d \<longleftrightarrow> a * d < c * b"
    and "(of_nat a / of_nat b :: rat) = of_nat c / of_nat d \<longleftrightarrow> a * d = c * b"
proof -
  have q: "0 < (of_nat b :: rat)" "0 < (of_nat d :: rat)" using assms by simp_all
  have "(of_nat a / of_nat b :: rat) < of_nat c / of_nat d \<longleftrightarrow> of_nat a * of_nat d < (of_nat c * of_nat b :: rat)"
    using q by (simp add: divide_less_eq less_divide_eq mult.commute)
  then show "(of_nat a / of_nat b :: rat) < of_nat c / of_nat d \<longleftrightarrow> a * d < c * b"
    by (metis of_nat_less_iff of_nat_mult)
  have "(of_nat a / of_nat b :: rat) = of_nat c / of_nat d \<longleftrightarrow> of_nat a * of_nat d = (of_nat c * of_nat b :: rat)"
    using q by (simp add: frac_eq_eq)
  then show "(of_nat a / of_nat b :: rat) = of_nat c / of_nat d \<longleftrightarrow> a * d = c * b"
    by (metis of_nat_eq_iff of_nat_mult)
qed

lemma priority_key_less:
  assumes "0 < blobSize l" and "0 < blobSize r"
  shows "priority_before l r \<longleftrightarrow> priority_key l < priority_key r"
proof -
  have "0 < unat (blobSize l)" "0 < unat (blobSize r)" using assms by (simp_all add: word_less_nat_alt)
  then show ?thesis unfolding priority_before_nat priority_key_def less_prod_def'
    by (auto simp: ratio_order simp del: of_nat_unat)
qed

lemma mset_insert_fee: "mset (insert_fee x ys) = add_mset x (mset ys)"
  by (induction ys) auto

lemma mset_fee_index: "mset (m_fee_index pool) = mset (m_transactions pool)"
proof -
  have "mset (foldl (\<lambda>index txd. insert_fee txd index) ys xs) = mset xs + mset ys" for xs ys
    by (induction xs arbitrary: ys) (simp_all add: mset_insert_fee)
  then show ?thesis by (simp add: m_fee_index_def)
qed

lemma set_fee_index: "set (m_fee_index pool) = set (m_transactions pool)"
  using mset_fee_index by (metis set_mset_mset)

lemma sorted_insert_fee:
  "sorted_wrt (\<lambda>a b. priority_key a \<le> priority_key b) ys \<Longrightarrow> \<forall>y \<in> insert x (set ys). 0 < blobSize y \<Longrightarrow>
     sorted_wrt (\<lambda>a b. priority_key a \<le> priority_key b) (insert_fee x ys)"
proof (induction ys)
  case (Cons y ys)
  have "set (insert_fee x ys) = insert x (set ys)" using mset_insert_fee [of x ys] by (metis set_mset_add_mset_insert set_mset_mset)
  moreover have "priority_before x y \<longleftrightarrow> priority_key x < priority_key y" using Cons.prems by (intro priority_key_less) auto
  ultimately show ?case using Cons by (auto intro: order.trans less_imp_le)
qed simp

lemma sorted_fee_index:
  assumes "\<forall>t \<in> set (m_transactions pool). 0 < blobSize t"
  shows "sorted_wrt (\<lambda>a b. priority_key a \<le> priority_key b) (m_fee_index pool)"
proof -
  have "sorted_wrt (\<lambda>a b. priority_key a \<le> priority_key b) ys \<Longrightarrow> \<forall>t \<in> set xs \<union> set ys. 0 < blobSize t \<Longrightarrow>
      sorted_wrt (\<lambda>a b. priority_key a \<le> priority_key b) (foldl (\<lambda>index txd. insert_fee txd index) ys xs)" for xs ys
  proof (induction xs arbitrary: ys)
    case (Cons x xs)
    have "set (insert_fee x ys) = insert x (set ys)" using mset_insert_fee [of x ys] by (metis set_mset_add_mset_insert set_mset_mset)
    then show ?case using Cons sorted_insert_fee by auto
  qed simp
  from this [of "[]" "m_transactions pool"] show ?thesis using assms by (simp add: m_fee_index_def)
qed

section \<open>What a template holds\<close>

text \<open>The entries taken so far and the template they make.\<close>

definition takes :: "(bytes \<Rightarrow> hash) \<Rightarrow> TransactionDetails list \<Rightarrow> TemplateState \<Rightarrow> bool" where
  "takes sha3 es st \<longleftrightarrow>
     m_txHashes (ts_template st) = map td_id es \<and>
     m_keyImages (ts_template st) = concat (map (\<lambda>t. spend_images sha3 (td_tx t)) es) \<and>
     m_pqAccountRegistrations (ts_template st) = concat (map (\<lambda>t. account_keys sha3 (td_tx t)) es) \<and>
     m_freeRegCount (ts_template st) = of_nat (free_count es) \<and> free_count es \<le> 100 \<and>
     distinct (m_pqAccountRegistrations (ts_template st)) \<and>
     ((\<forall>t \<in> set es. distinct (spend_images sha3 (td_tx t))) \<longrightarrow> distinct (m_keyImages (ts_template st))) \<and>
     total_size st = sum_list (map blobSize es) \<and> total_fee st = sum_list (map td_fee es)"

lemma takes_start: "takes sha3 [] \<lparr>ts_pool = pool, ts_bc = bc, ts_template = empty_template, total_size = 0, total_fee = 0\<rparr>"
  by (simp add: takes_def empty_template_def free_count_def)

lemma takes_pool [simp]: "takes sha3 es (st\<lparr>ts_pool := p, ts_bc := b\<rparr>) = takes sha3 es st"
  by (simp add: takes_def)

lemma takes_add:
  assumes "takes sha3 es st" and "addTransaction sha3 (td_id t) (td_tx t) (ts_template st) = (True, bt)"
  shows "takes sha3 (es @ [t]) (st\<lparr>ts_pool := p, ts_bc := b, ts_template := bt, total_size := total_size st + blobSize t,
     total_fee := total_fee st + td_fee t\<rparr>)"
proof -
  have can: "canAdd sha3 (td_tx t) (ts_template st)" using assms(2) by (auto simp: addTransaction_def split: if_splits)
  have bt: "bt = (ts_template st)\<lparr>m_keyImages := m_keyImages (ts_template st) @ spend_images sha3 (td_tx t),
      m_pqAccountRegistrations := m_pqAccountRegistrations (ts_template st) @ account_keys sha3 (td_tx t),
      m_freeRegCount := (if is_free_reg (td_tx t) then m_freeRegCount (ts_template st) + 1 else m_freeRegCount (ts_template st)),
      m_txHashes := m_txHashes (ts_template st) @ [td_id t]\<rparr>"
    using assms(2) can by (auto simp: addTransaction_def account_keys_def split: option.splits)
  have "free_count es < 100" if "is_free_reg (td_tx t)"
  proof -
    have "unat (of_nat (free_count es) :: u64) = free_count es"
      using assms(1) by (intro unat_of_nat_u64) (auto simp: takes_def)
    moreover have "\<not> 100 \<le> (of_nat (free_count es) :: u64)"
      using can that assms(1) by (auto simp: canAdd_def takes_def FREE_REG_PER_BLOCK_def)
    ultimately show ?thesis by (simp add: word_le_nat_alt)
  qed
  then show ?thesis using assms(1) can unfolding bt
    by (auto simp: takes_def canAdd_def free_count_simps account_keys_def split: option.splits)
qed

lemma same_db:
  assumes "m_db b = m_db bc"
  shows "haveTransactionKeyImagesAsSpent sha3 b tx = haveTransactionKeyImagesAsSpent sha3 bc tx"
    and "isAccountAlreadyRegisteredOnChain sha3 b tx = isAccountAlreadyRegisteredOnChain sha3 bc tx"
    and "m_currency b = m_currency bc \<Longrightarrow> era_ok b tx = era_ok bc tx"
  unfolding haveTransactionKeyImagesAsSpent_def isAccountAlreadyRegisteredOnChain_def era_ok_def getCurrentBlockchainHeight_def assms
  by simp_all

lemma ready_keep:
  assumes "is_transaction_ready_to_go E tx m l bc = (r, m', l', bc')"
  shows "m_db bc' = m_db bc \<and> m_currency bc' = m_currency bc \<and> (r \<longrightarrow> \<not> haveTransactionKeyImagesAsSpent (sha3_256 (ev_pq E)) bc tx)"
proof -
  have a: "checkInputs_again E tx m l bc = (r, m', l', b) \<Longrightarrow> m_db b = m_db bc \<and> m_currency b = m_currency bc" for r m' l' b
    by (auto simp: checkInputs_again_def Let_def split: prod.splits bool.splits if_splits dest: info_keep)
  obtain r1 m1 l1 b where c: "checkInputs_again E tx m l bc = (r1, m1, l1, b)" by (metis prod_cases4)
  show ?thesis using assms a [OF c] same_db(1) [of b bc] by (auto simp: is_transaction_ready_to_go_def c split: bool.splits)
qed

text \<open>What holds of every entry a pass takes, against the chain the pass started on.\<close>

definition offered :: "('s, 'k) node_env \<Rightarrow> hash list \<Rightarrow> Blockchain \<Rightarrow> TransactionDetails \<Rightarrow> bool" where
  "offered E cached bc t \<longleftrightarrow> era_ok bc (td_tx t) \<and> \<not> isAccountAlreadyRegisteredOnChain (sha3_256 (ev_pq E)) bc (td_tx t) \<and>
     (td_id t \<in> set cached \<or> \<not> haveTransactionKeyImagesAsSpent (sha3_256 (ev_pq E)) bc (td_tx t))"

definition filling :: "('s, 'k) node_env \<Rightarrow> u64 \<Rightarrow> u64 \<Rightarrow> tx_memory_pool \<Rightarrow> Blockchain \<Rightarrow> TransactionDetails list \<Rightarrow> TemplateState \<Rightarrow> bool" where
  "filling E median limit pool bc es st \<longleftrightarrow>
     takes (sha3_256 (ev_pq E)) es st \<and> m_db (ts_bc st) = m_db bc \<and> m_currency (ts_bc st) = m_currency bc \<and>
     (\<forall>t \<in> set es. offered E (m_validated_transactions pool) bc t) \<and> total_size st \<le> max median limit \<and>
     (\<forall>h \<in> set (m_validated_transactions (ts_pool st)). h \<in> set (m_validated_transactions pool) \<or>
        (\<exists>u \<in> set (m_transactions pool). td_id u = h \<and> \<not> haveTransactionKeyImagesAsSpent (sha3_256 (ev_pq E)) bc (td_tx u)))"

lemma filling_step:
  assumes f: "filling E median limit pool bc es st" and t: "t \<in> set (m_transactions pool)"
    and d: "distinct (map td_id (m_transactions pool))"
  shows "\<exists>es'. (es' = [] \<or> es' = [t]) \<and> filling E median limit pool bc (es @ es') (fill_step E median limit t st)"
proof -
  let ?s = "sha3_256 (ev_pq E)" and ?cached = "td_id t \<in> set (m_validated_transactions (ts_pool st))"
  have db: "m_db (ts_bc st) = m_db bc" "m_currency (ts_bc st) = m_currency bc" using f by (simp_all add: filling_def)
  obtain r m l b where rd: "(if ?cached then (True, maxUsedBlock t, lastFailedBlock t, ts_bc st)
       else is_transaction_ready_to_go E (td_tx t) (maxUsedBlock t) (lastFailedBlock t) (ts_bc st)) = (r, m, l, b)" by (metis prod_cases4)
  have k: "m_db b = m_db bc" "m_currency b = m_currency bc"
    and sp: "r \<longrightarrow> ?cached \<or> \<not> haveTransactionKeyImagesAsSpent ?s bc (td_tx t)"
    using rd db ready_keep [of E "td_tx t" "maxUsedBlock t" "lastFailedBlock t" "ts_bc st" r m l b]
    by (auto simp: same_db(1) [OF db(1)] split: if_splits)
  define pool1 where "pool1 = (if r \<and> \<not> ?cached then (ts_pool st)\<lparr>m_validated_transactions := td_id t # m_validated_transactions (ts_pool st)\<rparr> else ts_pool st)"
  define st1 where "st1 = st\<lparr>ts_pool := update_info (td_id t) m l pool1, ts_bc := b\<rparr>"
  have v: "\<forall>h \<in> set (m_validated_transactions (ts_pool st1)). h \<in> set (m_validated_transactions pool) \<or>
        (\<exists>u \<in> set (m_transactions pool). td_id u = h \<and> \<not> haveTransactionKeyImagesAsSpent ?s bc (td_tx u))"
    using f t sp by (auto simp: st1_def pool1_def update_info_def filling_def)
  have f1: "filling E median limit pool bc es st1" using f v k by (simp add: filling_def st1_def)
  have c: "td_id t \<in> set (m_validated_transactions pool) \<or> \<not> haveTransactionKeyImagesAsSpent ?s bc (td_tx t)" if r
    using sp that f t d by (auto simp: filling_def dest: inj_onD [OF distinct_map [THEN iffD1, THEN conjunct2]])
  show ?thesis
  proof (cases "\<not> era_ok (ts_bc st) (td_tx t) \<or> (if td_fee t = 0 then median else limit) < total_size st + blobSize t \<or>
      \<not> fst (check_tx_fee (ts_bc st) (td_tx t) initial_tvc (getCurrentBlockchainHeight (ts_bc st))) \<or>
      isAccountAlreadyRegisteredOnChain ?s (ts_bc st) (td_tx t) \<or> \<not> r \<or> \<not> canAdd ?s (td_tx t) (ts_template st)")
    case True
    then have "fill_step E median limit t st = st \<or> fill_step E median limit t st = st1"
      using rd by (auto simp: fill_step_def Let_def st1_def pool1_def addTransaction_def)
    then show ?thesis using f f1 by (intro exI [of _ "[]"]) auto
  next
    case False
    obtain bt where bt: "addTransaction ?s (td_id t) (td_tx t) (ts_template st) = (True, bt)" using False by (simp add: addTransaction_def)
    let ?st2 = "st1\<lparr>ts_template := bt, total_size := total_size st1 + blobSize t, total_fee := total_fee st1 + td_fee t\<rparr>"
    have "fill_step E median limit t st = ?st2"
      using False rd bt by (auto simp: fill_step_def Let_def st1_def pool1_def)
    moreover have "takes ?s (es @ [t]) ?st2" using f bt takes_add [of ?s es st t bt] by (simp add: filling_def st1_def)
    moreover have "offered E (m_validated_transactions pool) bc t" "total_size st + blobSize t \<le> max median limit"
      using False c by (auto simp: offered_def same_db [OF db(1)] db(2) le_max_iff_disj split: if_splits)
    ultimately show ?thesis using f1 v k by (intro exI [of _ "[t]"]) (auto simp: filling_def st1_def)
  qed
qed

lemma filling_pass:
  assumes "filling E median limit pool bc es st" and "set xs \<subseteq> set (m_transactions pool)" and "distinct (map td_id (m_transactions pool))"
  shows "\<exists>es'. subseq es' xs \<and> filling E median limit pool bc (es @ es') (fold (fill_step E median limit) xs st)"
  using assms
proof (induction xs arbitrary: es st)
  case (Cons x xs)
  obtain e1 where e1: "e1 = [] \<or> e1 = [x]" "filling E median limit pool bc (es @ e1) (fill_step E median limit x st)"
    using filling_step [OF Cons.prems(1) _ Cons.prems(3), of x] Cons.prems(2) by (auto simp only: list.set insert_subset)
  have "set xs \<subseteq> set (m_transactions pool)" using Cons.prems(2) by simp
  then obtain e2 where "subseq e2 xs" "filling E median limit pool bc (es @ e1 @ e2) (fold (fill_step E median limit) (x # xs) st)"
    using Cons.IH [OF e1(2) _ Cons.prems(3)] by auto
  then show ?case using e1(1) by (intro exI [of _ "e1 @ e2"]) auto
qed (auto intro!: exI [of _ "[]"])

lemma kept_transfer_added:
  assumes ok: "pool_ok (sha3_256 (ev_pq E)) pool" and new: "\<not> have_tx pool txid" and len: "Suc (length (m_transactions pool)) < 2 ^ 64"
    and pq: "TRANSACTION_VERSION_1 \<le> version tx" "isPqTransfer (txType tx)" and ty: "check_inputs_types_supported tx"
    and adm: "if kept then distinct (spend_images (sha3_256 (ev_pq E)) tx)
       else fst (checkInputs_info E tx clear_info bc) \<and> \<not> haveSpentInputs (sha3_256 (ev_pq E)) pool tx \<and>
         \<not> havePqAccountRegistration (sha3_256 (ev_pq E)) pool tx \<and> checkTransactionSize bc sz \<and> m_recentlyDeletedTransactions pool txid = None"
  shows "\<exists>tvc' pool' bc' t. add_tx E now tx txid sz tvc kept pool bc = (True, tvc', pool', bc') \<and>
     m_transactions pool' = m_transactions pool @ [t] \<and> td_id t = txid \<and> td_tx t = tx \<and> keptByBlock t = kept \<and>
     td_fee t = (if fst (checkInputs_info E tx clear_info bc) then the (getPqTransactionFee bc tx) else 0)"
proof -
  let ?v = "fst (checkInputs_info E tx clear_info bc)" and ?s = "sha3_256 (ev_pq E)"
  define fee where "fee = (if ?v then the (getPqTransactionFee bc tx) else 0)"
  have d: "distinct (spend_images ?s tx)" using adm valid_distinct [OF _ ty] by (auto split: if_splits)
  have free: "kept \<or> \<not> haveSpentInputs ?s pool tx \<and> \<not> havePqAccountRegistration ?s pool tx" using adm by (auto split: if_splits)
  have a: "kept \<or> ?v \<and> \<not> haveSpentInputs ?s pool tx \<and>
       \<not> havePqAccountRegistration ?s pool tx \<and> checkTransactionSize bc sz \<and> m_recentlyDeletedTransactions pool txid = None"
    using adm by (auto split: if_splits)
  obtain used tvc1 bc' where run: "add_tx E now tx txid sz tvc kept pool bc =
     (case insert_tx E now tx txid sz fee used kept ?v tvc1 pool of (r, tvc', pool') \<Rightarrow> (r, tvc', pool', bc'))"
    using add_tx_inserts [OF pq ty a fee_def, of now tvc] by blast
  show ?thesis using insert_tx_ok [OF ok new len d free, of now sz fee used ?v tvc1] run fee_def by auto
qed

section \<open>Properties of the pool\<close>

definition sample_id :: hash where
  "sample_id = replicate 32 77"

lemma sample_transfer_facts [simp]:
  "TRANSACTION_VERSION_1 \<le> version sample_transfer" "isPqTransfer (txType sample_transfer)" "check_inputs_types_supported sample_transfer"
  "spend_images sha3 sample_transfer = [pqNullifier sha3 sample_pq_input]" "account_of sha3 sample_transfer = None"
  by (simp_all add: sample_transfer_def TRANSACTION_VERSION_1_def isPqTransfer_def TX_PQ_def check_inputs_types_supported_def
      spend_images_def spendImageForInput_def pqInputNullifierAsKeyImage_def account_of_def
      getPqAccountRegistrationFromExtra_def get_parsed_def parseTransactionExtra_def)

text \<open>A chain that has the sample transfer's nullifier already.\<close>

definition spent_node :: Blockchain where
  "spent_node = sample_node\<lparr>m_db := \<lparr>m_env = putSpentKey (pqNullifier toy_sha3 sample_pq_input) 0 empty_tables,
     m_writeTxn = None, m_parentWriteTxn = None\<rparr>\<rparr>"

lemma spent_node_facts:
  "era_ok spent_node sample_transfer" "haveTransactionKeyImagesAsSpent toy_sha3 spent_node sample_transfer"
  by (simp_all add: era_ok_def spent_node_def sample_node_def default_currency_def sample_transfer_def isPqTransferTypeAllowedAt_def TX_PQ_def
      builder_plain_def PQ_DELIVERY_V2_HEIGHT_def mdb_last_def readTxn_def getCurrentBlockchainHeight_def getChainHeight_def
      putSpentKey_def empty_tables_def
      haveTransactionKeyImagesAsSpent_def hasSpentKey_def pqInputNullifierAsKeyImage_def)

definition sample_adds :: "tx_memory_pool \<Rightarrow> bool" where
  "sample_adds pool \<longleftrightarrow> (\<exists>tvc bc. add_tx sample_env 5 sample_transfer sample_id 9000 initial_tvc True empty_pool sample_node = (True, tvc, pool, bc))"

lemma sample_added: "\<exists>pool t. sample_adds pool \<and> pool_reach sample_env pool \<and> m_transactions pool = [t] \<and> td_id t = sample_id \<and>
    td_tx t = sample_transfer \<and> keptByBlock t"
proof -
  have e: "m_transactions empty_pool = []" "\<not> have_tx empty_pool sample_id" by (simp_all add: empty_pool_def have_tx_iff)
  obtain tvc' pool' bc' t where a: "add_tx sample_env 5 sample_transfer sample_id 9000 initial_tvc True empty_pool sample_node = (True, tvc', pool', bc')"
    "m_transactions pool' = [t]" "td_id t = sample_id" "td_tx t = sample_transfer" "keptByBlock t"
    using kept_transfer_added [where E = sample_env and pool = empty_pool and tx = sample_transfer and txid = sample_id and kept = True
        and bc = sample_node and now = 5 and sz = 9000 and tvc = initial_tvc, OF empty_pool_ok e(2)] e(1) by auto
  have "pool_reach sample_env pool'" by (rule pool_add [OF pool_start a(1)]) (simp_all add: e(1))
  then show ?thesis using a unfolding sample_adds_def by blast
qed



text \<open>
  C22.  The order in which a miner sees the pool: the fee index holds every entry exactly as often
  as the pool does, and it runs from the best to the worst by the exact rational price per byte,
  then by smaller size, then by age.  The comparison of the code multiplies fees and sizes to 128
  bits, so no fee and no size makes it wrap.
\<close>

theorem fee_index_exact:
  assumes "\<forall>t \<in> set (m_transactions pool). 0 < blobSize t"
  shows "mset (m_fee_index pool) = mset (m_transactions pool) \<and>
     sorted_wrt (\<lambda>a b. priority_key a \<le> priority_key b) (m_fee_index pool)"
  using mset_fee_index sorted_fee_index [OF assms] by blast

definition two_entries :: tx_memory_pool where
  "two_entries = empty_pool\<lparr>m_transactions := map (\<lambda>(f, n). \<lparr>maxUsedBlock = clear_info, lastFailedBlock = clear_info, td_id = [],
     td_tx = sample_transfer, blobSize = n, td_fee = f, keptByBlock = False, receiveTime = 5\<rparr>) [(2 ^ 63, 3), (2 ^ 63, 2)]\<rparr>"

lemma fee_index_exact_witness:
  "map blobSize (m_fee_index two_entries) = [2, 3] \<and> sorted_wrt (\<lambda>a b. priority_key a \<le> priority_key b) (m_fee_index two_entries)"
  using fee_index_exact [of two_entries]
  by (simp add: two_entries_def m_fee_index_def priority_before_nat)

text \<open>
  C14.  What \<open>fill_block_template\<close> offers a miner: a subsequence of the fee index, every entry
  once; no nullifier and no account twice in the whole template, at most 100 free registrations,
  no account the chain has, only transfer types of the current era; the reported size and fee are
  the sums over the entries taken, and the size is within the larger of the two limits.  Every
  entry that was not in the cache of validated transactions spends no nullifier the chain has.
\<close>

theorem template_sound:
  assumes "pool_reach E pool" and "fill_block_template E median maxSize pool bc = st"
  shows "\<exists>es. subseq es (m_fee_index pool) \<and> m_txHashes (ts_template st) = map td_id es \<and> distinct (map td_id es) \<and>
     distinct (concat (map (\<lambda>t. spend_images (sha3_256 (ev_pq E)) (td_tx t)) es)) \<and>
     distinct (concat (map (\<lambda>t. account_keys (sha3_256 (ev_pq E)) (td_tx t)) es)) \<and> free_count es \<le> 100 \<and>
     list_all (offered E (m_validated_transactions pool) bc) es \<and>
     total_size st = sum_list (map blobSize es) \<and> total_fee st = sum_list (map td_fee es) \<and>
     total_size st \<le> max median (fill_limit (m_currency bc) median maxSize)"
proof -
  let ?st = "\<lparr>ts_pool = pool, ts_bc = bc, ts_template = empty_template, total_size = 0, total_fee = 0\<rparr>"
    and ?l = "fill_limit (m_currency bc) median maxSize"
  have ok: "pool_ok (sha3_256 (ev_pq E)) pool" using assms(1) by (rule reach_ok)
  then have d: "distinct (map td_id (m_transactions pool))" by (simp add: pool_ok_def Let_def)
  have "filling E median ?l pool bc [] ?st" by (simp add: filling_def takes_start)
  then obtain es where es: "subseq es (m_fee_index pool)" "filling E median ?l pool bc es st"
    using filling_pass [OF _ _ d, of E median ?l bc "[]" ?st "m_fee_index pool"] assms(2) by (auto simp: set_fee_index fill_block_template_def)
  obtain N where N: "es = nths (m_fee_index pool) N" using es(1) by (auto simp: subseq_conv_nths)
  then have sub: "set es \<subseteq> set (m_transactions pool)" using set_nths_subset [of "m_fee_index pool" N] by (simp add: set_fee_index)
  have "mset (map td_id (m_fee_index pool)) = mset (map td_id (m_transactions pool))" by (simp add: mset_fee_index)
  then have "distinct (map td_id (m_fee_index pool))" using d by (metis mset_eq_imp_distinct_iff)
  then have "distinct (map td_id es)" by (simp add: N flip: nths_map)
  moreover have "\<forall>t \<in> set es. distinct (spend_images (sha3_256 (ev_pq E)) (td_tx t))" using ok sub by (auto simp: pool_ok_def Let_def)
  ultimately show ?thesis using es by (intro exI [of _ es]) (auto simp: filling_def takes_def list_all_iff)
qed

lemma template_sound_witness:
  "\<exists>pool (es :: TransactionDetails list). sample_adds pool \<and> m_txHashes (ts_template (fill_block_template sample_env 20000 40000 pool sample_node)) = map td_id es \<and>
     total_fee (fill_block_template sample_env 20000 40000 pool sample_node) = sum_list (map td_fee es)"
proof -
  obtain pool where p: "sample_adds pool" "pool_reach sample_env pool" using sample_added by blast
  show ?thesis using template_sound [OF p(2) refl, of 20000 40000 sample_node] p(1) by blast
qed




definition stale_entry :: TransactionDetails where
  "stale_entry = \<lparr>maxUsedBlock = clear_info, lastFailedBlock = clear_info, td_id = sample_id, td_tx = sample_transfer, blobSize = 9000,
     td_fee = 100, keptByBlock = False, receiveTime = 5\<rparr>"


lemma add_keys_once: "fst (add_keys True txid ks m) \<Longrightarrow> distinct ks \<and> (\<forall>k \<in> set ks. txid \<notin> ids_at m k)"
proof (induction ks arbitrary: m)
  case (Cons k ks)
  obtain b m1 where m1: "add_id True txid k m = (b, m1)" by fastforce
  have b: "b" using Cons.prems m1 by (cases b) simp_all
  have new: "txid \<notin> ids_at m k" and ids: "ids_at m1 j = (if j = k then insert txid (ids_at m k) else ids_at m j)" for j
    using b m1 by (auto simp: add_id_def ids_at_def Let_def split: if_splits option.splits)
  have "fst (add_keys True txid ks m1)" using Cons.prems m1 b by simp
  then have "distinct ks \<and> (\<forall>j \<in> set ks. txid \<notin> ids_at m1 j)" by (rule Cons.IH)
  then show ?case using new by (auto simp: ids split: if_splits)
qed simp

text \<open>
  C24.  A transfer that spends a nullifier twice and comes with a block is refused by \<open>add_tx\<close>,
  and stays: the call returns false, and the entry is in the pool.  The entry is inserted before
  its inputs are recorded and is not taken out when that fails.
\<close>

theorem refused_entry_stays:
  assumes "\<not> have_tx pool txid" and "TRANSACTION_VERSION_1 \<le> version tx" and "isPqTransfer (txType tx)"
    and "check_inputs_types_supported tx" and "\<not> distinct (spend_images (sha3_256 (ev_pq E)) tx)"
  shows "\<exists>tvc' pool' bc'. add_tx E now tx txid sz tvc True pool bc = (False, tvc', pool', bc') \<and> have_tx pool' txid"
proof -
  let ?s = "sha3_256 (ev_pq E)"
  obtain used tvc1 bc' where run: "add_tx E now tx txid sz tvc True pool bc =
     (case insert_tx E now tx txid sz (if fst (checkInputs_info E tx clear_info bc) then the (getPqTransactionFee bc tx) else 0) used True
        (fst (checkInputs_info E tx clear_info bc)) tvc1 pool of (r, tvc', pool') \<Rightarrow> (r, tvc', pool', bc'))"
    using add_tx_inserts [OF assms(2,3,4) disjI1 refl, where kept = True and E = E and bc = bc and pool = pool and sz = sz
        and txid = txid and now = now and tvc = tvc] by auto
  have "\<not> fst (add_keys True txid (spend_images ?s tx) m)" for m using add_keys_once assms(5) by blast
  then obtain m where m: "add_keys True txid (spend_images ?s tx) (m_spent_key_images pool) = (False, m)"
    by (metis fst_conv prod.exhaust_sel)
  show ?thesis unfolding run using assms(1) m
    by (auto simp: insert_tx_def addTransactionInputs_keys Let_def have_tx_iff)
qed

lemma refused_entry_stays_witness:
  "\<exists>tvc' pool' bc'. add_tx sample_env 5 (sample_transfer\<lparr>inputs := [InPq sample_pq_input, InPq sample_pq_input]\<rparr>) sample_id 9000 initial_tvc
      True empty_pool sample_node = (False, tvc', pool', bc') \<and> have_tx pool' sample_id"
proof -
  let ?tx = "sample_transfer\<lparr>inputs := [InPq sample_pq_input, InPq sample_pq_input]\<rparr>"
  have "\<not> have_tx empty_pool sample_id" by (simp add: empty_pool_def have_tx_iff)
  moreover have "check_inputs_types_supported ?tx" "\<not> distinct (spend_images (sha3_256 (ev_pq sample_env)) ?tx)"
    using sample_transfer_facts(1,2) by (simp_all add: check_inputs_types_supported_def spend_images_def spendImageForInput_def)
  ultimately show ?thesis using refused_entry_stays [of empty_pool sample_id ?tx sample_env] by simp
qed

end
