(* ===== verification/Node.thy ===== *)
theory Node
  imports Tx_Pool
begin

text \<open>
  The node: the chain and the memory pool together.  Models the parts of
  src/src/CryptoNoteCore/Blockchain.cpp that move transactions between the two, take blocks off,
  keep alternative chains, switch between chains, and guard against deep reorganizations.  A run is
  \<open>None\<close> when the code does not return, \<open>Some (Inl e)\<close> when it throws; the state an exception leaves
  is not modelled.  A block record that does not parse leaves an indeterminate block in the code;
  the model stops with an error there.  Messages and observers have no effect on the state.
\<close>

section \<open>Runs\<close>

record Node =
  nd_bc :: Blockchain
  nd_pool :: tx_memory_pool

type_synonym 'a run = "'a res option"

definition run_bind :: "'a run \<Rightarrow> ('a \<Rightarrow> 'b run) \<Rightarrow> 'b run" where
  "run_bind m f = (case m of None \<Rightarrow> None | Some (Inl e) \<Rightarrow> Some (Inl e) | Some (Inr x) \<Rightarrow> f x)"

lemma run_bind_simps [simp]:
  "run_bind None f = None" "run_bind (Some (Inl e)) f = Some (Inl e)" "run_bind (Some (Inr x)) f = f x"
  by (simp_all add: run_bind_def)

lemma run_bind_Inr: "run_bind m f = Some (Inr y) \<longleftrightarrow> (\<exists>x. m = Some (Inr x) \<and> f x = Some (Inr y))"
  by (auto simp: run_bind_def split: option.splits sum.splits)

section \<open>Transactions between chain and pool\<close>

definition add_back :: "('s, 'k) node_env \<Rightarrow> u64 \<Rightarrow> Transaction \<Rightarrow> Node \<Rightarrow> bool \<times> Node" where
  "add_back E now tx nd =
     (case add_tx_hashed E now tx initial_tvc True (nd_pool nd) (nd_bc nd) of
        (r, _, pool, bc) \<Rightarrow> (r, \<lparr>nd_bc = bc, nd_pool = pool\<rparr>))"

text \<open>The last transaction first; failures are only logged.\<close>

definition saveTransactions :: "('s, 'k) node_env \<Rightarrow> u64 \<Rightarrow> Transaction list \<Rightarrow> Node \<Rightarrow> Node" where
  "saveTransactions E now txs nd = fold (\<lambda>tx n. snd (add_back E now tx n)) (rev txs) nd"

fun put_back :: "('s, 'k) node_env \<Rightarrow> u64 \<Rightarrow> Transaction list \<Rightarrow> Node \<Rightarrow> Node res" where
  "put_back E now [] nd = Inr nd"
| "put_back E now (tx # txs) nd =
     (case add_back E now tx nd of
        (False, _) \<Rightarrow> Inl ''Blockchain::loadTransactions, failed to add transaction to pool''
      | (True, nd') \<Rightarrow> put_back E now txs nd')"

text \<open>The transactions taken so far come in reverse.\<close>

fun load_loop :: "('s, 'k) node_env \<Rightarrow> u64 \<Rightarrow> hash list \<Rightarrow> Transaction list \<Rightarrow> Node \<Rightarrow> (Transaction list option \<times> Node) res" where
  "load_loop E now [] taken nd = Inr (Some (rev taken), nd)"
| "load_loop E now (h # hs) taken nd =
     (case take_tx E h (nd_pool nd) of
        (Some (tx, _, _), pool) \<Rightarrow> load_loop E now hs (tx # taken) (nd\<lparr>nd_pool := pool\<rparr>)
      | (None, pool) \<Rightarrow>
          (case put_back E now taken (nd\<lparr>nd_pool := pool\<rparr>) of Inl e \<Rightarrow> Inl e | Inr nd' \<Rightarrow> Inr (None, nd')))"

definition loadTransactions :: "('s, 'k) node_env \<Rightarrow> u64 \<Rightarrow> Block \<Rightarrow> Node \<Rightarrow> (Transaction list option \<times> Node) res" where
  "loadTransactions E now b nd = load_loop E now (transactionHashes b) [] nd"

definition pushBlock_node ::
  "('s, 'k) node_env \<Rightarrow> u64 \<Rightarrow> nat option \<Rightarrow> Block \<Rightarrow> hash \<Rightarrow> hash option \<Rightarrow> block_verification_context \<Rightarrow> Node \<Rightarrow>
     (bool \<times> block_verification_context \<times> Node) res" where
  "pushBlock_node E now fault b blockHash pw bvc nd =
     (case loadTransactions E now b nd of
        Inl e \<Rightarrow> Inl e
      | Inr (None, nd1) \<Rightarrow> Inr (False, bvc\<lparr>m_verification_failed := True\<rparr>, nd1)
      | Inr (Some txs, nd1) \<Rightarrow>
          (case pushBlock E now fault b txs blockHash pw bvc (nd_bc nd1) of
             (True, bvc', bc') \<Rightarrow> Inr (True, bvc', nd1\<lparr>nd_bc := bc'\<rparr>)
           | (False, bvc', bc') \<Rightarrow> Inr (False, bvc', saveTransactions E now txs (nd1\<lparr>nd_bc := bc'\<rparr>))))"

definition popBlock :: "('s, 'k) node_env \<Rightarrow> u64 \<Rightarrow> Node \<Rightarrow> Node res" where
  "popBlock E now nd =
     (let t = db_tables (nd_bc nd); chainHeight = getChainHeight t in
      if chainHeight = 0 then Inr nd
      else
        let height = chainHeight - 1; m = blockMetaOrZero t height in
        (case read_transactions t height [1..<unat (meta_txCount m)] of
           Inl e \<Rightarrow> Inl e
         | Inr txs \<Rightarrow>
             let nd1 = saveTransactions E now txs nd in
             (case remove_last E (nd_bc nd1) of
                Inl e \<Rightarrow> Inl e
              | Inr bc \<Rightarrow> Inr (nd1\<lparr>nd_bc := fold detector_blockPopped [2, 3, 4, 5, 6] bc\<rparr>))))"

section \<open>Finality\<close>

text \<open>The height of a competing block on a stored branch, if it would pass the structural checks.\<close>

definition validateCompetingBlock :: "('s, 'k) node_env \<Rightarrow> Blockchain \<Rightarrow> Block \<Rightarrow> u32 option" where
  "validateCompetingBlock E bc b =
     (case (case mdb_get (previousBlockHash b) (m_alternative_chains bc) of
              Some e \<Rightarrow> Some (be_height e) | None \<Rightarrow> getHashHeight (db_tables bc) (previousBlockHash b)) of
        None \<Rightarrow> None
      | Some parentHeight \<Rightarrow>
          let validatedHeight = parentHeight + 1;
              st = m_finalityForkState bc;
              diff = getDifficultyForNextBlock bc (previousBlockHash b)
          in if ff_active st \<and> divergenceHeight st \<le> validatedHeight - 1 \<and> validatedHeight \<le> competingTipHeight st then None
             else if \<not> checkBlockVersion bc b then None
             else if \<not> checkParentBlockSize E b then None
             else if \<not> prevalidate_miner_transaction bc b validatedHeight then None
             else if \<not> validate_block_signature E b validatedHeight then None
             else if diff = 0 then None
             else if \<not> checkProofOfWork E b diff then None
             else Some validatedHeight)"

definition recordFinalityFork :: "u32 \<Rightarrow> u32 \<Rightarrow> hash \<Rightarrow> Blockchain \<Rightarrow> Blockchain" where
  "recordFinalityFork chainLen altBlockHeight altBlockId bc =
     (let st = m_finalityForkState bc;
          divergence = altBlockHeight - 1;
          st1 = (if ff_active st then
                   (let st' = st\<lparr>divergenceHeight := min (divergenceHeight st) divergence\<rparr> in
                    if competingTipHeight st' \<le> altBlockHeight
                    then st'\<lparr>competingTipHeight := altBlockHeight, competingTipHash := altBlockId\<rparr> else st')
                 else st\<lparr>ff_active := True, divergenceHeight := divergence, competingTipHeight := altBlockHeight,
                         competingTipHash := altBlockId\<rparr>)
      in bc\<lparr>m_finalityForkState := st1\<lparr>localTipHeight := chainLen - 1, localTipHash := getTailId bc,
              refusedDepth := chainLen - 1 - divergenceHeight st1\<rparr>\<rparr>)"

definition resyncToMajority :: "('s, 'k) node_env \<Rightarrow> Blockchain \<Rightarrow> (bool \<times> Blockchain) run" where
  "resyncToMajority E bc =
     (let target = divergenceHeight (m_finalityForkState bc);
          tipBefore = getChainHeight (db_tables bc) - 1
      in if \<not> ff_active (m_finalityForkState bc) then Some (Inr (False, bc))
         else if \<not> target < tipBefore then Some (Inr (False, bc))
         else run_bind (rollbackBlockchainTo E target bc) (\<lambda>bc'. Some (Inr (True, bc'\<lparr>m_finalityForkState := no_fork\<rparr>))))"

section \<open>Alternative chains\<close>

definition alt_at :: "Blockchain \<Rightarrow> hash \<Rightarrow> BlockEntry" where
  "alt_at bc h =
     (case mdb_get h (m_alternative_chains bc) of
        Some e \<Rightarrow> e
      | None \<Rightarrow> \<lparr>be_bl = \<lparr>majorVersion = 0, minorVersion = 0, nonce = 0, timestamp = 0, previousBlockHash = NULL_HASH,
                    baseTransaction = \<lparr>version = 0, txType = 0, unlockHeight = 0, inputs = [], outputs = [], extra = [], pqSignatures = []\<rparr>,
                    signature = [], transactionHashes = []\<rparr>,
                 be_height = 0, block_cumulative_size = 0, cumulative_difficulty = 0, already_generated_coins = 0, be_transactions = []\<rparr>)"

definition erase_alternative :: "hash \<Rightarrow> Blockchain \<Rightarrow> Blockchain" where
  "erase_alternative h bc =
     bc\<lparr>m_orphanBlocksIndex := filter (\<lambda>e. e \<noteq> (get_block_height (be_bl (alt_at bc h)), h)) (m_orphanBlocksIndex bc),
        m_alternative_chains := mdb_del h (m_alternative_chains bc)\<rparr>"

text \<open>The branch a block hangs on, oldest first; a cycle of hash links would never end.\<close>

partial_function (option) alt_walk ::
  "(hash, BlockEntry) table \<Rightarrow> hash \<Rightarrow> (hash \<times> BlockEntry) list \<Rightarrow> (hash \<times> BlockEntry) list option" where
  "alt_walk alts h acc =
     (case mdb_get h alts of
        None \<Rightarrow> Some acc
      | Some e \<Rightarrow> alt_walk alts (previousBlockHash (be_bl e)) ((h, e) # acc))"

text \<open>The sizes of the block's transactions that are found on the chain or in the pool.\<close>

fun chain_transactions :: "tables \<Rightarrow> hash list \<Rightarrow> (Transaction list \<times> hash list) res" where
  "chain_transactions t [] = Inr ([], [])"
| "chain_transactions t (h # hs) =
     (case getTxIndex t h of
        None \<Rightarrow> (case chain_transactions t hs of Inl e \<Rightarrow> Inl e | Inr (txs, missed) \<Rightarrow> Inr (txs, h # missed))
      | Some (block, slot) \<Rightarrow>
          (case transactionByIndex t block slot of
             Inl e \<Rightarrow> Inl e
           | Inr te \<Rightarrow> (case chain_transactions t hs of Inl e \<Rightarrow> Inl e | Inr (txs, missed) \<Rightarrow> Inr (te_tx te # txs, missed))))"

definition getBlockCumulativeSize :: "Node \<Rightarrow> Block \<Rightarrow> u64 res" where
  "getBlockCumulativeSize nd b =
     (case chain_transactions (db_tables (nd_bc nd)) (transactionHashes b) of
        Inl e \<Rightarrow> Inl e
      | Inr (txs, missed) \<Rightarrow>
          let found = txs @ List.map_filter (getTransaction (nd_pool nd)) missed in
          Inr (fold (\<lambda>tx s. s + snd (getObjectBinarySize put_Transaction tx)) found (snd (getObjectBinarySize put_Transaction (baseTransaction b)))))"

section \<open>Switching\<close>

definition read_block :: "Blockchain \<Rightarrow> u32 \<Rightarrow> Block res" where
  "read_block bc height =
     (case getBlockData (db_tables bc) height of
        None \<Rightarrow> Inl ''unreadable block''
      | Some bdata \<Rightarrow> (case fromBinaryArray get_Block bdata of None \<Rightarrow> Inl ''unreadable block'' | Some b \<Rightarrow> Inr b))"

abbreviation block_id :: "('s, 'k) node_env \<Rightarrow> Block \<Rightarrow> hash" where
  "block_id E b \<equiv> get_block_hash_value (ev_pow E) (ev_parent E b) b"

partial_function (option) pop_down :: "('s, 'k) node_env \<Rightarrow> u64 \<Rightarrow> u64 \<Rightarrow> Node \<Rightarrow> Node res option" where
  "pop_down E now height nd =
     (if height < ucast (getChainHeight (db_tables (nd_bc nd)))
      then (case popBlock E now nd of Inl e \<Rightarrow> Some (Inl e) | Inr nd' \<Rightarrow> pop_down E now height nd')
      else Some (Inr nd))"

text \<open>Pushes the blocks until one is refused: the number of blocks pushed and whether all were.\<close>

fun push_blocks :: "('s, 'k) node_env \<Rightarrow> u64 \<Rightarrow> (hash \<Rightarrow> nat option) \<Rightarrow> Block list \<Rightarrow> Node \<Rightarrow> (nat \<times> bool \<times> Node) res" where
  "push_blocks E now faults [] nd = Inr (0, True, nd)"
| "push_blocks E now faults (b # bs) nd =
     (case pushBlock_node E now (faults (block_id E b)) b (block_id E b) None initial_bvc nd of
        Inl e \<Rightarrow> Inl e
      | Inr (r, bvc, nd1) \<Rightarrow>
          if \<not> (r \<and> m_added_to_main_chain bvc) then Inr (0, False, nd1)
          else (case push_blocks E now faults bs nd1 of Inl e \<Rightarrow> Inl e | Inr (n, ok, nd2) \<Rightarrow> Inr (Suc n, ok, nd2)))"

definition rollback_blockchain_switching ::
  "('s, 'k) node_env \<Rightarrow> u64 \<Rightarrow> (hash \<Rightarrow> nat option) \<Rightarrow> Block list \<Rightarrow> u64 \<Rightarrow> Node \<Rightarrow> (bool \<times> Node) run" where
  "rollback_blockchain_switching E now faults original_chain rollback_height nd =
     run_bind (pop_down E now rollback_height (nd\<lparr>nd_bc := snd (flushBatch True (nd_bc nd))\<rparr>))
       (\<lambda>nd1. case push_blocks E now faults original_chain nd1 of Inl e \<Rightarrow> Some (Inl e) | Inr (_, ok, nd2) \<Rightarrow> Some (Inr (ok, nd2)))"

fun disconnect :: "('s, 'k) node_env \<Rightarrow> u64 \<Rightarrow> u32 list \<Rightarrow> Block list \<Rightarrow> Node \<Rightarrow> (Block list \<times> Node) res" where
  "disconnect E now [] acc nd = Inr (acc, nd)"
| "disconnect E now (i # is) acc nd =
     (case read_block (nd_bc nd) i of
        Inl e \<Rightarrow> Inl e
      | Inr b \<Rightarrow> (case popBlock E now nd of Inl e \<Rightarrow> Inl e | Inr nd1 \<Rightarrow> disconnect E now is (b # acc) nd1))"

text \<open>The rest of a loop over the blocks of the old chain, each handed to \<open>handle\<close> until one fails.\<close>

fun reconnect :: "(Block \<Rightarrow> Node \<Rightarrow> (bool \<times> Node) run) \<Rightarrow> Block list \<Rightarrow> Node \<Rightarrow> Node run" where
  "reconnect handle [] nd = Some (Inr nd)"
| "reconnect handle (b # bs) nd =
     run_bind (handle b nd) (\<lambda>(r, nd1). if r then reconnect handle bs nd1 else Some (Inr nd1))"

definition switch_to_alternative_blockchain ::
  "(Block \<Rightarrow> Node \<Rightarrow> (bool \<times> Node) run) \<Rightarrow> ('s, 'k) node_env \<Rightarrow> u64 \<Rightarrow> (hash \<Rightarrow> nat option) \<Rightarrow> hash list \<Rightarrow> bool \<Rightarrow> Node \<Rightarrow>
     (bool \<times> Node) run" where
  "switch_to_alternative_blockchain handle E now faults alt_chain discard nd0 =
     (let nd = nd0\<lparr>nd_bc := snd (flushBatch True (nd_bc nd0))\<rparr>;
          bc = nd_bc nd;
          split_height = be_height (alt_at bc (hd alt_chain));
          chainHeight = getChainHeight (db_tables bc);
          blocks = map (\<lambda>h. be_bl (alt_at bc h)) alt_chain
      in if alt_chain = [] then Some (Inr (False, nd))
         else if \<not> split_height < chainHeight then Some (Inr (False, nd))
         else if \<not> list_all (checkBlockVersion bc) blocks then Some (Inr (False, nd))
         else case disconnect E now (map word_of_int (rev [sint split_height .. sint chainHeight - 1])) [] nd of
           Inl e \<Rightarrow> Some (Inl e)
         | Inr (disconnected_chain, nd1) \<Rightarrow>
             (case push_blocks E now faults blocks nd1 of
                Inl e \<Rightarrow> Some (Inl e)
              | Inr (n, False, nd2) \<Rightarrow>
                  run_bind (rollback_blockchain_switching E now faults disconnected_chain (ucast split_height) nd2)
                    (\<lambda>(_, nd3). Some (Inr (False, nd3\<lparr>nd_bc := fold erase_alternative (drop n alt_chain) (nd_bc nd3)\<rparr>)))
              | Inr (n, True, nd2) \<Rightarrow>
                  run_bind (if discard then Some (Inr nd2) else reconnect handle disconnected_chain nd2)
                    (\<lambda>nd3. Some (Inr (True, nd3\<lparr>nd_bc := (fold erase_alternative alt_chain (nd_bc nd3))\<lparr>m_finalityForkState := no_fork\<rparr>\<rparr>)))))"

section \<open>Blocks that do not extend the tip\<close>

text \<open>
  What \<open>handle_alternative_block\<close> checks of a block whose parent is stored, before it records it:
  the new entry, its branch, and whether it is a checkpoint; or the verdict to report (whether the
  verification failed).
\<close>

definition alternative_entry ::
  "('s, 'k) node_env \<Rightarrow> Block \<Rightarrow> hash \<Rightarrow> hash option \<Rightarrow> (hash \<times> BlockEntry) list \<Rightarrow> Blockchain \<Rightarrow> (bool + BlockEntry \<times> bool) res" where
  "alternative_entry E b i pw branch bc =
     (let t = db_tables bc;
          mainPrevHeight = (case getHashHeight t (previousBlockHash b) of None \<Rightarrow> 0 | Some h \<Rightarrow> h);
          front = snd (hd branch);
          stamps = rev (map (\<lambda>(_, e). timestamp (be_bl e)) branch);
          start = (if branch = [] then Inr (Some mainPrevHeight)
                   else if \<not> be_height front < getChainHeight t then Inr None
                   else case read_block bc (be_height front - 1) of
                     Inl e \<Rightarrow> Inl e
                   | Inr prevBlk \<Rightarrow> Inr (if block_id E prevBlk \<noteq> previousBlockHash (be_bl front) then None else Some (be_height front - 1)))
      in case start of
           Inl e \<Rightarrow> Inl e
         | Inr None \<Rightarrow> Inr (Inl False)
         | Inr (Some topHeight) \<Rightarrow>
             let timestamps = snd (complete_timestamps_vector bc (majorVersion b) (ucast topHeight) stamps);
                 height = (if branch = [] then mainPrevHeight else be_height (snd (last branch))) + 1;
                 (cp_ok, is_a_checkpoint) = check_block (m_checkpoints bc) height i;
                 current_diff = getDifficultyForNextBlock bc (previousBlockHash b);
                 prev_difficulty = (if branch = [] then meta_cumulativeDifficulty (blockMetaOrZero t mainPrevHeight)
                                    else cumulative_difficulty (snd (last branch)))
             in if \<not> check_block_timestamp bc timestamps b then Inr (Inl True)
                else if \<not> cp_ok then Inr (Inl True)
                else if 5 \<le> majorVersion b \<and> getMergeMiningTagFromExtra (extra (baseTransaction b)) \<noteq> None then Inr (Inl False)
                else if current_diff = 0 then Inr (Inl False)
                else if \<not> (case pw of Some p \<Rightarrow> check_hash p current_diff | None \<Rightarrow> checkProofOfWork E b current_diff) then Inr (Inl True)
                else if \<not> prevalidate_miner_transaction bc b height then Inr (Inl True)
                else if \<not> validate_block_signature E b height then Inr (Inl True)
                else if mdb_get i (m_alternative_chains bc) \<noteq> None then Inr (Inl False)
                else Inr (Inr (\<lparr>be_bl = b, be_height = height, block_cumulative_size = 0,
                        cumulative_difficulty = prev_difficulty + current_diff, already_generated_coins = 0, be_transactions = []\<rparr>,
                      is_a_checkpoint)))"

text \<open>The checks before the parent is looked up: the verdict and the chain, which may record a refused fork.\<close>

definition alternative_precheck ::
  "('s, 'k) node_env \<Rightarrow> Block \<Rightarrow> hash \<Rightarrow> block_verification_context \<Rightarrow> Node \<Rightarrow> ((block_verification_context \<times> Blockchain) option) res" where
  "alternative_precheck E b i bvc nd =
     (let bc = nd_bc nd;
          block_height = get_block_height b;
          chainLen = getCurrentBlockchainHeight bc;
          bad = bvc\<lparr>m_verification_failed := True\<rparr>
      in if block_height = 0 then Inr (Some (bad, bc))
         else if \<not> is_alternative_block_allowed (m_checkpoints bc) chainLen block_height then
           (if is_finality_violation (m_checkpoints bc) chainLen block_height then
              (case validateCompetingBlock E bc b of
                 None \<Rightarrow> Inr (Some (bad, bc))
               | Some vh \<Rightarrow> Inr (Some (bad\<lparr>m_finality_fork := True\<rparr>, recordFinalityFork chainLen vh i bc)))
            else Inr (Some (bad, bc)))
         else if \<not> checkBlockVersion bc b then Inr (Some (bad, bc))
         else if \<not> checkParentBlockSize E b then Inr (Some (bad, bc))
         else case getBlockCumulativeSize nd b of
           Inl e \<Rightarrow> Inl e
         | Inr sz \<Rightarrow> Inr (if \<not> checkCumulativeBlockSize bc sz (ucast block_height) then Some (bad, bc) else None))"

text \<open>
  A switch hands the blocks of the old chain to this function again, which may switch in turn; the
  first argument bounds the depth of that nesting, and the run is \<open>None\<close> when it is exceeded.
\<close>

fun handle_alternative_block ::
  "nat \<Rightarrow> ('s, 'k) node_env \<Rightarrow> u64 \<Rightarrow> (hash \<Rightarrow> nat option) \<Rightarrow> Block \<Rightarrow> hash \<Rightarrow> hash option \<Rightarrow> block_verification_context \<Rightarrow> Node \<Rightarrow>
     (bool \<times> block_verification_context \<times> Node) run" where
  "handle_alternative_block 0 E now faults b i pw bvc nd = None"
| "handle_alternative_block (Suc n) E now faults b i pw bvc nd =
     (case alternative_precheck E b i bvc nd of
        Inl e \<Rightarrow> Some (Inl e)
      | Inr (Some (bvc', bc')) \<Rightarrow> Some (Inr (False, bvc', nd\<lparr>nd_bc := bc'\<rparr>))
      | Inr None \<Rightarrow>
          let bc = nd_bc nd; prev = previousBlockHash b in
          if mdb_get prev (m_alternative_chains bc) = None \<and> getHashHeight (db_tables bc) prev = None
          then Some (Inr (True, bvc\<lparr>m_marked_as_orphaned := True\<rparr>, nd))
          else case alt_walk (m_alternative_chains bc) prev [] of
            None \<Rightarrow> None
          | Some branch \<Rightarrow>
              (case alternative_entry E b i pw branch bc of
                 Inl e \<Rightarrow> Some (Inl e)
               | Inr (Inl failed) \<Rightarrow> Some (Inr (False, (if failed then bvc\<lparr>m_verification_failed := True\<rparr> else bvc), nd))
               | Inr (Inr (bei, is_a_checkpoint)) \<Rightarrow>
                   let nd1 = nd\<lparr>nd_bc := bc\<lparr>m_alternative_chains := mdb_put i bei (m_alternative_chains bc),
                                           m_orphanBlocksIndex := m_orphanBlocksIndex bc @ [(be_height bei, i)]\<rparr>\<rparr>;
                       tailMeta = blockMetaOrZero (db_tables bc) (getChainHeight (db_tables bc) - 1)
                   in if is_a_checkpoint \<or> meta_cumulativeDifficulty tailMeta < cumulative_difficulty bei then
                        run_bind (switch_to_alternative_blockchain
                            (\<lambda>old n1. run_bind (handle_alternative_block n E now faults old (block_id E old) None initial_bvc n1)
                                        (\<lambda>(r, _, n2). Some (Inr (r, n2))))
                            E now faults (map fst branch @ [i]) is_a_checkpoint nd1)
                          (\<lambda>(r, nd2). Some (Inr (r, (if r then bvc\<lparr>m_added_to_main_chain := True, m_switched_to_alt_chain := True\<rparr>
                                                    else bvc\<lparr>m_verification_failed := True\<rparr>), nd2)))
                      else Some (Inr (True, bvc, nd1))))"

definition addNewBlock ::
  "nat \<Rightarrow> ('s, 'k) node_env \<Rightarrow> u64 \<Rightarrow> (hash \<Rightarrow> nat option) \<Rightarrow> Block \<Rightarrow> (hash \<times> hash) option \<Rightarrow> block_verification_context \<Rightarrow> Node \<Rightarrow>
     (bool \<times> block_verification_context \<times> Node) run" where
  "addNewBlock n E now faults b prevalidated bvc nd =
     (case get_block_hash (ev_pow E) (ev_parent E b) b of
        None \<Rightarrow> Some (Inr (False, bvc\<lparr>m_verification_failed := True\<rparr>, nd))
      | Some i \<Rightarrow>
          if (case prevalidated of None \<Rightarrow> False | Some (blockHash, _) \<Rightarrow> blockHash \<noteq> i)
          then Some (Inr (False, bvc\<lparr>m_verification_failed := True\<rparr>, nd))
          else if haveBlock (nd_bc nd) i then Some (Inr (False, bvc\<lparr>m_already_exists := True\<rparr>, nd))
          else if previousBlockHash b \<noteq> getTailId (nd_bc nd)
          then handle_alternative_block n E now faults b i (map_option snd prevalidated) (bvc\<lparr>m_added_to_main_chain := False\<rparr>) nd
          else Some (pushBlock_node E now (faults i) b i (map_option snd prevalidated) bvc nd))"

definition resetAndSetGenesisBlock ::
  "nat \<Rightarrow> ('s, 'k) node_env \<Rightarrow> u64 \<Rightarrow> (hash \<Rightarrow> nat option) \<Rightarrow> Block \<Rightarrow> Node \<Rightarrow> (bool \<times> Node) run" where
  "resetAndSetGenesisBlock n E now faults b nd =
     (let bc = nd_bc nd;
          bc1 = (if hasActiveTxn (m_db bc) then bc\<lparr>m_db := abortTxn (m_db bc), m_batchCount := 0, m_batchFastMode := False\<rparr> else bc);
          bc2 = bc1\<lparr>m_db := (m_db bc1)\<lparr>m_env := empty_tables\<rparr>, m_alternative_chains := [], m_orphanBlocksIndex := []\<rparr>
      in run_bind (addNewBlock n E now faults b None initial_bvc (nd\<lparr>nd_bc := bc2\<rparr>))
           (\<lambda>(_, bvc, nd1). Some (Inr (m_added_to_main_chain bvc \<and> \<not> m_verification_failed bvc, nd1))))"

section \<open>What a block off the tip can do\<close>

text \<open>The main chain, the pool and the alternative chains are as before.\<close>

definition untouched :: "Node \<Rightarrow> Node \<Rightarrow> bool" where
  "untouched nd nd' \<longleftrightarrow> m_db (nd_bc nd') = m_db (nd_bc nd) \<and> nd_pool nd' = nd_pool nd \<and>
     m_alternative_chains (nd_bc nd') = m_alternative_chains (nd_bc nd) \<and> m_orphanBlocksIndex (nd_bc nd') = m_orphanBlocksIndex (nd_bc nd) \<and>
     m_checkpoints (nd_bc nd') = m_checkpoints (nd_bc nd) \<and> m_batchCount (nd_bc nd') = m_batchCount (nd_bc nd)"

lemma untouched_refl [simp]: "untouched nd nd"
  by (simp add: untouched_def)

lemma record_untouched [simp]: "untouched nd (nd\<lparr>nd_bc := recordFinalityFork c h i (nd_bc nd)\<rparr>)"
  by (simp add: untouched_def recordFinalityFork_def Let_def)

lemma precheck_refuses:
  assumes "alternative_precheck E b i bvc nd = Inr (Some (bvc', bc'))"
  shows "untouched nd (nd\<lparr>nd_bc := bc'\<rparr>) \<and> m_verification_failed bvc' \<and>
     m_switched_to_alt_chain bvc' = m_switched_to_alt_chain bvc \<and> m_added_to_main_chain bvc' = m_added_to_main_chain bvc"
  using assms by (auto simp: alternative_precheck_def Let_def split: if_splits option.splits sum.splits)

lemma alternative_entry_facts:
  assumes "alternative_entry E b i pw branch bc = Inr (Inr (bei, cp))"
  shows "be_bl bei = b" and "cp = snd (check_block (m_checkpoints bc) (be_height bei) i)"
    and "be_height bei = (if branch = [] then (case getHashHeight (db_tables bc) (previousBlockHash b) of None \<Rightarrow> 0 | Some h \<Rightarrow> h)
           else be_height (snd (last branch))) + 1"
    and "cumulative_difficulty bei = (if branch = [] then meta_cumulativeDifficulty (blockMetaOrZero (db_tables bc)
             (case getHashHeight (db_tables bc) (previousBlockHash b) of None \<Rightarrow> 0 | Some h \<Rightarrow> h))
           else cumulative_difficulty (snd (last branch))) + getDifficultyForNextBlock bc (previousBlockHash b)"
    and "fst (check_block (m_checkpoints bc) (be_height bei) i)" and "prevalidate_miner_transaction bc b (be_height bei)"
    and "validate_block_signature E b (be_height bei)"
    and "pw = None \<longrightarrow> checkProofOfWork E b (getDifficultyForNextBlock bc (previousBlockHash b))"
    and "mdb_get i (m_alternative_chains bc) = None"
  using assms by (auto simp: alternative_entry_def Let_def split: if_splits option.splits sum.splits prod.splits)

definition tip_difficulty :: "Blockchain \<Rightarrow> u64" where
  "tip_difficulty bc = meta_cumulativeDifficulty (blockMetaOrZero (db_tables bc) (getChainHeight (db_tables bc) - 1))"

definition recorded :: "hash \<Rightarrow> BlockEntry \<Rightarrow> Node \<Rightarrow> Node" where
  "recorded i bei nd = nd\<lparr>nd_bc := (nd_bc nd)\<lparr>m_alternative_chains := mdb_put i bei (m_alternative_chains (nd_bc nd)),
     m_orphanBlocksIndex := m_orphanBlocksIndex (nd_bc nd) @ [(be_height bei, i)]\<rparr>\<rparr>"

text \<open>A block off the tip, one level down, through the name of each stage.\<close>

lemma handle_cases:
  assumes "handle_alternative_block (Suc n) E now faults b i pw bvc nd = Some (Inr (r, bvc', nd'))"
  obtains (refused) "\<not> r" "untouched nd nd'" "m_switched_to_alt_chain bvc' = m_switched_to_alt_chain bvc"
  | (orphan) r "nd' = nd" "bvc' = bvc\<lparr>m_marked_as_orphaned := True\<rparr>"
  | (known) branch bei cp where "alternative_precheck E b i bvc nd = Inr None"
      "alt_walk (m_alternative_chains (nd_bc nd)) (previousBlockHash b) [] = Some branch"
      "alternative_entry E b i pw branch (nd_bc nd) = Inr (Inr (bei, cp))"
      "if cp \<or> tip_difficulty (nd_bc nd) < cumulative_difficulty bei
       then bvc' = (if r then bvc\<lparr>m_added_to_main_chain := True, m_switched_to_alt_chain := True\<rparr> else bvc\<lparr>m_verification_failed := True\<rparr>)
       else r \<and> bvc' = bvc \<and> nd' = recorded i bei nd"
proof (cases "alternative_precheck E b i bvc nd")
  case (Inl e)
  then show thesis using assms by simp
next
  case (Inr v)
  show thesis
  proof (cases v)
    case (Some p)
    obtain bvc1 bc1 where p: "p = (bvc1, bc1)" by fastforce
    have "\<not> r" "bvc' = bvc1" "nd' = nd\<lparr>nd_bc := bc1\<rparr>" using assms Inr Some p by simp_all
    then show thesis using refused precheck_refuses [OF Inr [unfolded Some p]] by blast
  next
    case None
    note pre = Inr [unfolded None]
    show thesis
    proof (cases "mdb_get (previousBlockHash b) (m_alternative_chains (nd_bc nd)) = None \<and> getHashHeight (db_tables (nd_bc nd)) (previousBlockHash b) = None")
      case True
      then show thesis using assms pre orphan by simp
    next
      case False
      note run = assms [unfolded handle_alternative_block.simps pre sum.case option.case Let_def if_not_P [OF False]]
      obtain branch where w: "alt_walk (m_alternative_chains (nd_bc nd)) (previousBlockHash b) [] = Some branch"
        using run by (cases "alt_walk (m_alternative_chains (nd_bc nd)) (previousBlockHash b) []") simp_all
      show thesis
      proof (cases "alternative_entry E b i pw branch (nd_bc nd)")
        case (Inl e)
        then show thesis using run w by simp
      next
        case (Inr x)
        show thesis
        proof (cases x)
          case (Inl failed)
          then show thesis using run w Inr refused by (auto split: if_splits)
        next
          case e: (Inr y)
          obtain bei cp where y: "y = (bei, cp)" by fastforce
          show thesis
            using known [OF pre w Inr [unfolded e y]] run [unfolded w Inr e y option.case sum.case prod.case]
            by (auto simp: tip_difficulty_def recorded_def run_bind_Inr split: if_splits)
        qed
      qed
    qed
  qed
qed

section \<open>Branches\<close>

text \<open>Heights grow along the hash links of the alternative blocks.\<close>

definition linked :: "(hash, BlockEntry) table \<Rightarrow> bool" where
  "linked alts \<longleftrightarrow> (\<forall>h e e'. mdb_get h alts = Some e \<and> mdb_get (previousBlockHash (be_bl e)) alts = Some e' \<longrightarrow> be_height e' < be_height e)"

fun is_branch :: "(hash, BlockEntry) table \<Rightarrow> hash \<Rightarrow> (hash \<times> BlockEntry) list \<Rightarrow> bool" where
  "is_branch alts h [] \<longleftrightarrow> mdb_get h alts = None"
| "is_branch alts h ((i, e) # es) \<longleftrightarrow> i = h \<and> mdb_get h alts = Some e \<and> is_branch alts (previousBlockHash (be_bl e)) es"

lemma alt_walk_returns:
  assumes "linked alts"
  shows "\<exists>branch. alt_walk alts h acc = Some (rev branch @ acc) \<and> is_branch alts h branch"
proof (induction "case mdb_get h alts of None \<Rightarrow> 0 | Some e \<Rightarrow> Suc (unat (be_height e))" arbitrary: h acc rule: less_induct)
  case less
  show ?case
  proof (cases "mdb_get h alts")
    case None
    then show ?thesis by (subst alt_walk.simps) (auto intro!: exI [of _ "[]"])
  next
    case (Some e)
    let ?p = "previousBlockHash (be_bl e)"
    have "(case mdb_get ?p alts of None \<Rightarrow> 0 | Some e' \<Rightarrow> Suc (unat (be_height e'))) < Suc (unat (be_height e))"
      using assms Some by (auto simp: linked_def word_less_nat_alt split: option.splits)
    then obtain branch where b: "alt_walk alts ?p ((h, e) # acc) = Some (rev branch @ (h, e) # acc)" "is_branch alts ?p branch"
      using less [of ?p "(h, e) # acc"] Some by auto
    show ?thesis using b Some by (subst alt_walk.simps) (auto intro!: exI [of _ "(h, e) # branch"])
  qed
qed

section \<open>Finality recovery\<close>

lemma resync_rolls_back:
  assumes "txn_ok bc" and "chain_tables (sha3_256 (ev_pq E)) (pw_fast_hash (ev_pow E)) bs (db_tables bc)"
    and "ff_active (m_finalityForkState bc)" and "Suc (unat (divergenceHeight (m_finalityForkState bc))) < length bs"
  shows "\<exists>bc'. resyncToMajority E bc = Some (Inr (True, bc')) \<and> txn_ok bc' \<and> m_finalityForkState bc' = no_fork \<and>
     chain_tables (sha3_256 (ev_pq E)) (pw_fast_hash (ev_pow E)) (take (Suc (unat (divergenceHeight (m_finalityForkState bc)))) bs) (db_tables bc')"
proof -
  let ?d = "divergenceHeight (m_finalityForkState bc)"
  have lt: "length bs < 2 ^ 32" using chain_db_ok [OF assms(2)] by (simp add: db_ok_def)
  have top: "getChainHeight (db_tables bc) - 1 = of_nat (length bs - 1)"
    using assms(4) by (simp add: chain_height [OF assms(2)] of_nat_diff Suc_leI)
  have "unat (of_nat (length bs - 1) :: u32) = length bs - 1" using lt by (intro unat_of_nat_u32) simp
  then have "?d < getChainHeight (db_tables bc) - 1" unfolding top word_less_nat_alt using assms(4) by simp
  moreover have "unat (?d + 1) = Suc (unat ?d)" using assms(4) lt by (subst unat_plus_simple [THEN iffD1]) (simp_all add: word_le_nat_alt unat_word_ariths)
  moreover obtain bc' where "rollbackBlockchainTo E ?d bc = Some (Inr bc')" "txn_ok bc'"
    "chain_tables (sha3_256 (ev_pq E)) (pw_fast_hash (ev_pow E)) (take (unat (?d + 1)) bs) (db_tables bc')"
    using rollback_returns [OF assms(1,2), of ?d] by blast
  ultimately show ?thesis using assms(3) by (simp add: resyncToMajority_def Let_def txn_ok_def)
qed

section \<open>Transactions returned to the pool\<close>

definition returnable :: "Transaction \<Rightarrow> bool" where
  "returnable tx \<longleftrightarrow> check_inputs_types_supported tx \<and>
     (TRANSACTION_VERSION_1 \<le> version tx \<and> isPqTransfer (txType tx) \<or> get_outs_money_amount tx = 0)"

lemma info_frame: "checkInputs_info E tx i b = (r, i', b') \<Longrightarrow> frame b b' \<and> m_db b' = m_db b"
  using checkTransactionInputs_frame [of b E tx AT_TIP]
  by (auto simp: checkInputs_info_def Let_def split: prod.splits if_splits)

definition returned_fee :: "('s, 'k) node_env \<Rightarrow> Blockchain \<Rightarrow> Transaction \<Rightarrow> u64" where
  "returned_fee E bc tx =
     (if TRANSACTION_VERSION_1 \<le> version tx \<and> isPqTransfer (txType tx) \<and> fst (checkInputs_info E tx clear_info bc)
      then the (getPqTransactionFee bc tx) else 0)"

lemma add_tx_kept:
  assumes "returnable tx"
  shows "\<exists>used valid tvc1 bc'. add_tx E now tx txid sz tvc True pool bc =
     (case insert_tx E now tx txid sz (returned_fee E bc tx) used True valid tvc1 pool of (r, tvc', pool') \<Rightarrow> (r, tvc', pool', bc')) \<and>
     frame bc bc' \<and> m_db bc' = m_db bc"
proof -
  obtain v u b where c: "checkInputs_info E tx clear_info bc = (v, u, b)" by (metis prod_cases3)
  have k: "frame bc b" "m_db b = m_db bc" using info_frame [OF c] by simp_all
  have fe: "getPqTransactionFee b tx = getPqTransactionFee bc tx"
    unfolding getPqTransactionFee_def pqReferencedInputAmount_def k(2) by simp
  have so: "v \<and> isPqTransfer (txType tx) \<longrightarrow> getPqTransactionFee bc tx \<noteq> None"
    using valid_fee [of E tx clear_info bc] c by (metis fst_conv option.distinct(1))
  have ty: "check_inputs_types_supported tx" and pq: "\<not> (TRANSACTION_VERSION_1 \<le> version tx \<and> isPqTransfer (txType tx)) \<Longrightarrow> get_outs_money_amount tx = 0"
    using assms by (auto simp: returnable_def)
  show ?thesis
  proof (intro exI conjI)
    show "add_tx E now tx txid sz tvc True pool bc =
      (case insert_tx E now tx txid sz (returned_fee E bc tx) (if v then u else clear_info) True v
          (if v then tvc else tvc\<lparr>m_verifivation_impossible := True\<rparr>) pool of (r, tvc', pool') \<Rightarrow> (r, tvc', pool', b))"
      using so ty pq by (cases v) (auto simp: add_tx_def c fe Let_def get_inputs_money_amount_def returned_fee_def)
  qed (rule k)+
qed

abbreviation tx_hash :: "('s, 'k) node_env \<Rightarrow> Transaction \<Rightarrow> hash" where
  "tx_hash E tx \<equiv> object_hash (pw_fast_hash (ev_pow E)) put_Transaction tx"

lemma add_back_ok:
  assumes ok: "pool_ok (sha3_256 (ev_pq E)) (nd_pool nd)" and len: "Suc (length (m_transactions (nd_pool nd))) < 2 ^ 64"
    and r: "returnable tx" and d: "distinct (spend_images (sha3_256 (ev_pq E)) tx)"
  shows "\<exists>nd'. add_back E now tx nd = (\<not> have_tx (nd_pool nd) (tx_hash E tx), nd') \<and> frame (nd_bc nd) (nd_bc nd') \<and> m_db (nd_bc nd') = m_db (nd_bc nd) \<and>
     pool_ok (sha3_256 (ev_pq E)) (nd_pool nd') \<and>
     (if have_tx (nd_pool nd) (tx_hash E tx) then nd_pool nd' = nd_pool nd
      else \<exists>t. m_transactions (nd_pool nd') = m_transactions (nd_pool nd) @ [t] \<and> td_id t = tx_hash E tx \<and> td_tx t = tx \<and>
             td_fee t = returned_fee E (nd_bc nd) tx)"
proof -
  let ?s = "sha3_256 (ev_pq E)" and ?i = "tx_hash E tx" and ?fee = "returned_fee E (nd_bc nd) tx" and ?sz = "snd (getObjectBinarySize put_Transaction tx)"
  obtain used valid tvc1 bc' where run: "add_tx E now tx ?i ?sz initial_tvc True (nd_pool nd) (nd_bc nd) =
     (case insert_tx E now tx ?i ?sz ?fee used True valid tvc1 (nd_pool nd) of (r, tvc', pool') \<Rightarrow> (r, tvc', pool', bc'))"
     "frame (nd_bc nd) bc'" "m_db bc' = m_db (nd_bc nd)"
    using add_tx_kept [OF r] by blast
  show ?thesis
  proof (cases "have_tx (nd_pool nd) ?i")
    case True
    then have "insert_tx E now tx ?i ?sz ?fee used True valid tvc1 (nd_pool nd) = (False, tvc1, nd_pool nd)" by (simp add: insert_tx_def)
    then show ?thesis using run ok True by (simp add: add_back_def add_tx_hashed_def)
  next
    case False
    show ?thesis
      using insert_tx_ok [OF ok False len d disjI1, of True now ?sz ?fee used valid tvc1] run False
      by (auto simp: add_back_def add_tx_hashed_def)
  qed
qed

lemma have_tx_append: "m_transactions pool' = m_transactions pool @ new \<Longrightarrow> have_tx pool h \<Longrightarrow> have_tx pool' h"
  by (auto simp: have_tx_iff)

lemma saves_ok:
  assumes "pool_ok (sha3_256 (ev_pq E)) (nd_pool nd)" and "length txs + length (m_transactions (nd_pool nd)) < 2 ^ 64"
    and "\<forall>tx \<in> set txs. returnable tx \<and> distinct (spend_images (sha3_256 (ev_pq E)) tx)"
  shows "\<exists>nd' new. fold (\<lambda>tx n. snd (add_back E now tx n)) txs nd = nd' \<and> frame (nd_bc nd) (nd_bc nd') \<and> m_db (nd_bc nd') = m_db (nd_bc nd) \<and>
     pool_ok (sha3_256 (ev_pq E)) (nd_pool nd') \<and> m_transactions (nd_pool nd') = m_transactions (nd_pool nd) @ new \<and>
     (\<forall>tx \<in> set txs. have_tx (nd_pool nd') (tx_hash E tx)) \<and>
     (\<forall>t \<in> set new. td_tx t \<in> set txs \<and> td_id t = tx_hash E (td_tx t) \<and> (\<exists>bc. m_db bc = m_db (nd_bc nd) \<and> td_fee t = returned_fee E bc (td_tx t))) \<and>
     length new \<le> length txs"
  using assms
proof (induction txs arbitrary: nd)
  case (Cons tx txs)
  have hyp: "returnable tx" "distinct (spend_images (sha3_256 (ev_pq E)) tx)" "Suc (length (m_transactions (nd_pool nd))) < 2 ^ 64"
    using Cons.prems(2,3) by simp_all
  obtain nd1 where a: "snd (add_back E now tx nd) = nd1" "frame (nd_bc nd) (nd_bc nd1)" "m_db (nd_bc nd1) = m_db (nd_bc nd)"
     "pool_ok (sha3_256 (ev_pq E)) (nd_pool nd1)"
     and f: "if have_tx (nd_pool nd) (tx_hash E tx) then nd_pool nd1 = nd_pool nd
      else \<exists>t. m_transactions (nd_pool nd1) = m_transactions (nd_pool nd) @ [t] \<and> td_id t = tx_hash E tx \<and> td_tx t = tx \<and>
             td_fee t = returned_fee E (nd_bc nd) tx"
    using add_back_ok [OF Cons.prems(1) hyp(3,1,2), of now] by (auto split: if_splits)
  obtain new1 where n1: "m_transactions (nd_pool nd1) = m_transactions (nd_pool nd) @ new1" "length new1 \<le> 1"
    "\<forall>t \<in> set new1. td_tx t = tx \<and> td_id t = tx_hash E (td_tx t) \<and> td_fee t = returned_fee E (nd_bc nd) tx" "have_tx (nd_pool nd1) (tx_hash E tx)"
    using f by (auto simp: have_tx_iff split: if_splits)
  have "length txs + length (m_transactions (nd_pool nd1)) < 2 ^ 64" using Cons.prems(2) n1(1,2) by simp
  then obtain nd' new where r: "fold (\<lambda>tx n. snd (add_back E now tx n)) txs nd1 = nd'" "frame (nd_bc nd1) (nd_bc nd')" "m_db (nd_bc nd') = m_db (nd_bc nd1)"
     "pool_ok (sha3_256 (ev_pq E)) (nd_pool nd')" "m_transactions (nd_pool nd') = m_transactions (nd_pool nd1) @ new"
     "\<forall>tx \<in> set txs. have_tx (nd_pool nd') (tx_hash E tx)"
     "\<forall>t \<in> set new. td_tx t \<in> set txs \<and> td_id t = tx_hash E (td_tx t) \<and> (\<exists>bc. m_db bc = m_db (nd_bc nd1) \<and> td_fee t = returned_fee E bc (td_tx t))"
     "length new \<le> length txs"
    using Cons.IH [OF a(4)] Cons.prems(3) by auto
  have "\<forall>t \<in> set (new1 @ new). td_tx t \<in> set (tx # txs) \<and> td_id t = tx_hash E (td_tx t) \<and> (\<exists>bc. m_db bc = m_db (nd_bc nd) \<and> td_fee t = returned_fee E bc (td_tx t))"
    using n1(3) r(7) a(3) by auto
  then show ?case
    using a r n1(1,2) frame_trans [OF a(2) r(2)] have_tx_append [OF r(5) n1(4)]
    by (intro exI [of _ nd'] exI [of _ "new1 @ new"]) auto
qed simp

lemma spent_fee_zero:
  assumes "\<forall>p. InPq p \<in> set (inputs tx) \<longrightarrow> hasSpentKey (db_tables bc) (pqNullifier (sha3_256 (ev_pq E)) p)"
  shows "returned_fee E bc tx = 0"
proof (cases "isPqTransfer (txType tx) \<and> fst (checkInputs_info E tx clear_info bc)")
  case True
  then have "fst (checkTransactionInputs E tx AT_TIP bc) \<noteq> None" by (auto simp: checkInputs_info_def Let_def split: prod.splits if_splits)
  then obtain mh where "checkPqInputs (ev_pq E) bc tx = Some mh"
    using True by (auto simp: checkTransactionInputs_def Let_def split: if_splits)
  then obtain ps fee where ps: "inputs tx = map InPq ps" "getPqTransactionFee bc tx = Some fee"
    "(\<Sum>p \<leftarrow> ps. unat (referenced_amount (db_tables bc) p)) = out_total (outputs tx) + unat fee"
    "\<forall>p \<in> set ps. \<not> hasSpentKey (db_tables bc) (pqNullifier (sha3_256 (ev_pq E)) p)"
    by (rule accepted_transfer) blast
  then have "ps = []" using assms by (cases ps) auto
  then show ?thesis using ps(2,3) by (simp add: returned_fee_def unat_eq_zero)
qed (auto simp: returned_fee_def)

lemma read_transactions_map:
  "\<forall>i \<in> set is. map_sum id te_tx (transactionByIndex t h (of_nat i)) = Inr (f i) \<Longrightarrow> read_transactions t h is = Inr (map f is)"
proof (induction "is")
  case (Cons i "is")
  then obtain te where "transactionByIndex t h (of_nat i) = Inr te" "te_tx te = f i"
    by (cases "transactionByIndex t h (of_nat i)") auto
  then show ?case using Cons by simp
qed simp

lemma chain_tip:
  assumes chain: "chain_tables sha3 H (bs @ [(block, bh)]) t"
  shows "getChainHeight t \<noteq> 0" and "blockMetaOrZero t (getChainHeight t - 1) = entry_meta block bh"
    and "read_transactions t (getChainHeight t - 1) [1..<unat (meta_txCount (entry_meta block bh))] = Inr (map te_tx (tl (be_transactions block)))"
    and "tx \<in> te_tx ` set (be_transactions block) \<Longrightarrow> distinct (spend_images sha3 tx) \<and> (\<forall>p. InPq p \<in> set (inputs tx) \<longrightarrow> hasSpentKey t (pqNullifier sha3 p))"
proof -
  have lt: "Suc (length bs) < 2 ^ 32" using chain_db_ok [OF chain] by (simp add: db_ok_def)
  have h: "getChainHeight t = of_nat (Suc (length bs))" using chain_height [OF chain] by simp
  show "getChainHeight t \<noteq> 0" using unat_of_nat_u32 [OF lt] unfolding h by (metis nat.distinct(1) unat_0)
  have top: "getChainHeight t - 1 = of_nat (length bs)" by (simp add: h)
  show "blockMetaOrZero t (getChainHeight t - 1) = entry_meta block bh"
    using chain_block_lookup [OF chain, of "length bs"] unfolding top by (simp add: blockMetaOrZero_def)
  have st: "length (be_transactions block) = Suc (length (transactionHashes (be_bl block)))" "length (be_transactions block) < 2 ^ 16"
    using chain by (auto elim!: chain_snoc_E simp: storable_def)
  have n: "unat (meta_txCount (entry_meta block bh)) = length (be_transactions block)"
    using st(2) by (simp add: entry_meta_def unsigned_of_nat take_bit_nat_eq_self)
  have "read_transactions t (of_nat (length bs)) [1..<length (be_transactions block)] = Inr (map (\<lambda>i. te_tx (be_transactions block ! i)) [1..<length (be_transactions block)])"
    using chain_finds [OF chain, of "length bs"] by (intro read_transactions_map) (auto simp: finds_def)
  moreover have "map (\<lambda>i. te_tx (be_transactions block ! i)) [1..<length (be_transactions block)] = map te_tx (tl (be_transactions block))"
    by (rule nth_equalityI) (simp_all add: nth_tl del: upt_Suc)
  ultimately show "read_transactions t (getChainHeight t - 1) [1..<unat (meta_txCount (entry_meta block bh))] = Inr (map te_tx (tl (be_transactions block)))"
    unfolding top n by simp
  assume "tx \<in> te_tx ` set (be_transactions block)"
  then obtain i where i: "i < length (be_transactions block)" "tx = te_tx (be_transactions block ! i)" by (auto simp: in_set_conv_nth)
  have e: "entry_list H block ! i \<in> set (chain_entries H (bs @ [(block, bh)]))" "tx = te_tx (snd (entry_list H block ! i))"
    using i entry_list_nth(2) [OF st(1), of H] entry_list_nth(3) [OF st(1) i(1), of H] by (simp_all add: chain_entries_snoc)
  then have sub: "set (spend_images sha3 tx) \<subseteq> set (entries_images sha3 (chain_entries H (bs @ [(block, bh)])))"
    by (force simp: entries_images_def case_prod_beta)
  have "distinct (spend_images sha3 tx)"
    using chain_images [OF chain] e by (auto simp: entries_images_def distinct_concat_iff case_prod_beta)
  moreover have "hasSpentKey t (pqNullifier sha3 p)" if "InPq p \<in> set (inputs tx)" for p
  proof -
    have "pqNullifier sha3 p \<in> set (spend_images sha3 tx)"
      using that by (force simp: spend_images_def map_filter_def spendImageForInput_def pqInputNullifierAsKeyImage_def)
    then show ?thesis using chain_images [OF chain] sub by (auto simp: hasSpentKey_def get_None_keys)
  qed
  ultimately show "distinct (spend_images sha3 tx) \<and> (\<forall>p. InPq p \<in> set (inputs tx) \<longrightarrow> hasSpentKey t (pqNullifier sha3 p))" by blast
qed

lemma alternatives_kept [simp]:
  "m_alternative_chains (detector_blockPushed v bc) = m_alternative_chains bc"
  "m_alternative_chains (detector_blockPopped v bc) = m_alternative_chains bc"
  "m_alternative_chains (update_next_cumulative_size_limit bc) = m_alternative_chains bc"
  by (simp_all add: detector_blockPushed_def detector_blockPopped_def update_next_cumulative_size_limit_def Let_def)

lemma remove_last_alternatives: "remove_last E bc = Inr bc' \<Longrightarrow> m_alternative_chains bc' = m_alternative_chains bc"
  by (auto simp: remove_last_def split: sum.splits if_splits)

lemma pop_returns:
  assumes ok: "txn_ok (nd_bc nd)" "m_batchCount (nd_bc nd) = 0"
    and chain: "chain_tables (sha3_256 (ev_pq E)) (pw_fast_hash (ev_pow E)) (bs @ [(block, bh)]) (db_tables (nd_bc nd))"
    and pool: "pool_ok (sha3_256 (ev_pq E)) (nd_pool nd)" "length (be_transactions block) + length (m_transactions (nd_pool nd)) < 2 ^ 64"
    and ret: "\<forall>te \<in> set (tl (be_transactions block)). returnable (te_tx te)"
  shows "\<exists>nd' new. popBlock E now nd = Inr nd' \<and> txn_ok (nd_bc nd') \<and> m_batchCount (nd_bc nd') = 0 \<and>
     chain_tables (sha3_256 (ev_pq E)) (pw_fast_hash (ev_pow E)) bs (db_tables (nd_bc nd')) \<and>
     pool_ok (sha3_256 (ev_pq E)) (nd_pool nd') \<and> m_transactions (nd_pool nd') = m_transactions (nd_pool nd) @ new \<and>
     (\<forall>te \<in> set (tl (be_transactions block)). have_tx (nd_pool nd') (tx_hash E (te_tx te))) \<and>
     (\<forall>t \<in> set new. td_fee t = 0 \<and> td_tx t \<in> te_tx ` set (tl (be_transactions block)) \<and> td_id t = tx_hash E (td_tx t)) \<and>
     length new \<le> length (tl (be_transactions block)) \<and> m_alternative_chains (nd_bc nd') = m_alternative_chains (nd_bc nd)"
proof -
  let ?t = "db_tables (nd_bc nd)" and ?txs = "map te_tx (tl (be_transactions block))"
  note tip = chain_tip [OF chain]
  have sub: "set ?txs \<subseteq> te_tx ` set (be_transactions block)" by (cases "be_transactions block") auto
  have len: "length (rev ?txs) + length (m_transactions (nd_pool nd)) < 2 ^ 64" using pool(2) by simp
  have good: "\<forall>tx \<in> set (rev ?txs). returnable tx \<and> distinct (spend_images (sha3_256 (ev_pq E)) tx)"
    using ret tip(4) sub by auto
  obtain nd1 new where s: "saveTransactions E now ?txs nd = nd1" "frame (nd_bc nd) (nd_bc nd1)" "m_db (nd_bc nd1) = m_db (nd_bc nd)"
     "pool_ok (sha3_256 (ev_pq E)) (nd_pool nd1)" "m_transactions (nd_pool nd1) = m_transactions (nd_pool nd) @ new"
     "\<forall>tx \<in> set (rev ?txs). have_tx (nd_pool nd1) (tx_hash E tx)"
     "\<forall>t \<in> set new. td_tx t \<in> set (rev ?txs) \<and> td_id t = tx_hash E (td_tx t) \<and> (\<exists>bc. m_db bc = m_db (nd_bc nd) \<and> td_fee t = returned_fee E bc (td_tx t))"
     "length new \<le> length (rev ?txs)"
    using saves_ok [OF pool(1) len good, of now] unfolding saveTransactions_def by blast
  have zero: "td_fee t = 0" if "t \<in> set new" for t
  proof -
    obtain bc where "m_db bc = m_db (nd_bc nd)" "td_fee t = returned_fee E bc (td_tx t)" "td_tx t \<in> set ?txs" using s(7) \<open>t \<in> set new\<close> by auto
    then show ?thesis using tip(4) [of "td_tx t"] sub spent_fee_zero [of "td_tx t" bc E] by auto
  qed
  have "txn_ok (nd_bc nd1)" "m_batchCount (nd_bc nd1) = 0" using ok s(2,3) by (simp_all add: txn_ok_def frame_def)
  then obtain bc' where r: "remove_last E (nd_bc nd1) = Inr bc'" "txn_ok bc'" "m_batchCount bc' = 0"
    "chain_tables (sha3_256 (ev_pq E)) (pw_fast_hash (ev_pow E)) bs (db_tables bc')"
    using remove_last_chain [of E bs "(block, bh)" "nd_bc nd1"] chain s(3) by auto
  have "popBlock E now nd = Inr (nd1\<lparr>nd_bc := fold detector_blockPopped [2, 3, 4, 5, 6] bc'\<rparr>)"
    using tip(1) tip(3) s(1) r(1) by (simp add: popBlock_def tip(2) Let_def)
  then show ?thesis
    using r s zero remove_last_alternatives [OF r(1)] by (intro exI [of _ "nd1\<lparr>nd_bc := fold detector_blockPopped [2, 3, 4, 5, 6] bc'\<rparr>"] exI [of _ new]) (auto simp: txn_ok_def frame_def)
qed

section \<open>Taking the transactions of a block\<close>

abbreviation pool_ids :: "tx_memory_pool \<Rightarrow> hash set" where
  "pool_ids pool \<equiv> td_id ` set (m_transactions pool)"

abbreviation pool_txs :: "tx_memory_pool \<Rightarrow> Transaction set" where
  "pool_txs pool \<equiv> td_tx ` set (m_transactions pool)"

text \<open>Entries are stored under their hash and can be added again.\<close>

definition keyed :: "('s, 'k) node_env \<Rightarrow> tx_memory_pool \<Rightarrow> bool" where
  "keyed E pool \<longleftrightarrow> pool_ok (sha3_256 (ev_pq E)) pool \<and> (\<forall>t \<in> set (m_transactions pool). td_id t = tx_hash E (td_tx t) \<and> returnable (td_tx t))"

definition held :: "('s, 'k) node_env \<Rightarrow> Transaction list \<Rightarrow> tx_memory_pool \<Rightarrow> bool" where
  "held E taken pool \<longleftrightarrow> distinct (map (tx_hash E) taken) \<and> tx_hash E ` set taken \<inter> pool_ids pool = {} \<and>
     (\<forall>tx \<in> set taken. returnable tx \<and> distinct (spend_images (sha3_256 (ev_pq E)) tx)) \<and>
     length taken + length (m_transactions pool) < 2 ^ 64"

lemma put_back_ok:
  "keyed E (nd_pool nd) \<Longrightarrow> held E taken (nd_pool nd) \<Longrightarrow>
     \<exists>nd'. put_back E now taken nd = Inr nd' \<and> m_db (nd_bc nd') = m_db (nd_bc nd) \<and> keyed E (nd_pool nd') \<and>
       pool_ids (nd_pool nd') = pool_ids (nd_pool nd) \<union> tx_hash E ` set taken \<and> frame (nd_bc nd) (nd_bc nd') \<and>
       pool_txs (nd_pool nd') \<subseteq> pool_txs (nd_pool nd) \<union> set taken \<and>
       length (m_transactions (nd_pool nd')) = length (m_transactions (nd_pool nd)) + length taken"
proof (induction taken arbitrary: nd)
  case (Cons tx txs)
  have h: "returnable tx" "distinct (spend_images (sha3_256 (ev_pq E)) tx)" "Suc (length (m_transactions (nd_pool nd))) < 2 ^ 64"
    "\<not> have_tx (nd_pool nd) (tx_hash E tx)" "pool_ok (sha3_256 (ev_pq E)) (nd_pool nd)"
    using Cons.prems by (auto simp: held_def keyed_def have_tx_iff)
  obtain nd1 t where a: "add_back E now tx nd = (True, nd1)" "frame (nd_bc nd) (nd_bc nd1)" "m_db (nd_bc nd1) = m_db (nd_bc nd)" "pool_ok (sha3_256 (ev_pq E)) (nd_pool nd1)"
    "m_transactions (nd_pool nd1) = m_transactions (nd_pool nd) @ [t]" "td_id t = tx_hash E tx" "td_tx t = tx"
    using add_back_ok [OF h(5,3,1,2), of now] h(4) by auto
  have "keyed E (nd_pool nd1)" "held E txs (nd_pool nd1)"
    using Cons.prems a h(1) by (auto simp: keyed_def held_def)
  then show ?case using Cons.IH [of nd1] a by (auto intro: frame_trans)
qed simp

lemma take_tx_facts:
  assumes "keyed E pool"
  shows "take_tx E h pool = (None, pool) \<and> h \<notin> pool_ids pool \<or>
     (\<exists>t. t \<in> set (m_transactions pool) \<and> td_id t = h \<and> take_tx E h pool = (Some (td_tx t, blobSize t, td_fee t), removeTransaction E t pool) \<and>
        keyed E (removeTransaction E t pool) \<and> pool_ids (removeTransaction E t pool) = pool_ids pool - {h} \<and>
        pool_txs (removeTransaction E t pool) \<subseteq> pool_txs pool \<and>
        length (m_transactions (removeTransaction E t pool)) < length (m_transactions pool))"
proof (cases "find_tx h pool")
  case None
  then have "h \<notin> pool_ids pool" by (auto simp: find_tx_def find_None_iff)
  then show ?thesis using None by (simp add: take_tx_def)
next
  case (Some t)
  then have t: "t \<in> set (m_transactions pool)" "td_id t = h" by (auto simp: find_tx_def find_Some_iff)
  have ok: "pool_ok (sha3_256 (ev_pq E)) pool" using assms by (simp add: keyed_def)
  note r = removeTransaction_ok [OF ok t(1)]
  have "length (filter (\<lambda>u. td_id u \<noteq> td_id t) (m_transactions pool)) < length (m_transactions pool)"
    using t by (intro length_filter_less [of t]) simp_all
  moreover have "keyed E (removeTransaction E t pool)" using assms r by (simp add: keyed_def)
  moreover have "pool_ids (removeTransaction E t pool) = pool_ids pool - {h}" using r(2) t(2) by auto
  moreover have "take_tx E h pool = (Some (td_tx t, blobSize t, td_fee t), removeTransaction E t pool)" by (simp add: take_tx_def Some)
  moreover have "pool_txs (removeTransaction E t pool) \<subseteq> pool_txs pool" using r(2) by auto
  ultimately show ?thesis using t r(2) by (intro disjI2 exI [of _ t]) simp
qed

text \<open>
  The outcome for the ids \<open>hs\<close> after \<open>taken\<close>: all of them, in order, are taken from the pool, or the
  pool has the same ids as before.
\<close>

definition loads ::
  "('s, 'k) node_env \<Rightarrow> hash list \<Rightarrow> Transaction list \<Rightarrow> tx_memory_pool \<Rightarrow> tx_memory_pool \<Rightarrow> Transaction list option \<Rightarrow> bool" where
  "loads E hs taken p p' res \<longleftrightarrow> keyed E p' \<and> pool_txs p' \<subseteq> pool_txs p \<union> set taken \<and>
     (case res of
        None \<Rightarrow> pool_ids p' = pool_ids p \<union> tx_hash E ` set taken \<and> \<not> (set hs \<subseteq> pool_ids p \<and> distinct hs) \<and>
          length (m_transactions p') \<le> length (m_transactions p) + length taken
      | Some txs \<Rightarrow> map (tx_hash E) txs = map (tx_hash E) (rev taken) @ hs \<and> pool_ids p' = pool_ids p - set hs \<and>
          set hs \<subseteq> pool_ids p \<and> distinct hs \<and> set txs \<subseteq> pool_txs p \<union> set taken \<and>
          length (m_transactions p') + length txs \<le> length (m_transactions p) + length taken)"

lemma subset_absorb: "A' \<subseteq> A1 \<union> insert x T \<Longrightarrow> A1 \<subseteq> A \<Longrightarrow> x \<in> A \<Longrightarrow> A' \<subseteq> A \<union> T"
  by blast

lemma diff_insert_ids:
  assumes "I1 = I - {h}" and "h \<in> I"
  shows "I1 \<union> insert h J = I \<union> J" and "set hs \<subseteq> I1 \<and> distinct hs \<longleftrightarrow> set (h # hs) \<subseteq> I \<and> distinct (h # hs)"
    and "I1 - set hs = I - set (h # hs)"
  using assms by auto

lemma loads_step:
  assumes "loads E hs (td_tx t # taken) p1 p' res" and "pool_ids p1 = pool_ids p - {td_id t}" and "td_id t = tx_hash E (td_tx t)"
    and "t \<in> set (m_transactions p)" and "pool_txs p1 \<subseteq> pool_txs p" and "length (m_transactions p1) < length (m_transactions p)"
    and "h = td_id t"
  shows "loads E (h # hs) taken p p' res"
proof -
  have m: "td_tx t \<in> pool_txs p" "h \<in> pool_ids p" using assms(4,7) by auto
  have ids: "pool_ids p1 = pool_ids p - {h}" using assms(2,7) by simp
  note d = diff_insert_ids [OF ids m(2)]
  have "pool_txs p' \<subseteq> pool_txs p1 \<union> insert (td_tx t) (set taken)" using assms(1) by (simp add: loads_def)
  then have k: "keyed E p'" "pool_txs p' \<subseteq> pool_txs p \<union> set taken"
    using assms(1) subset_absorb [OF _ assms(5) m(1)] by (simp_all add: loads_def)
  show ?thesis
  proof (cases res)
    case None
    then have "pool_ids p' = pool_ids p1 \<union> insert h (tx_hash E ` set taken)" "\<not> (set hs \<subseteq> pool_ids p1 \<and> distinct hs)"
      "length (m_transactions p') \<le> length (m_transactions p1) + Suc (length taken)"
      using assms(1,3,7) by (simp_all add: loads_def)
    then show ?thesis using k None assms(6) unfolding d by (simp add: loads_def)
  next
    case (Some txs)
    then have f: "map (tx_hash E) txs = map (tx_hash E) (rev taken) @ h # hs" "pool_ids p' = pool_ids p1 - set hs"
      "set hs \<subseteq> pool_ids p1 \<and> distinct hs" "set txs \<subseteq> pool_txs p1 \<union> insert (td_tx t) (set taken)"
      "length (m_transactions p') + length txs \<le> length (m_transactions p1) + Suc (length taken)"
      using assms(1,3,7) by (simp_all add: loads_def)
    then show ?thesis using k assms(6) Some subset_absorb [OF f(4) assms(5) m(1)] unfolding d by (simp add: loads_def)
  qed
qed

lemma load_ok:
  "keyed E (nd_pool nd) \<Longrightarrow> held E taken (nd_pool nd) \<Longrightarrow>
     \<exists>res nd'. load_loop E now hs taken nd = Inr (res, nd') \<and> m_db (nd_bc nd') = m_db (nd_bc nd) \<and> frame (nd_bc nd) (nd_bc nd') \<and>
       loads E hs taken (nd_pool nd) (nd_pool nd') res"
proof (induction hs arbitrary: taken nd)
  case (Cons h hs)
  show ?case
  proof (cases "h \<in> pool_ids (nd_pool nd)")
    case False
    then have "take_tx E h (nd_pool nd) = (None, nd_pool nd)" using take_tx_facts [OF Cons.prems(1), of h] by auto
    then show ?thesis using put_back_ok [OF Cons.prems, of now] False by (auto simp: loads_def)
  next
    case True
    then obtain t where t: "t \<in> set (m_transactions (nd_pool nd))" "td_id t = h"
      "take_tx E h (nd_pool nd) = (Some (td_tx t, blobSize t, td_fee t), removeTransaction E t (nd_pool nd))"
      "keyed E (removeTransaction E t (nd_pool nd))" "pool_ids (removeTransaction E t (nd_pool nd)) = pool_ids (nd_pool nd) - {h}"
      "pool_txs (removeTransaction E t (nd_pool nd)) \<subseteq> pool_txs (nd_pool nd)"
      "length (m_transactions (removeTransaction E t (nd_pool nd))) < length (m_transactions (nd_pool nd))"
      using take_tx_facts [OF Cons.prems(1), of h] by auto
    define nd1 where "nd1 = nd\<lparr>nd_pool := removeTransaction E t (nd_pool nd)\<rparr>"
    have nd1: "nd_bc nd1 = nd_bc nd" "nd_pool nd1 = removeTransaction E t (nd_pool nd)" by (simp_all add: nd1_def)
    have k: "td_id t = tx_hash E (td_tx t)" "returnable (td_tx t)" "distinct (spend_images (sha3_256 (ev_pq E)) (td_tx t))"
      using Cons.prems(1) t(1) by (auto simp: keyed_def pool_ok_def Let_def)
    have "held E (td_tx t # taken) (nd_pool nd1)"
      using Cons.prems(2) k t(2,5,7) True unfolding nd1 by (auto simp: held_def)
    then obtain res nd' where r: "load_loop E now hs (td_tx t # taken) nd1 = Inr (res, nd')"
      "m_db (nd_bc nd') = m_db (nd_bc nd)" "frame (nd_bc nd) (nd_bc nd')" "loads E hs (td_tx t # taken) (nd_pool nd1) (nd_pool nd') res"
      using Cons.IH [of nd1 "td_tx t # taken"] t(4) by (auto simp: nd1)
    have "loads E (h # hs) taken (nd_pool nd) (nd_pool nd') res"
      using t k(1) by (intro loads_step [OF r(4) _ k(1) t(1)]) (simp_all add: nd1)
    then show ?thesis using t(3) r(1-3) by (auto simp: nd1_def)
  qed
qed (auto simp: loads_def)

section \<open>Properties of the node\<close>

lemma precheck_allowed:
  "alternative_precheck E b i bvc nd = Inr None \<Longrightarrow>
     get_block_height b \<noteq> 0 \<and> is_alternative_block_allowed (m_checkpoints (nd_bc nd)) (getCurrentBlockchainHeight (nd_bc nd)) (get_block_height b)"
  by (auto simp: alternative_precheck_def Let_def split: if_splits option.splits sum.splits)


text \<open>A node with an empty pool, and a block at height 5 whose parent it does not know.\<close>

definition idle_node :: "Blockchain \<Rightarrow> Node" where
  "idle_node bc = \<lparr>nd_bc = bc, nd_pool = empty_pool\<rparr>"

definition far_block :: Block where
  "far_block = (first_block [])\<lparr>previousBlockHash := replicate 32 1, baseTransaction := sample_coinbase\<lparr>inputs := [InBase \<lparr>blockIndex = 5\<rparr>]\<rparr>\<rparr>"

lemma far_block_simps [simp]: "previousBlockHash far_block = replicate 32 1" "transactionHashes far_block = []" "majorVersion far_block = 1"
  "get_block_height far_block = 5" "baseTransaction far_block = sample_coinbase\<lparr>inputs := [InBase \<lparr>blockIndex = 5\<rparr>]\<rparr>"
  by (simp_all add: far_block_def get_block_height_def sample_coinbase_def)

lemma far_block_hash: "\<exists>i. get_block_hash (ev_pow sample_env) (ev_parent sample_env far_block) far_block = Some i"
proof -
  have "header_ok far_block"
    by (simp add: far_block_def first_block_def sample_stored_def header_ok_def BLOCK_MAJOR_VERSION_1_def BLOCK_MAJOR_VERSION_8_def size_defs)
  then show ?thesis using hashing_blob_Some [of far_block "pw_fast_hash (ev_pow sample_env)"]
    by (auto simp: get_block_hash_def version_defs)
qed

lemma far_block_orphan:
  "addNewBlock 1 sample_env now faults far_block None initial_bvc (idle_node sample_node)
     = Some (Inr (True, initial_bvc\<lparr>m_added_to_main_chain := False, m_marked_as_orphaned := True\<rparr>, idle_node sample_node))"
proof -
  obtain i where i: "get_block_hash (ev_pow sample_env) (ev_parent sample_env far_block) far_block = Some i" using far_block_hash by blast
  have "checkBlockVersion sample_node far_block"
    using version_one [of sample_node "sample_block 0" "[]" 5] by (simp add: checkBlockVersion_def)
  moreover have "checkParentBlockSize sample_env far_block" by (simp add: checkParentBlockSize_def version_defs)
  moreover have "checkCumulativeBlockSize sample_node (snd (getObjectBinarySize put_Transaction (sample_coinbase\<lparr>inputs := [InBase \<lparr>blockIndex = 5\<rparr>]\<rparr>))) 5"
    by (simp add: checkCumulativeBlockSize_def maxBlockCumulativeSize_def default_currency_def builder_plain_def config_simps
        getObjectBinarySize_def sample_coinbase_def sample_bytes)
  moreover have "is_alternative_block_allowed [] 0 5"
    by (simp add: is_alternative_block_allowed_def violation_iff)
  ultimately have "alternative_precheck sample_env far_block i bvc (idle_node sample_node) = Inr None" for bvc
    by (simp add: alternative_precheck_def idle_node_def getCurrentBlockchainHeight_def getBlockCumulativeSize_def Let_def List.map_filter_def)
  then show ?thesis
    by (simp add: addNewBlock_def i idle_node_def haveBlock_def getTailId_def NULL_HASH_def size_defs) (simp add: sample_node_def)
qed


text \<open>
  C12.  The finality limit protects the chain.  A block off the tip whose height is more than 10
  below the chain and above the last checkpoint is refused whatever work its branch has: the
  database, the pool and the alternative chains stay as they are, and the sender is told that the
  verification failed or the block is known.  A fork is reported only for a block that passes the
  structural checks and the proof of work.
\<close>

theorem finality_protects:
  assumes "0 < n" and "previousBlockHash b \<noteq> getTailId (nd_bc nd)" and "get_block_height b \<noteq> 0"
    and "is_finality_violation (m_checkpoints (nd_bc nd)) (getCurrentBlockchainHeight (nd_bc nd)) (get_block_height b)"
  shows "\<exists>bvc' nd'. addNewBlock n E now faults b prevalidated bvc nd = Some (Inr (False, bvc', nd')) \<and> untouched nd nd' \<and>
     (m_verification_failed bvc' \<or> m_already_exists bvc') \<and> m_switched_to_alt_chain bvc' = m_switched_to_alt_chain bvc \<and>
     (m_finality_fork bvc' \<longrightarrow> m_finality_fork bvc \<or> validateCompetingBlock E (nd_bc nd) b \<noteq> None \<and> ff_active (m_finalityForkState (nd_bc nd')))"
proof -
  obtain m where n: "n = Suc m" using assms(1) by (cases n) simp_all
  have "\<not> is_alternative_block_allowed (m_checkpoints (nd_bc nd)) (getCurrentBlockchainHeight (nd_bc nd)) (get_block_height b)"
    using assms(3,4) by (simp add: is_alternative_block_allowed_def)
  then have "\<exists>bvc1 bc1. alternative_precheck E b i w nd = Inr (Some (bvc1, bc1)) \<and>
      (m_finality_fork bvc1 \<longrightarrow> m_finality_fork w \<or> validateCompetingBlock E (nd_bc nd) b \<noteq> None \<and> ff_active (m_finalityForkState bc1))" for i w
    using assms(3,4) by (auto simp: alternative_precheck_def recordFinalityFork_def Let_def split: option.splits)
  then have h: "\<exists>bvc' nd'. handle_alternative_block n E now faults b i pw w nd = Some (Inr (False, bvc', nd')) \<and> untouched nd nd' \<and>
     m_verification_failed bvc' \<and> m_switched_to_alt_chain bvc' = m_switched_to_alt_chain w \<and>
     (m_finality_fork bvc' \<longrightarrow> m_finality_fork w \<or> validateCompetingBlock E (nd_bc nd) b \<noteq> None \<and> ff_active (m_finalityForkState (nd_bc nd')))" for i pw w
    using precheck_refuses [of E b i w nd] unfolding n by fastforce
  show ?thesis
  proof (cases "get_block_hash (ev_pow E) (ev_parent E b) b")
    case (Some i)
    obtain bvc' nd' where "handle_alternative_block n E now faults b i (map_option snd prevalidated) (bvc\<lparr>m_added_to_main_chain := False\<rparr>) nd
         = Some (Inr (False, bvc', nd'))" "untouched nd nd'" "m_verification_failed bvc'" "m_switched_to_alt_chain bvc' = m_switched_to_alt_chain bvc"
      "m_finality_fork bvc' \<longrightarrow> m_finality_fork bvc \<or> validateCompetingBlock E (nd_bc nd) b \<noteq> None \<and> ff_active (m_finalityForkState (nd_bc nd'))"
      using h [of i "map_option snd prevalidated" "bvc\<lparr>m_added_to_main_chain := False\<rparr>"] by auto
    then show ?thesis using assms(2) Some by (simp add: addNewBlock_def split: option.splits)
  qed (simp add: addNewBlock_def)
qed

text \<open>A node whose database ends at height 19.\<close>

definition tall_node :: Node where
  "tall_node = idle_node (sample_node\<lparr>m_db := (m_db sample_node)\<lparr>m_env := putBlockMeta 19 (entry_meta sample_stored (replicate 32 5)) empty_tables\<rparr>\<rparr>)"

lemma tall_node_facts: "getTailId (nd_bc tall_node) = replicate 32 5" "getCurrentBlockchainHeight (nd_bc tall_node) = 20" "m_checkpoints (nd_bc tall_node) = []"
proof -
  have t: "db_tables (nd_bc tall_node) = putBlockMeta 19 (entry_meta sample_stored (replicate 32 5)) empty_tables"
    by (simp add: tall_node_def idle_node_def sample_node_def readTxn_def)
  have h: "getChainHeight (db_tables (nd_bc tall_node)) = 20"
    unfolding t by (simp add: getChainHeight_def putBlockMeta_def empty_tables_def mdb_last_def decBE32_enc [of _ "[]", simplified])
  have m: "getBlockMeta (db_tables (nd_bc tall_node)) 19 = Some (entry_meta sample_stored (replicate 32 5))"
    unfolding t using meta_round_trip [OF entry_meta_ok [OF sample_storable]] by (simp add: getBlockMeta_def putBlockMeta_def empty_tables_def)
  show "getTailId (nd_bc tall_node) = replicate 32 5"
    using m by (simp add: getTailId_def h blockMetaOrZero_def entry_meta_def)
  show "getCurrentBlockchainHeight (nd_bc tall_node) = 20" by (simp add: getCurrentBlockchainHeight_def h)
  show "m_checkpoints (nd_bc tall_node) = []" by (simp add: tall_node_def idle_node_def sample_node_def)
qed

lemma finality_protects_witness:
  "\<exists>bvc' nd'. addNewBlock 1 sample_env 0 (\<lambda>_. None) far_block None initial_bvc tall_node = Some (Inr (False, bvc', nd')) \<and> untouched tall_node nd'"
proof -
  have "is_finality_violation [] 20 5" by (simp add: violation_iff is_in_checkpoint_zone_def mdb_last_def)
  then show ?thesis
    using finality_protects [of 1 far_block tall_node sample_env 0 "\<lambda>_. None" None initial_bvc] tall_node_facts by (auto simp: replicate_eq_replicate)
qed

text \<open>
  C25.  Taking the tip off hands its transactions back without their fees.  On a node whose tables
  represent a chain, \<open>popBlock\<close> always succeeds, the tables then represent the chain without its
  last block, and every transaction of that block is in the pool, whose invariant holds.  But every
  entry this adds has fee zero: the transactions are put back while the chain still holds their
  nullifiers, so their inputs do not check out and the fee is not computed, whatever they pay.
\<close>

theorem popped_transactions_have_no_fee:
  assumes "txn_ok (nd_bc nd)" and "m_batchCount (nd_bc nd) = 0"
    and "chain_tables (sha3_256 (ev_pq E)) (pw_fast_hash (ev_pow E)) (bs @ [(block, bh)]) (db_tables (nd_bc nd))"
    and "pool_ok (sha3_256 (ev_pq E)) (nd_pool nd)" and "length (be_transactions block) + length (m_transactions (nd_pool nd)) < 2 ^ 64"
    and "\<forall>te \<in> set (tl (be_transactions block)). returnable (te_tx te)"
  shows "\<exists>nd' new. popBlock E now nd = Inr nd' \<and>
     chain_tables (sha3_256 (ev_pq E)) (pw_fast_hash (ev_pow E)) bs (db_tables (nd_bc nd')) \<and>
     pool_ok (sha3_256 (ev_pq E)) (nd_pool nd') \<and> m_transactions (nd_pool nd') = m_transactions (nd_pool nd) @ new \<and>
     (\<forall>te \<in> set (tl (be_transactions block)). have_tx (nd_pool nd') (object_hash (pw_fast_hash (ev_pow E)) put_Transaction (te_tx te))) \<and>
     (\<forall>t \<in> set new. td_fee t = 0)"
  using pop_returns [OF assms, of now] by blast

definition sample_tip :: Node where
  "sample_tip = idle_node (sample_node\<lparr>m_db := (m_db sample_node)\<lparr>m_env := sample_tables\<rparr>\<rparr>)"

lemma sample_tip_facts: "txn_ok (nd_bc sample_tip)" "m_batchCount (nd_bc sample_tip) = 0" "db_tables (nd_bc sample_tip) = sample_tables"
  "nd_pool sample_tip = empty_pool"
  by (simp_all add: sample_tip_def idle_node_def txn_ok_def sample_node_def hasActiveTxn_def readTxn_def)

lemma popped_transactions_have_no_fee_witness:
  "\<exists>nd' t. popBlock sample_env 5 sample_tip = Inr nd' \<and> t \<in> set (m_transactions (nd_pool nd')) \<and> td_fee t = 0 \<and>
     td_id t = object_hash toy_sha3 put_Transaction sample_tx"
proof -
  have ret: "returnable sample_tx"
    by (simp add: returnable_def sample_tx_def check_inputs_types_supported_def TRANSACTION_VERSION_1_def isPqTransfer_def TX_PQ_def)
  have tl: "tl (be_transactions sample_stored) = [\<lparr>te_tx = sample_tx, m_global_output_indexes = []\<rparr>]" "length (be_transactions sample_stored) = 2"
    by (simp_all add: sample_stored_def)
  obtain nd' new where "popBlock sample_env 5 sample_tip = Inr nd'" "have_tx (nd_pool nd') (object_hash toy_sha3 put_Transaction sample_tx)"
    "m_transactions (nd_pool nd') = new" "\<forall>t \<in> set new. td_fee t = 0"
    using popped_transactions_have_no_fee [of sample_tip sample_env "[]" sample_stored "replicate 32 5" 5] sample_chain sample_tip_facts empty_pool_ok
    by (auto simp: tl ret empty_pool_def)
  then show ?thesis by (auto simp: have_tx_iff)
qed

text \<open>
  C26.  Adopting the majority chain can leave the node on its own branch.  The divergence height that
  a refused block records is one below the block, also when the block's parent is itself on an
  alternative branch and not on the main chain.  \<open>resyncToMajority\<close> then succeeds and clears the
  recorded fork, but rolls back only to that height: the chain keeps as many of its own blocks as
  the refused block has ancestors, and its tip is not the parent of the refused block, so the
  competing chain still does not attach.
\<close>

theorem resync_keeps_minority:
  assumes "txn_ok bc" and "chain_tables (sha3_256 (ev_pq E)) (pw_fast_hash (ev_pow E)) bs (db_tables bc)"
    and "\<not> ff_active (m_finalityForkState bc)" and "mdb_get (previousBlockHash b) (m_alternative_chains bc) = Some e"
    and "getHashHeight (db_tables bc) (previousBlockHash b) = None" and "Suc (unat (be_height e)) < length bs"
  shows "\<exists>bc'. resyncToMajority E (recordFinalityFork (getCurrentBlockchainHeight bc) (be_height e + 1) i bc) = Some (Inr (True, bc')) \<and>
     m_finalityForkState bc' = no_fork \<and>
     chain_tables (sha3_256 (ev_pq E)) (pw_fast_hash (ev_pow E)) (take (Suc (unat (be_height e))) bs) (db_tables bc') \<and>
     getTailId bc' \<noteq> previousBlockHash b"
proof -
  let ?bc = "recordFinalityFork (getCurrentBlockchainHeight bc) (be_height e + 1) i bc" and ?bs = "take (Suc (unat (be_height e))) bs"
  have r: "m_db ?bc = m_db bc" "m_batchCount ?bc = m_batchCount bc" "ff_active (m_finalityForkState ?bc)"
    "divergenceHeight (m_finalityForkState ?bc) = be_height e"
    using assms(3) by (simp_all add: recordFinalityFork_def Let_def)
  have "txn_ok ?bc" using assms(1) r(1,2) by (simp add: txn_ok_def)
  then obtain bc' where bc': "resyncToMajority E ?bc = Some (Inr (True, bc'))" "m_finalityForkState bc' = no_fork"
    "chain_tables (sha3_256 (ev_pq E)) (pw_fast_hash (ev_pow E)) ?bs (db_tables bc')"
    using resync_rolls_back [of ?bc E bs] assms(2,6) r by auto
  have "?bs \<noteq> []" using assms(6) by auto
  then have "getTailId bc' \<in> snd ` set bs" using tail_id [OF bc'(3)] by (metis image_eqI in_set_takeD last_in_set)
  moreover have "previousBlockHash b \<notin> snd ` set bs"
    using assms(5) chain_hash_keys [OF assms(2)] by (simp add: getHashHeight_def get_None_keys)
  ultimately show ?thesis using bc' by metis
qed

text \<open>Blocks without transactions, to make the sample chain longer.\<close>

definition next_coinbase :: "nat \<Rightarrow> Transaction" where
  "next_coinbase k = sample_coinbase\<lparr>inputs := [InBase \<lparr>blockIndex = of_nat k\<rparr>],
     outputs := [\<lparr>amount = 900, outUnlockHeight = 0, target = OutCoinbase \<lparr>cbSpendCommit = replicate 32 (of_nat k)\<rparr>\<rparr>]\<rparr>"

definition next_stored :: "nat \<Rightarrow> BlockEntry" where
  "next_stored k = sample_stored\<lparr>be_bl := (be_bl sample_stored)\<lparr>previousBlockHash := replicate 32 (of_nat (4 + k)), baseTransaction := next_coinbase k, transactionHashes := []\<rparr>,
     be_height := of_nat k, cumulative_difficulty := of_nat (Suc k), already_generated_coins := of_nat (900 * Suc k), be_transactions := [new_entry (next_coinbase k)]\<rparr>"

lemma next_coinbase_facts:
  assumes "k = 1 \<or> k = 2"
  shows "tx_ok (next_coinbase k)" "length (object_bytes put_Transaction (next_coinbase k)) < 2 ^ 32"
    "account_of sha3 (next_coinbase k) = None" "spend_images sha3 (next_coinbase k) = []"
    "rev (object_bytes put_Transaction (next_coinbase k)) ! 20 = of_nat k" "20 < length (object_bytes put_Transaction (next_coinbase k))"
  using assms sample_coinbase_ok sample_extra(1)
  by (elim disjE; simp add: next_coinbase_def sample_coinbase_def tx_ok_def prefix_ok_def inputs_ok_def container_ok_def strip_def
      raw_input_ok_def target_ok_def ref_resolved_def pqCount_def size_defs less_Suc_eq sample_bytes account_of_def
      spend_images_def spendImageForInput_def map_filter_def pqInputNullifierAsKeyImage_def nth_append rev_nth)+

lemma toy_hash_nth:
  assumes "tx_ok tx" and "20 < length (object_bytes put_Transaction tx)"
  shows "object_hash toy_sha3 put_Transaction tx ! 20 = rev (object_bytes put_Transaction tx) ! 20"
  using assms by (simp add: object_hash_def tx_codec.getObjectHash_ok toy_sha3_def nth_append flip: object_bytes_def)

lemma store_block_indices:
  assumes "store_block sha3 H block bh t = Some t'"
  obtains t1 where "push_entries sha3 (be_height block) 0 (entry_list H block) t = (True, t1)" and "tx_indices t' = tx_indices t1"
  using assms by (auto elim!: store_block_cases)

lemma sample_index_keys: "keys (tx_indices sample_tables) = {object_hash toy_sha3 put_Transaction sample_coinbase, replicate 32 77}"
proof -
  have "keys (tx_indices empty_tables) = {}" by (simp add: empty_tables_def keys_def)
  then have p: "keys (tx_indices t1) = {object_hash toy_sha3 put_Transaction sample_coinbase, replicate 32 77}"
    if "push_entries toy_sha3 (be_height sample_stored) 0 (entry_list toy_sha3 sample_stored) empty_tables = (True, t1)" for t1
    using that by (auto simp: entry_list_def sample_stored_def push_entries_Cons_True push_entry_True)
  show ?thesis using sample_stores by (rule store_block_indices) (simp add: p)
qed

lemma next_block:
  assumes k: "k = 1 \<or> k = 2" and chain: "chain_tables toy_sha3 toy_sha3 bs t" "length bs = k" "replicate 32 (of_nat (5 + k)) \<notin> snd ` set bs"
    and fresh: "\<forall>h \<in> keys (tx_indices t). h ! 20 \<noteq> of_nat k"
  shows "\<exists>t'. chain_tables toy_sha3 toy_sha3 (bs @ [(next_stored k, replicate 32 (of_nat (5 + k)))]) t' \<and>
     keys (tx_indices t') = insert (object_hash toy_sha3 put_Transaction (next_coinbase k)) (keys (tx_indices t))"
proof -
  let ?h = "object_hash toy_sha3 put_Transaction (next_coinbase k)"
  note c = next_coinbase_facts [OF k]
  have st: "storable toy_sha3 k (next_stored k) (replicate 32 (of_nat (5 + k)))"
    using sample_storable c(1-3) k
    by (auto simp: storable_def next_stored_def sample_stored_def block_ok_def header_ok_def size_defs container_ok_def entry_fits_def)
      (simp_all add: next_coinbase_def sample_coinbase_def)
  have "?h \<notin> keys (tx_indices t)" using fresh toy_hash_nth [OF c(1,6)] c(5) by metis
  then obtain t1 where p: "push_entries toy_sha3 (be_height (next_stored k)) 0 (entry_list toy_sha3 (next_stored k)) t = (True, t1)"
    "keys (tx_indices t1) = insert ?h (keys (tx_indices t))"
    using c(3,4) by (simp add: entry_list_def next_stored_def push_entries_Cons_True push_entry_True slot_account_def)
  then obtain t' where t': "store_block toy_sha3 toy_sha3 (next_stored k) (replicate 32 (of_nat (5 + k))) t = Some t'"
    by (auto simp: store_block_Some)
  have "keys (tx_indices t') = insert ?h (keys (tx_indices t))"
    using t' by (rule store_block_indices) (simp add: p)
  then show ?thesis using chain_store [OF chain(1) _ chain(3) t'] st chain(2) by auto
qed

lemma three_blocks: "\<exists>t. chain_tables toy_sha3 toy_sha3 [(sample_stored, replicate 32 5), (next_stored 1, replicate 32 6), (next_stored 2, replicate 32 7)] t"
proof -
  have s: "object_hash toy_sha3 put_Transaction sample_coinbase ! 20 = 9"
  proof -
    have "rev (object_bytes put_Transaction sample_coinbase) ! 20 = 9" "20 < length (object_bytes put_Transaction sample_coinbase)"
      by (simp_all add: sample_coinbase_def sample_bytes nth_append rev_nth)
    then show ?thesis using toy_hash_nth [OF sample_coinbase_ok] by simp
  qed
  have n: "object_hash toy_sha3 put_Transaction (next_coinbase 1) ! 20 = 1"
    using toy_hash_nth next_coinbase_facts [of 1] by simp
  obtain t1 where t1: "chain_tables toy_sha3 toy_sha3 [(sample_stored, replicate 32 5), (next_stored 1, replicate 32 6)] t1"
    "keys (tx_indices t1) = insert (object_hash toy_sha3 put_Transaction (next_coinbase 1)) (keys (tx_indices sample_tables))"
    using next_block [of 1, OF _ sample_chain] s by (auto simp: sample_index_keys replicate_eq_replicate)
  then show ?thesis
    using next_block [of 2, OF _ t1(1)] s n by (auto simp: sample_index_keys replicate_eq_replicate)
qed

definition split_node :: "tables \<Rightarrow> Blockchain" where
  "split_node t = sample_node\<lparr>m_db := (m_db sample_node)\<lparr>m_env := t\<rparr>, m_alternative_chains := [(replicate 32 1, next_stored 1)]\<rparr>"

lemma resync_keeps_minority_witness:
  "\<exists>t bc'. chain_tables toy_sha3 toy_sha3 [(sample_stored, replicate 32 5), (next_stored 1, replicate 32 6), (next_stored 2, replicate 32 7)] t \<and>
     resyncToMajority sample_env (recordFinalityFork (getCurrentBlockchainHeight (split_node t)) 2 (replicate 32 3) (split_node t)) = Some (Inr (True, bc')) \<and>
     chain_tables toy_sha3 toy_sha3 [(sample_stored, replicate 32 5), (next_stored 1, replicate 32 6)] (db_tables bc') \<and>
     getTailId bc' \<noteq> previousBlockHash far_block"
proof -
  let ?bs = "[(sample_stored, replicate 32 5), (next_stored 1, replicate 32 6), (next_stored 2, replicate 32 7)]"
  obtain t where t: "chain_tables toy_sha3 toy_sha3 ?bs t" using three_blocks by blast
  have n: "txn_ok (split_node t)" "db_tables (split_node t) = t" "\<not> ff_active (m_finalityForkState (split_node t))"
    "mdb_get (previousBlockHash far_block) (m_alternative_chains (split_node t)) = Some (next_stored 1)" "be_height (next_stored 1) = 1"
    by (simp_all add: split_node_def txn_ok_def hasActiveTxn_def readTxn_def sample_node_def no_fork_def next_stored_def)
  have h: "getHashHeight t (previousBlockHash far_block) = None"
    using chain_hash_keys [OF t] by (simp add: getHashHeight_def get_None_keys replicate_eq_replicate)
  have e: "(1 :: u32) + 1 = 2" "Suc (unat (1 :: u32)) = 2" "take 2 ?bs = [(sample_stored, replicate 32 5), (next_stored 1, replicate 32 6)]"
    "2 < length ?bs" by simp_all
  show ?thesis
    using resync_keeps_minority [of "split_node t" sample_env ?bs far_block "next_stored 1" "replicate 32 3", unfolded n(2,5) e sample_node_simps(9,10), OF n(1) t n(3,4) h] t e(4)
    by blast
qed

end
