(* ===== verification/Spec2Isabelle.thy ===== *)
theory Spec2Isabelle
  imports Prelude Streams Codec Tx_Model Tx_Wire Strings Tx_Extra Merkle Pq_Derive Config Pq_Validation
    Int_Util Base58 Format_Utils Genesis Currency Kv_Table Chain_DB Block_Store Checkpoints Difficulty
    Chain_Rules Tx_Inputs Push_Block Supply Tx_Pool Node
begin

text \<open>
  Verification library of the Discrete node.
\<close>

end
